(* ===== verification/Prelude.thy ===== *)
theory Prelude
  imports Main "HOL-Library.Char_ord" "HOL-Library.List_Lexorder"
begin

text \<open>
  What every component shares: the lemma collections, generic list lemmas, and the part of
  Go's standard library on strings that the sources call (package \<open>strings\<close>,
  \<open>strconv.FormatInt\<close>, \<open>strconv.ParseInt\<close>). A Go string is a sequence of bytes; it is
  modelled by \<^typ>\<open>string\<close>, a list of 8-bit characters, so \<open>length\<close> is Go's \<open>len\<close>.
  A text outside ASCII is its UTF-8 encoding, written out byte by byte.
\<close>

named_theorems frame_simps \<open>fields that an operation leaves alone\<close>
named_theorems step_defs \<open>definitions of the small state-changing operations\<close>

section \<open>Outcomes of fallible calls\<close>

text \<open>
  A call that leaves the process (an SQL statement, a write to a pipe, an upload) may fail.
  The outcomes of the coming calls are a list, consumed one per call: \<open>None\<close> for a success,
  \<open>Some msg\<close> for a failure with the error text \<open>msg\<close>; when the list is exhausted every further
  call succeeds.
\<close>

type_synonym outcomes = "string option list"

fun next_fault :: "outcomes \<Rightarrow> string option \<times> outcomes" where
  "next_fault [] = (None, [])"
| "next_fault (b # bs) = (b, bs)"

section \<open>Prefixes, suffixes and substrings\<close>

definition has_prefix :: "string \<Rightarrow> string \<Rightarrow> bool" where
  "has_prefix s p \<longleftrightarrow> take (length p) s = p"

definition has_suffix :: "string \<Rightarrow> string \<Rightarrow> bool" where
  "has_suffix s p \<longleftrightarrow> has_prefix (rev s) (rev p)"

definition cut_prefix :: "string \<Rightarrow> string \<Rightarrow> string \<times> bool" where
  "cut_prefix s p = (if has_prefix s p then (drop (length p) s, True) else (s, False))"

definition trim_suffix :: "string \<Rightarrow> string \<Rightarrow> string" where
  "trim_suffix s p = (if has_suffix s p then take (length s - length p) s else s)"

fun contains :: "string \<Rightarrow> string \<Rightarrow> bool" where
  "contains [] p = (p = [])"
| "contains (c # s) p = (has_prefix (c # s) p \<or> contains s p)"

lemma has_prefix_append [simp]: "has_prefix (p @ s) p"
  by (simp add: has_prefix_def)

lemma has_prefix_refl [simp]: "has_prefix s s"
  by (simp add: has_prefix_def)

lemma has_prefix_Nil [simp]: "has_prefix s []"
  by (simp add: has_prefix_def)

lemma has_prefix_Nil2 [simp]: "has_prefix [] p = (p = [])"
  by (auto simp: has_prefix_def)

lemma has_prefix_Cons [simp]:
  "has_prefix (c # s) (d # p) = (c = d \<and> has_prefix s p)"
  by (auto simp: has_prefix_def)

lemma has_prefix_iff: "has_prefix s p \<longleftrightarrow> (\<exists>t. s = p @ t)"
proof
  assume "has_prefix s p"
  then have "s = p @ drop (length p) s"
    by (metis append_take_drop_id has_prefix_def)
  then show "\<exists>t. s = p @ t" by blast
qed auto

lemma has_prefix_length: "has_prefix s p \<Longrightarrow> length p \<le> length s"
  by (auto simp: has_prefix_iff)

lemma has_prefix_take: "has_prefix (take n s) p \<Longrightarrow> has_prefix s p"
  by (auto simp: has_prefix_def) (metis length_take min.absorb_iff2 min.cobounded1 take_take)

lemma cut_prefix_append [simp]: "cut_prefix (p @ s) p = (s, True)"
  by (simp add: cut_prefix_def)

lemma contains_prefix: "has_prefix s p \<Longrightarrow> contains s p"
  by (cases s) auto

lemma contains_append1: "contains t p \<Longrightarrow> contains (s @ t) p"
  by (induction s) auto

lemma contains_infix [simp]: "contains (s @ p @ t) p"
  by (rule contains_append1) (simp add: contains_prefix)

lemma contains_iff: "contains s p \<longleftrightarrow> (\<exists>u v. s = u @ p @ v)"
proof
  show "contains s p \<Longrightarrow> \<exists>u v. s = u @ p @ v"
  proof (induction s)
    case Nil
    then show ?case by simp
  next
    case (Cons c s)
    then consider t where "c # s = p @ t" | u v where "s = u @ p @ v"
      by (auto simp: has_prefix_iff)
    then show ?case
    proof cases
      case 1
      then have "c # s = [] @ p @ t" by simp
      then show ?thesis by blast
    next
      case 2
      then have "c # s = (c # u) @ p @ v" by simp
      then show ?thesis by blast
    qed
  qed
qed auto

section \<open>Splitting and joining\<close>

text \<open>\<open>strings.Split(s, sep)\<close> for a one-byte separator, and \<open>strings.Join\<close>.\<close>

fun split_on :: "char \<Rightarrow> string \<Rightarrow> string list" where
  "split_on c [] = [[]]"
| "split_on c (x # xs) =
     (if x = c then [] # split_on c xs
      else (case split_on c xs of [] \<Rightarrow> [[x]] | y # ys \<Rightarrow> (x # y) # ys))"

fun join :: "string \<Rightarrow> string list \<Rightarrow> string" where
  "join sep [] = []"
| "join sep [x] = x"
| "join sep (x # y # ys) = x @ sep @ join sep (y # ys)"

lemma split_on_not_Nil [simp]: "split_on c s \<noteq> []"
  by (induction s) (auto split: list.splits)

lemma split_on_no_sep: "c \<notin> set s \<Longrightarrow> split_on c s = [s]"
  by (induction s) auto

lemma split_on_append:
  "c \<notin> set x \<Longrightarrow> split_on c (x @ c # s) = x # split_on c s"
  by (induction x) auto

lemma split_on_mid: "split_on c (s @ c # t) = split_on c s @ split_on c t"
proof (induction s)
  case (Cons x s)
  then show ?case by (cases "split_on c s") auto
qed simp

lemma split_on_parts: "x \<in> set (split_on c s) \<Longrightarrow> c \<notin> set x"
proof (induction s arbitrary: x)
  case (Cons a s)
  then show ?case
    by (cases "split_on c s") (auto split: if_splits)
qed simp

lemma join_Cons: "ys \<noteq> [] \<Longrightarrow> join sep (y # ys) = y @ sep @ join sep ys"
  by (cases ys) auto

lemma join_split_on: "join [c] (split_on c s) = s"
proof (induction s)
  case (Cons a s)
  show ?case
  proof (cases "split_on c s")
    case Nil
    then show ?thesis by simp
  next
    case (Cons y ys)
    with Cons.IH show ?thesis
      by (cases ys) (auto simp: join_Cons)
  qed
qed simp

lemma split_on_join:
  "xs \<noteq> [] \<Longrightarrow> (\<forall>x \<in> set xs. c \<notin> set x) \<Longrightarrow> split_on c (join [c] xs) = xs"
proof (induction xs)
  case (Cons x xs)
  then show ?case
    by (cases "xs = []") (auto simp: split_on_no_sep split_on_append join_Cons)
qed simp

section \<open>Unicode white space\<close>

text \<open>
  \<open>strings.TrimSpace\<close> removes the runes of \<open>unicode.IsSpace\<close> at both ends. Their UTF-8
  encodings are listed here: a rune stands at the front of a byte string exactly when its
  encoding is a prefix, and at the end exactly when its encoding is a suffix.
\<close>

definition space_runes :: "string list" where
  "space_runes =
     [[CHR 0x09], [CHR 0x0A], [CHR 0x0B], [CHR 0x0C], [CHR 0x0D], [CHR 0x20],
      [CHR 0xC2, CHR 0x85], [CHR 0xC2, CHR 0xA0],
      [CHR 0xE1, CHR 0x9A, CHR 0x80],
      [CHR 0xE2, CHR 0x80, CHR 0x80], [CHR 0xE2, CHR 0x80, CHR 0x81],
      [CHR 0xE2, CHR 0x80, CHR 0x82], [CHR 0xE2, CHR 0x80, CHR 0x83],
      [CHR 0xE2, CHR 0x80, CHR 0x84], [CHR 0xE2, CHR 0x80, CHR 0x85],
      [CHR 0xE2, CHR 0x80, CHR 0x86], [CHR 0xE2, CHR 0x80, CHR 0x87],
      [CHR 0xE2, CHR 0x80, CHR 0x88], [CHR 0xE2, CHR 0x80, CHR 0x89],
      [CHR 0xE2, CHR 0x80, CHR 0x8A],
      [CHR 0xE2, CHR 0x80, CHR 0xA8], [CHR 0xE2, CHR 0x80, CHR 0xA9],
      [CHR 0xE2, CHR 0x80, CHR 0xAF], [CHR 0xE2, CHR 0x81, CHR 0x9F],
      [CHR 0xE3, CHR 0x80, CHR 0x80]]"

fun strip_one :: "string list \<Rightarrow> string \<Rightarrow> string option" where
  "strip_one [] s = None"
| "strip_one (r # rs) s =
     (if r \<noteq> [] \<and> has_prefix s r then Some (drop (length r) s) else strip_one rs s)"

lemma strip_one_length: "strip_one rs s = Some t \<Longrightarrow> length t < length s"
  by (induction rs s rule: strip_one.induct)
     (auto split: if_splits simp: has_prefix_iff)

lemma strip_one_take: "strip_one rs s = None \<Longrightarrow> strip_one rs (take n s) = None"
  by (induction rs s rule: strip_one.induct) (auto split: if_splits dest: has_prefix_take)

lemma has_prefix_shorten:
  assumes "has_prefix (u @ x # v) r" "u \<noteq> []" "x \<notin> set (tl r)"
  shows "has_prefix u r"
proof -
  obtain t where "u @ x # v = r @ t" using assms(1) by (auto simp: has_prefix_iff)
  then consider us where "u = r @ us" | us where "u @ us = r" "x # v = us @ t"
    by (auto simp: append_eq_append_conv2)
  then show ?thesis
  proof cases
    case (2 us)
    with assms(2,3) have "us = []" by (cases us; cases u) auto
    with 2 show ?thesis by auto
  qed simp
qed

lemma strip_one_append:
  "strip_one rs u = None \<Longrightarrow> u \<noteq> [] \<Longrightarrow> \<forall>r \<in> set rs. x \<notin> set (tl r) \<Longrightarrow>
   strip_one rs (u @ x # v) = None"
  by (induction rs u rule: strip_one.induct) (auto split: if_splits dest: has_prefix_shorten)

function strip_all :: "string list \<Rightarrow> string \<Rightarrow> string" where
  "strip_all rs s = (case strip_one rs s of None \<Rightarrow> s | Some t \<Rightarrow> strip_all rs t)"
  by pat_completeness auto
termination
  by (relation "measure (\<lambda>(rs, s). length s)") (auto dest: strip_one_length)

declare strip_all.simps [simp del]

lemma strip_all_done: "strip_one rs (strip_all rs s) = None"
proof (induction rs s rule: strip_all.induct)
  case (1 rs s)
  then show ?case
    by (cases "strip_one rs s") (simp_all add: strip_all.simps [of rs s])
qed

lemma strip_one_suffix: "strip_one rs s = Some t \<Longrightarrow> \<exists>n. t = drop n s"
  by (induction rs s rule: strip_one.induct) (auto split: if_splits)

lemma strip_all_suffix: "\<exists>n. strip_all rs s = drop n s"
proof (induction rs s rule: strip_all.induct)
  case (1 rs s)
  show ?case
  proof (cases "strip_one rs s")
    case None
    then show ?thesis by (simp add: strip_all.simps [of rs s]) (metis drop0)
  next
    case (Some t)
    then obtain n m where "t = drop n s" "strip_all rs t = drop m t"
      using "1.IH" strip_one_suffix by blast
    then show ?thesis using Some by (auto simp: strip_all.simps [of rs s])
  qed
qed

lemma strip_all_id: "strip_one rs s = None \<Longrightarrow> strip_all rs s = s"
  by (simp add: strip_all.simps [of rs s])

definition trim_left_space :: "string \<Rightarrow> string" where
  "trim_left_space s = strip_all space_runes s"

definition trim_right_space :: "string \<Rightarrow> string" where
  "trim_right_space s = rev (strip_all (map rev space_runes) (rev s))"

definition trim_space :: "string \<Rightarrow> string" where
  "trim_space s = trim_right_space (trim_left_space s)"

lemma trim_right_space_take: "\<exists>n. trim_right_space s = take n s"
proof -
  obtain n where "strip_all (map rev space_runes) (rev s) = drop n (rev s)"
    using strip_all_suffix by blast
  then have "trim_right_space s = take (length s - n) s"
    by (simp add: trim_right_space_def rev_drop)
  then show ?thesis by blast
qed

lemma trim_space_clean:
  "strip_one space_runes (trim_space s) = None"
  "strip_one (map rev space_runes) (rev (trim_space s)) = None"
proof -
  obtain n where "trim_space s = take n (trim_left_space s)"
    using trim_right_space_take by (auto simp: trim_space_def)
  then show "strip_one space_runes (trim_space s) = None"
    by (simp add: strip_one_take trim_left_space_def strip_all_done)
  show "strip_one (map rev space_runes) (rev (trim_space s)) = None"
    by (simp add: trim_space_def trim_right_space_def strip_all_done)
qed

lemma trim_space_id:
  assumes "strip_one space_runes s = None" "strip_one (map rev space_runes) (rev s) = None"
  shows "trim_space s = s"
  using assms
  by (simp add: trim_space_def trim_left_space_def trim_right_space_def strip_all_id)

lemma trim_space_idem [simp]: "trim_space (trim_space s) = trim_space s"
  by (rule trim_space_id) (rule trim_space_clean)+

lemma trim_space_Nil [simp]: "trim_space [] = []"
  by (rule trim_space_id) (simp_all add: space_runes_def)

lemma trim_space_set: "set (trim_space s) \<subseteq> set s"
proof -
  obtain n m where "trim_space s = take n (drop m s)"
    using trim_right_space_take strip_all_suffix
    by (metis trim_left_space_def trim_space_def)
  then show ?thesis
    by (metis set_drop_subset set_take_subset subset_trans)
qed

section \<open>Letter case and trimming of given bytes\<close>

text \<open>
  The sources compare lower-cased text only with ASCII words that contain neither \<open>k\<close> nor
  \<open>i\<close>, the two letters some non-ASCII rune lower-cases to; on those comparisons
  \<open>strings.ToLower\<close> is the ASCII function.
\<close>

definition ascii_lower :: "char \<Rightarrow> char" where
  "ascii_lower c = (if CHR ''A'' \<le> c \<and> c \<le> CHR ''Z''
     then char_of (of_char c + (32::nat)) else c)"

definition to_lower :: "string \<Rightarrow> string" where
  "to_lower s = map ascii_lower s"

text \<open>\<open>strings.TrimRight(s, cutset)\<close> for an ASCII cutset.\<close>

definition trim_right :: "string \<Rightarrow> string \<Rightarrow> string" where
  "trim_right s cutset = rev (dropWhile (\<lambda>c. c \<in> set cutset) (rev s))"

section \<open>Decimal numbers\<close>

definition digit_char :: "nat \<Rightarrow> char" where
  "digit_char d = char_of (48 + d)"

definition digit_val :: "char \<Rightarrow> nat option" where
  "digit_val c = (if CHR ''0'' \<le> c \<and> c \<le> CHR ''9'' then Some (of_char c - 48) else None)"

fun dec_nat :: "nat \<Rightarrow> string" where
  "dec_nat n = (if n < 10 then [digit_char n] else dec_nat (n div 10) @ [digit_char (n mod 10)])"

declare dec_nat.simps [simp del]

definition dec_int :: "int \<Rightarrow> string" where
  "dec_int i = (if i < 0 then CHR ''-'' # dec_nat (nat (- i)) else dec_nat (nat i))"

fun parse_digits :: "nat \<Rightarrow> string \<Rightarrow> nat option" where
  "parse_digits acc [] = Some acc"
| "parse_digits acc (c # cs) =
     (case digit_val c of None \<Rightarrow> None | Some d \<Rightarrow> parse_digits (acc * 10 + d) cs)"

text \<open>\<open>strconv.ParseInt(s, 10, 64)\<close>: an optional sign, at least one digit, the range of int64.\<close>

definition parse_int64 :: "string \<Rightarrow> int option" where
  "parse_int64 s =
     (let (neg, ds) = (case s of [] \<Rightarrow> (False, [])
                       | c # cs \<Rightarrow> if c = CHR ''-'' then (True, cs)
                                 else if c = CHR ''+'' then (False, cs) else (False, s))
      in if ds = [] then None
         else case parse_digits 0 ds of None \<Rightarrow> None
         | Some n \<Rightarrow> (let i = (if neg then - int n else int n)
                     in if - (2 ^ 63) \<le> i \<and> i < 2 ^ 63 then Some i else None))"

lemma digit_val_char [simp]: "d < 10 \<Longrightarrow> digit_val (digit_char d) = Some d"
  by (auto simp: digit_val_def digit_char_def less_eq_char_def)

lemma digit_char_ne [simp]:
  "d < 10 \<Longrightarrow> digit_char d \<noteq> CHR ''-''" "d < 10 \<Longrightarrow> digit_char d \<noteq> CHR ''+''"
proof -
  show "d < 10 \<Longrightarrow> digit_char d \<noteq> CHR ''-''"
    using digit_val_char [of d] by (auto simp: digit_val_def)
  show "d < 10 \<Longrightarrow> digit_char d \<noteq> CHR ''+''"
    using digit_val_char [of d] by (auto simp: digit_val_def)
qed

lemma parse_digits_append:
  "parse_digits acc (xs @ ys) =
     (case parse_digits acc xs of None \<Rightarrow> None | Some a \<Rightarrow> parse_digits a ys)"
  by (induction acc xs rule: parse_digits.induct) (auto split: option.splits)

lemma dec_nat_not_Nil [simp]: "dec_nat n \<noteq> []"
  by (simp add: dec_nat.simps)

lemma parse_dec_nat [simp]: "parse_digits 0 (dec_nat n) = Some n"
proof (induction n rule: dec_nat.induct)
  case (1 n)
  show ?case
  proof (cases "n < 10")
    case True
    then show ?thesis by (simp add: dec_nat.simps)
  next
    case False
    with 1 show ?thesis
      by (subst dec_nat.simps) (simp add: parse_digits_append)
  qed
qed

lemma hd_dec_nat: "\<exists>d < 10. hd (dec_nat n) = digit_char d"
proof (induction n rule: dec_nat.induct)
  case (1 n)
  then show ?case
    by (cases "n < 10") (auto simp: dec_nat.simps [of n] intro: exI [of _ n])
qed

lemma dec_nat_inject [simp]: "dec_nat m = dec_nat n \<longleftrightarrow> m = n"
  by (metis option.inject parse_dec_nat)

lemma parse_dec_int:
  assumes "- (2 ^ 63) \<le> i" "i < 2 ^ 63"
  shows "parse_int64 (dec_int i) = Some i"
proof (cases "i < 0")
  case True
  with assms show ?thesis by (simp add: parse_int64_def dec_int_def)
next
  case False
  obtain c cs where s: "dec_nat (nat i) = c # cs" by (cases "dec_nat (nat i)") auto
  moreover obtain d where "d < 10" "c = digit_char d"
    using hd_dec_nat [of "nat i"] s by auto
  moreover have "parse_digits 0 (c # cs) = Some (nat i)"
    using parse_dec_nat [of "nat i"] s by simp
  ultimately show ?thesis
    using False assms by (simp add: parse_int64_def dec_int_def Let_def)
qed

section \<open>Generic list lemmas\<close>

lemma sort_key_Nil_iff [simp]: "sort_key f xs = [] \<longleftrightarrow> xs = []"
  by (metis length_0_conv length_sort)

lemma hd_sort_key_in: "xs \<noteq> [] \<Longrightarrow> hd (sort_key f xs) \<in> set xs"
  by (metis hd_in_set set_sort sort_key_Nil_iff)

lemma hd_sort_key_le: "x \<in> set xs \<Longrightarrow> f (hd (sort_key f xs)) \<le> f x"
proof -
  assume "x \<in> set xs"
  then obtain y ys where ys: "sort_key f xs = y # ys" and "x \<in> set (y # ys)"
    by (metis empty_iff empty_set list.exhaust set_sort)
  moreover have "sorted (map f (y # ys))"
    using ys by (metis sorted_sort_key)
  ultimately show ?thesis by auto
qed

lemma filter_neq_length:
  "x \<in> set xs \<Longrightarrow> \<not> P x \<Longrightarrow> length (filter P xs) < length xs"
  by (rule length_filter_less)

end
