(* ===== verification/Go_Path.thy ===== *)
theory Go_Path
  imports Prelude
begin

text \<open>
  The functions of Go's \<open>path/filepath\<close> (on Unix; \<open>path.Base\<close> agrees) that the sources
  call: \<open>Clean\<close>, \<open>Join\<close>, \<open>Base\<close>, \<open>Dir\<close>, \<open>Ext\<close> and \<open>IsAbs\<close>, with the facts the
  components use about them.
\<close>

section \<open>Definitions\<close>

text \<open>The lexical clean-up of the elements of a path; \<open>acc\<close> holds the kept ones, last first.\<close>

fun clean_parts :: "bool \<Rightarrow> string list \<Rightarrow> string list \<Rightarrow> string list" where
  "clean_parts rooted acc [] = rev acc"
| "clean_parts rooted acc (p # ps) =
     (if p = [] \<or> p = ''.'' then clean_parts rooted acc ps
      else if p = ''..'' then
        (case acc of
           [] \<Rightarrow> clean_parts rooted (if rooted then [] else [''..'']) ps
         | a # as \<Rightarrow> if a = ''..'' then clean_parts rooted (''..'' # acc) ps
                    else clean_parts rooted as ps)
      else clean_parts rooted (p # acc) ps)"

definition path_is_abs :: "string \<Rightarrow> bool" where
  "path_is_abs s = has_prefix s ''/''"

definition path_clean :: "string \<Rightarrow> string" where
  "path_clean s =
     (if s = [] then ''.''
      else let body = join ''/'' (clean_parts (path_is_abs s) [] (split_on CHR ''/'' s))
           in if path_is_abs s then CHR ''/'' # body
              else if body = [] then ''.'' else body)"

definition path_join :: "string list \<Rightarrow> string" where
  "path_join elems =
     (case dropWhile (\<lambda>e. e = []) elems of
        [] \<Rightarrow> []
      | es \<Rightarrow> path_clean (join ''/'' es))"

definition after_last :: "char \<Rightarrow> string \<Rightarrow> string" where
  "after_last c s = rev (takeWhile (\<lambda>x. x \<noteq> c) (rev s))"

definition path_base :: "string \<Rightarrow> string" where
  "path_base s =
     (if s = [] then ''.''
      else let b = after_last CHR ''/'' (trim_right s ''/'')
           in if b = [] then ''/'' else b)"

definition path_dir :: "string \<Rightarrow> string" where
  "path_dir s = path_clean (take (length s - length (after_last CHR ''/'' s)) s)"

definition path_ext :: "string \<Rightarrow> string" where
  "path_ext s =
     (let t = takeWhile (\<lambda>c. c \<noteq> CHR ''.'' \<and> c \<noteq> CHR ''/'') (rev s)
      in case drop (length t) (rev s) of
           [] \<Rightarrow> []
         | c # _ \<Rightarrow> if c = CHR ''.'' then CHR ''.'' # rev t else [])"

section \<open>Facts\<close>

lemma after_last_notin: "c \<notin> set (after_last c s)"
  by (auto simp: after_last_def dest: set_takeWhileD)

lemma path_base_not_Nil [simp]: "path_base s \<noteq> []"
  by (simp add: path_base_def Let_def)

text \<open>The base of a path is one element: no separator, unless it is the root itself.\<close>

lemma path_base_no_sep: "path_base s \<noteq> ''/'' \<Longrightarrow> CHR ''/'' \<notin> set (path_base s)"
  by (auto simp: path_base_def Let_def after_last_notin split: if_splits)

lemma path_ext_suffix: "\<exists>b. s = b @ path_ext s"
proof -
  define t where "t = takeWhile (\<lambda>c. c \<noteq> CHR ''.'' \<and> c \<noteq> CHR ''/'') (rev s)"
  have rs: "rev s = t @ drop (length t) (rev s)"
    unfolding t_def by (simp add: dropWhile_eq_drop [symmetric])
  show ?thesis
  proof (cases "drop (length t) (rev s)")
    case Nil
    then show ?thesis by (auto simp: path_ext_def t_def [symmetric] Let_def)
  next
    case (Cons c cs)
    show ?thesis
    proof (cases "c = CHR ''.''")
      case True
      with Cons rs have "rev s = t @ CHR ''.'' # cs" by simp
      then have "s = rev cs @ CHR ''.'' # rev t"
        by (metis rev_append rev_rev_ident rev.simps(2) append_assoc append_Cons append_Nil)
      moreover have "path_ext s = CHR ''.'' # rev t"
        using Cons True by (simp add: path_ext_def t_def [symmetric] Let_def)
      ultimately show ?thesis by simp
    next
      case False
      with Cons show ?thesis by (simp add: path_ext_def t_def [symmetric] Let_def)
    qed
  qed
qed

lemma has_suffix_append [simp]: "has_suffix (b @ e) e"
  by (simp add: has_suffix_def)

lemma trim_suffix_append [simp]: "trim_suffix (b @ e) e = b"
  by (simp add: trim_suffix_def)

lemma path_ext_split: "trim_suffix s (path_ext s) @ path_ext s = s"
  using path_ext_suffix [of s] by (metis trim_suffix_append)

lemma path_ext_chars: "c \<in> set (path_ext s) \<Longrightarrow> c \<in> set s"
  using path_ext_split [of s] by (metis Un_iff set_append)

lemma trim_suffix_chars: "c \<in> set (trim_suffix s e) \<Longrightarrow> c \<in> set s"
  by (auto simp: trim_suffix_def dest: in_set_takeD split: if_splits)

lemma path_clean_not_Nil [simp]: "path_clean s \<noteq> []"
  by (simp add: path_clean_def Let_def)

text \<open>A rooted path is cleaned to a path with no empty, \<open>.\<close> or \<open>..\<close> element.\<close>

definition plain_elem :: "string \<Rightarrow> bool" where
  "plain_elem p \<longleftrightarrow> p \<noteq> [] \<and> p \<noteq> ''.'' \<and> p \<noteq> ''..''"

lemma clean_parts_rooted:
  "list_all plain_elem acc \<Longrightarrow> list_all plain_elem (clean_parts True acc ps)"
proof (induction ps arbitrary: acc)
  case Nil
  then show ?case by (simp add: list_all_iff)
next
  case (Cons q ps)
  consider "q = [] \<or> q = ''.''" | "q = ''..''" | "plain_elem q"
    by (auto simp: plain_elem_def)
  then show ?case
  proof cases
    case 1
    with Cons show ?thesis by auto
  next
    case 2
    with Cons show ?thesis by (cases acc) (simp_all add: plain_elem_def)
  next
    case 3
    with Cons.IH [of "q # acc"] Cons.prems show ?thesis
      by (simp add: plain_elem_def)
  qed
qed

text \<open>Joining one plain element to a directory given as an absolute, clean path.\<close>

lemma clean_parts_plain:
  "list_all plain_elem ps \<Longrightarrow> clean_parts r acc ps = rev acc @ ps"
  by (induction ps arbitrary: acc) (simp_all add: plain_elem_def)

lemma join_snoc: "ps \<noteq> [] \<Longrightarrow> join sep (ps @ [f]) = join sep ps @ sep @ f"
  by (induction ps rule: induct_list012) auto

lemma path_join_plain:
  assumes plain: "list_all plain_elem ps" "\<forall>p \<in> set ps. CHR ''/'' \<notin> set p"
    and ps: "ps \<noteq> []"
    and f: "plain_elem f" "CHR ''/'' \<notin> set f"
  shows "path_join [CHR ''/'' # join ''/'' ps, f] = (CHR ''/'' # join ''/'' ps) @ ''/'' @ f"
proof -
  have sp: "split_on CHR ''/'' (join ''/'' (ps @ [f])) = ps @ [f]"
    using plain f by (intro split_on_join) auto
  have jn: "join ''/'' (ps @ [f]) = join ''/'' ps @ CHR ''/'' # f"
    using join_snoc [OF ps, of "''/''" f] by simp
  have cl: "clean_parts True [] (ps @ [f]) = ps @ [f]"
    using plain f by (subst clean_parts_plain) auto
  have "f \<noteq> []" using f by (simp add: plain_elem_def)
  then have "path_join [CHR ''/'' # join ''/'' ps, f] = path_clean (CHR ''/'' # join ''/'' (ps @ [f]))"
    by (simp add: path_join_def jn)
  also have "\<dots> = CHR ''/'' # join ''/'' (ps @ [f])"
    by (simp add: path_clean_def path_is_abs_def sp cl)
  finally show ?thesis by (simp add: jn)
qed

end
