(* ===== verification/Json.thy ===== *)
theory Json
  imports Prelude
begin

text \<open>
  What the sources use of Go's \<open>encoding/json\<close>: a JSON value and \<open>json.Unmarshal\<close> into the
  types the sources declare. A JSON text is represented by the value it denotes (the syntax
  of JSON itself is not modelled; a text that is no JSON is a \<open>None\<close> where a reader meets
  one). A number keeps its literal, as \<open>json.RawMessage\<close> and \<open>json.Number\<close> do.

  \<open>Unmarshal\<close> walks the members of an object in order, matches a member name to a struct field
  without regard to case, lets a later member overwrite an earlier one, leaves a field
  alone on \<open>null\<close> and reports a type error for a value of the wrong kind. All callers
  discard the decoded value on an error, so a decoder returns \<open>None\<close> then.
\<close>

section \<open>Values\<close>

datatype json =
    JNull
  | JBool bool
  | JNum string
  | JStr string
  | JArr "json list"
  | JObj "(string \<times> json) list"

text \<open>
  Case folding of member names. Besides the ASCII letters only the long s and the Kelvin
  sign fold to an ASCII letter, and every field name of the sources is ASCII.
\<close>

definition ascii_upper :: "char \<Rightarrow> char" where
  "ascii_upper c = (if CHR ''a'' \<le> c \<and> c \<le> CHR ''z''
     then char_of (of_char c - (32::nat)) else c)"

function fold_name :: "string \<Rightarrow> string" where
  "fold_name s =
     (if has_prefix s [CHR 0xC5, CHR 0xBF] then CHR ''S'' # fold_name (drop 2 s)
      else if has_prefix s [CHR 0xE2, CHR 0x84, CHR 0xAA] then CHR ''K'' # fold_name (drop 3 s)
      else (case s of [] \<Rightarrow> [] | c # cs \<Rightarrow> ascii_upper c # fold_name cs))"
  by pat_completeness auto
termination
  by (relation "measure length") (auto dest!: has_prefix_length)

declare fold_name.simps [simp del]

definition obj_vals :: "string \<Rightarrow> (string \<times> json) list \<Rightarrow> json list" where
  "obj_vals name fs = map snd (filter (\<lambda>(k, v). fold_name k = fold_name name) fs)"

section \<open>Decoders\<close>

type_synonym 'a decoder = "'a \<Rightarrow> json \<Rightarrow> 'a option"

fun fold_dec :: "'a decoder \<Rightarrow> 'a \<Rightarrow> json list \<Rightarrow> 'a option" where
  "fold_dec d a [] = Some a"
| "fold_dec d a (v # vs) = (case d a v of None \<Rightarrow> None | Some a' \<Rightarrow> fold_dec d a' vs)"

definition dec_field :: "string \<Rightarrow> 'a decoder \<Rightarrow> 'a \<Rightarrow> (string \<times> json) list \<Rightarrow> 'a option" where
  "dec_field name d old fs = fold_dec d old (obj_vals name fs)"

fun dec_string :: "string decoder" where
  "dec_string old JNull = Some old"
| "dec_string old (JStr s) = Some s"
| "dec_string old _ = None"

fun dec_int64 :: "int decoder" where
  "dec_int64 old JNull = Some old"
| "dec_int64 old (JNum l) = parse_int64 l"
| "dec_int64 old _ = None"

text \<open>\<open>*bool\<close>: nil is \<open>None\<close>.\<close>

fun dec_bool_ptr :: "bool option decoder" where
  "dec_bool_ptr old JNull = Some None"
| "dec_bool_ptr old (JBool b) = Some (Some b)"
| "dec_bool_ptr old _ = None"

text \<open>\<open>json.RawMessage\<close>: the empty message (length 0) is \<open>None\<close>; \<open>null\<close> is kept as a value.\<close>

fun dec_raw :: "json option decoder" where
  "dec_raw old v = Some (Some v)"

text \<open>\<open>map[string]any\<close>, as the list of its assignments in order; the last one of a key counts.\<close>

fun dec_any_map :: "(string \<times> json) list decoder" where
  "dec_any_map old JNull = Some []"
| "dec_any_map old (JObj fs) = Some (old @ fs)"
| "dec_any_map old _ = None"

definition any_map_get :: "(string \<times> json) list \<Rightarrow> string \<Rightarrow> json option" where
  "any_map_get m k = map_of (rev m) k"

text \<open>A pointer to a struct, decoded into the struct already there or a zero one.\<close>

fun dec_ptr :: "'a \<Rightarrow> ('a \<Rightarrow> json \<Rightarrow> 'a option) \<Rightarrow> 'a option decoder" where
  "dec_ptr zero d old JNull = Some None"
| "dec_ptr zero d old v =
     (case d (case old of None \<Rightarrow> zero | Some x \<Rightarrow> x) v of None \<Rightarrow> None | Some x \<Rightarrow> Some (Some x))"

text \<open>A slice: \<open>null\<close> is the nil slice; the elements are decoded into zero values.\<close>

fun dec_list :: "('a \<Rightarrow> json \<Rightarrow> 'a option) \<Rightarrow> 'a \<Rightarrow> json list \<Rightarrow> 'a list option" where
  "dec_list d zero [] = Some []"
| "dec_list d zero (v # vs) =
     (case d zero v of None \<Rightarrow> None
      | Some x \<Rightarrow> (case dec_list d zero vs of None \<Rightarrow> None | Some xs \<Rightarrow> Some (x # xs)))"

fun dec_slice :: "('a \<Rightarrow> json \<Rightarrow> 'a option) \<Rightarrow> 'a \<Rightarrow> json \<Rightarrow> 'a list option" where
  "dec_slice d zero JNull = Some []"
| "dec_slice d zero (JArr vs) = dec_list d zero vs"
| "dec_slice d zero _ = None"

text \<open>A struct: \<open>null\<close> leaves it alone; the members are decoded one field after the other.\<close>

fun dec_struct :: "((string \<times> json) list \<Rightarrow> 'a \<Rightarrow> 'a option) \<Rightarrow> 'a decoder" where
  "dec_struct f old JNull = Some old"
| "dec_struct f old (JObj fs) = f fs old"
| "dec_struct f old _ = None"

section \<open>Facts\<close>

lemma dec_field_absent [simp]: "obj_vals name fs = [] \<Longrightarrow> dec_field name d old fs = Some old"
  by (simp add: dec_field_def)

lemma dec_list_length: "dec_list d zero vs = Some xs \<Longrightarrow> length xs = length vs"
  by (induction vs arbitrary: xs) (auto split: option.splits)

lemma fold_dec_append:
  "fold_dec d a (xs @ ys) =
     (case fold_dec d a xs of None \<Rightarrow> None | Some b \<Rightarrow> fold_dec d b ys)"
  by (induction xs arbitrary: a) (auto split: option.splits)

lemma dec_string_last: "dec_field name dec_string old fs = Some s \<Longrightarrow>
   obj_vals name fs = vs @ [JStr t] \<Longrightarrow> s = t"
  by (auto simp: dec_field_def fold_dec_append split: option.splits)

end
