(* ===== verification/Store.thy ===== *)
theory Store
  imports Prelude
begin

text \<open>
  The database \<open>opencrow.db\<close>: the three tables of \<open>sqlc/schema.sql\<close> and the statements of
  \<open>sqlc/queries.sql\<close> with their generated wrappers in \<open>queries.sql_sqlc.go\<close>. A table is the
  list of its rows in the order of insertion. An \<open>AUTOINCREMENT\<close> key is one more than the
  largest key ever given (\<open>inbox_seq\<close>, \<open>rem_seq\<close>); the implicit rowid of \<open>sent_messages\<close> is
  one more than the largest rowid present. The column \<open>inbox.created_at\<close> is written by
  SQLite's default and read by no code, so it is left out.

  Every statement either fails and changes nothing (a closed database, a busy lock, a
  cancelled context) or runs as a whole; which one is decided by \<open>faults\<close>.
\<close>

section \<open>Rows and the database\<close>

record inbox_row =
  row_id :: nat
  priority :: int
  source :: string
  content :: string
  reply_to :: string

record reminder_row =
  rem_id :: nat
  fire_at :: string
  rem_prompt :: string

record sent_row =
  sent_rowid :: nat
  conv_id :: string
  msg_id :: string
  sent_text :: string

record db =
  inbox :: "inbox_row list"
  inbox_seq :: nat
  reminders :: "reminder_row list"
  rem_seq :: nat
  sent :: "sent_row list"
  faults :: outcomes

datatype db_error = NoRows | SqlFailed string

fun db_error_text :: "db_error \<Rightarrow> string" where
  "db_error_text NoRows = ''sql: no rows in result set''"
| "db_error_text (SqlFailed msg) = msg"

text \<open>The order \<open>priority ASC, id ASC\<close> as a linear order on the keys of inbox rows.\<close>

datatype service_key = Inbox_Key (key_priority: int) (key_id: nat)

instantiation service_key :: linorder
begin

fun less_eq_service_key :: "service_key \<Rightarrow> service_key \<Rightarrow> bool" where
  "Inbox_Key p i \<le> Inbox_Key q j \<longleftrightarrow> p < q \<or> (p = q \<and> i \<le> j)"

fun less_service_key :: "service_key \<Rightarrow> service_key \<Rightarrow> bool" where
  "Inbox_Key p i < Inbox_Key q j \<longleftrightarrow> p < q \<or> (p = q \<and> i < j)"

instance
proof
  fix x y z :: service_key
  show "(x < y) = (x \<le> y \<and> \<not> y \<le> x)" by (cases x; cases y) auto
  show "x \<le> x" by (cases x) auto
  show "x \<le> y \<Longrightarrow> y \<le> z \<Longrightarrow> x \<le> z" by (cases x; cases y; cases z) auto
  show "x \<le> y \<Longrightarrow> y \<le> x \<Longrightarrow> x = y" by (cases x; cases y) auto
  show "x \<le> y \<or> y \<le> x" by (cases x; cases y) auto
qed

end

definition inbox_key :: "inbox_row \<Rightarrow> service_key" where
  "inbox_key r = Inbox_Key (priority r) (row_id r)"

section \<open>Statements\<close>

text \<open>One statement: it fails and leaves the tables alone, or it runs.\<close>

definition sql :: "(db \<Rightarrow> 'a \<times> db) \<Rightarrow> db \<Rightarrow> (db_error + 'a) \<times> db" where
  "sql stmt d =
     (case next_fault (faults d) of
        (Some msg, fs) \<Rightarrow> (Inl (SqlFailed msg), d\<lparr>faults := fs\<rparr>)
      | (None, fs) \<Rightarrow> (case stmt (d\<lparr>faults := fs\<rparr>) of (a, d') \<Rightarrow> (Inr a, d')))"

definition q_enqueue_inbox :: "int \<Rightarrow> string \<Rightarrow> string \<Rightarrow> string \<Rightarrow> db \<Rightarrow> (db_error + unit) \<times> db" where
  "q_enqueue_inbox p s c r = sql (\<lambda>d. ((), d\<lparr>
     inbox := inbox d @ [\<lparr>row_id = Suc (inbox_seq d), priority = p, source = s,
                          content = c, reply_to = r\<rparr>],
     inbox_seq := Suc (inbox_seq d)\<rparr>))"

definition inbox_min :: "inbox_row list \<Rightarrow> inbox_row option" where
  "inbox_min rs = (case sort_key inbox_key rs of [] \<Rightarrow> None | r # _ \<Rightarrow> Some r)"

definition delete_row :: "nat \<Rightarrow> inbox_row list \<Rightarrow> inbox_row list" where
  "delete_row i rs = filter (\<lambda>r. row_id r \<noteq> i) rs"

text \<open>\<open>DELETE ... RETURNING\<close> with no row makes \<open>Scan\<close> return \<open>sql.ErrNoRows\<close>.\<close>

definition q_dequeue_inbox :: "db \<Rightarrow> (db_error + inbox_row) \<times> db" where
  "q_dequeue_inbox d =
     (case sql (\<lambda>d. case inbox_min (inbox d) of
                  None \<Rightarrow> (None, d)
                | Some r \<Rightarrow> (Some r, d\<lparr>inbox := delete_row (row_id r) (inbox d)\<rparr>)) d of
        (Inl e, d') \<Rightarrow> (Inl e, d')
      | (Inr None, d') \<Rightarrow> (Inl NoRows, d')
      | (Inr (Some r), d') \<Rightarrow> (Inr r, d'))"

definition q_delete_inbox_item :: "nat \<Rightarrow> db \<Rightarrow> (db_error + unit) \<times> db" where
  "q_delete_inbox_item i = sql (\<lambda>d. ((), d\<lparr>inbox := delete_row i (inbox d)\<rparr>))"

definition q_peek_inbox :: "db \<Rightarrow> (db_error + inbox_row) \<times> db" where
  "q_peek_inbox d =
     (case sql (\<lambda>d. (inbox_min (inbox d), d)) d of
        (Inl e, d') \<Rightarrow> (Inl e, d')
      | (Inr None, d') \<Rightarrow> (Inl NoRows, d')
      | (Inr (Some r), d') \<Rightarrow> (Inr r, d'))"

definition q_delete_stale_items :: "db \<Rightarrow> (db_error + unit) \<times> db" where
  "q_delete_stale_items = sql (\<lambda>d. ((), d\<lparr>
     inbox := filter (\<lambda>r. source r \<notin> {''heartbeat'', ''compact''}) (inbox d)\<rparr>))"

definition q_dequeue_user_items :: "db \<Rightarrow> (db_error + inbox_row list) \<times> db" where
  "q_dequeue_user_items = sql (\<lambda>d. (filter (\<lambda>r. source r = ''user'') (inbox d),
     d\<lparr>inbox := filter (\<lambda>r. source r \<noteq> ''user'') (inbox d)\<rparr>))"

definition q_count_inbox :: "db \<Rightarrow> (db_error + nat) \<times> db" where
  "q_count_inbox = sql (\<lambda>d. (length (inbox d), d))"

definition q_enqueue_heartbeat_if_empty :: "int \<Rightarrow> db \<Rightarrow> (db_error + nat) \<times> db" where
  "q_enqueue_heartbeat_if_empty p = sql (\<lambda>d.
     if \<exists>r \<in> set (inbox d). source r = ''heartbeat'' then (0, d)
     else (1, d\<lparr>inbox := inbox d @ [\<lparr>row_id = Suc (inbox_seq d), priority = p,
                    source = ''heartbeat'', content = [], reply_to = []\<rparr>],
              inbox_seq := Suc (inbox_seq d)\<rparr>))"

text \<open>
  \<open>datetime()\<close> is SQLite's: a parameter that maps a timestamp text to its normal form, or to
  NULL (\<open>None\<close>) when it is not one. A comparison with NULL selects no row.
\<close>

definition is_due :: "(string \<Rightarrow> string option) \<Rightarrow> string \<Rightarrow> reminder_row \<Rightarrow> bool" where
  "is_due datetime now r =
     (case (datetime (fire_at r), datetime now) of
        (Some a, Some b) \<Rightarrow> a \<le> b
      | _ \<Rightarrow> False)"

definition q_due_reminders ::
  "(string \<Rightarrow> string option) \<Rightarrow> string \<Rightarrow> db \<Rightarrow> (db_error + reminder_row list) \<times> db" where
  "q_due_reminders datetime now = sql (\<lambda>d.
     (filter (is_due datetime now) (reminders d),
      d\<lparr>reminders := filter (\<lambda>r. \<not> is_due datetime now r) (reminders d)\<rparr>))"

definition q_insert_reminder :: "string \<Rightarrow> string \<Rightarrow> db \<Rightarrow> (db_error + unit) \<times> db" where
  "q_insert_reminder f p = sql (\<lambda>d. ((), d\<lparr>
     reminders := reminders d @ [\<lparr>rem_id = Suc (rem_seq d), fire_at = f, rem_prompt = p\<rparr>],
     rem_seq := Suc (rem_seq d)\<rparr>))"

text \<open>
  \<open>sent_messages\<close>: the primary key is the pair of conversation and message; a conflicting
  insert updates the row in place and keeps its rowid.
\<close>

definition sent_key :: "string \<Rightarrow> string \<Rightarrow> sent_row \<Rightarrow> bool" where
  "sent_key c m r \<longleftrightarrow> conv_id r = c \<and> msg_id r = m"

definition next_sent_rowid :: "sent_row list \<Rightarrow> nat" where
  "next_sent_rowid rs = Suc (foldr max (map sent_rowid rs) 0)"

definition q_upsert_outbox :: "string \<Rightarrow> string \<Rightarrow> string \<Rightarrow> db \<Rightarrow> (db_error + unit) \<times> db" where
  "q_upsert_outbox c m t = sql (\<lambda>d. ((), d\<lparr>sent :=
     (if \<exists>r \<in> set (sent d). sent_key c m r
      then map (\<lambda>r. if sent_key c m r then r\<lparr>sent_text := t\<rparr> else r) (sent d)
      else sent d @ [\<lparr>sent_rowid = next_sent_rowid (sent d), conv_id = c, msg_id = m,
                      sent_text = t\<rparr>])\<rparr>))"

definition q_get_outbox :: "string \<Rightarrow> string \<Rightarrow> db \<Rightarrow> (db_error + string) \<times> db" where
  "q_get_outbox c m d =
     (case sql (\<lambda>d. (find (sent_key c m) (sent d), d)) d of
        (Inl e, d') \<Rightarrow> (Inl e, d')
      | (Inr None, d') \<Rightarrow> (Inl NoRows, d')
      | (Inr (Some r), d') \<Rightarrow> (Inr (sent_text r), d'))"

definition q_count_outbox :: "string \<Rightarrow> db \<Rightarrow> (db_error + nat) \<times> db" where
  "q_count_outbox c = sql (\<lambda>d. (length (filter (\<lambda>r. conv_id r = c) (sent d)), d))"

definition oldest_rowids :: "string \<Rightarrow> nat \<Rightarrow> sent_row list \<Rightarrow> nat list" where
  "oldest_rowids c n rs =
     map sent_rowid (take n (sort_key sent_rowid (filter (\<lambda>r. conv_id r = c) rs)))"

definition q_delete_oldest_outbox :: "string \<Rightarrow> nat \<Rightarrow> db \<Rightarrow> (db_error + unit) \<times> db" where
  "q_delete_oldest_outbox c n = sql (\<lambda>d. ((), d\<lparr>sent :=
     filter (\<lambda>r. sent_rowid r \<notin> set (oldest_rowids c n (sent d))) (sent d)\<rparr>))"

section \<open>Sequencing\<close>

text \<open>The next statement runs only after the one before it succeeded.\<close>

definition and_then ::
  "(db_error + 'a) \<times> db \<Rightarrow> ('a \<Rightarrow> db \<Rightarrow> (db_error + 'b) \<times> db) \<Rightarrow> (db_error + 'b) \<times> db" where
  "and_then res f = (case res of (Inl e, d) \<Rightarrow> (Inl e, d) | (Inr a, d) \<Rightarrow> f a d)"

text \<open>
  A transaction: \<open>BeginTx\<close>, the body, \<open>Commit\<close>; a failure of any of them leaves the tables as
  they were before (\<open>Rollback\<close>), only the outcomes are used up.
\<close>

definition rollback :: "db \<Rightarrow> db \<Rightarrow> db" where
  "rollback d d' = d\<lparr>faults := faults d'\<rparr>"

definition in_tx :: "(db \<Rightarrow> (db_error + unit) \<times> db) \<Rightarrow> db \<Rightarrow> db" where
  "in_tx body d =
     (case and_then (and_then (sql (\<lambda>d. ((), d)) d) (\<lambda>_. body)) (\<lambda>_. sql (\<lambda>d. ((), d))) of
        (Inl e, d') \<Rightarrow> rollback d d'
      | (Inr _, d') \<Rightarrow> d')"

text \<open>
  \<open>outcome_is res a d\<close>: if \<open>res\<close> is not an error it is the value \<open>a\<close> in the database \<open>d\<close>, up to
  the outcomes used. It composes along \<open>and_then\<close>, so that a run of several statements is
  described without splitting on which of them fails.
\<close>

definition outcome_is :: "(db_error + 'a) \<times> db \<Rightarrow> 'a \<Rightarrow> db \<Rightarrow> bool" where
  "outcome_is res a d \<longleftrightarrow> (\<forall>b d'. res = (Inr b, d') \<longrightarrow> b = a \<and> d' = d\<lparr>faults := faults d'\<rparr>)"

lemma outcome_is_sql:
  "(\<And>fs. stmt (d\<lparr>faults := fs\<rparr>) = (a, d'\<lparr>faults := fs\<rparr>)) \<Longrightarrow> outcome_is (sql stmt d) a d'"
  by (auto simp: outcome_is_def sql_def split: option.splits prod.splits)

lemma outcome_is_ret: "outcome_is (Inr a, d\<lparr>faults := fs\<rparr>) a d"
  by (auto simp: outcome_is_def)

lemma outcome_is_bind:
  assumes res: "outcome_is res a d" and f: "\<And>fs. outcome_is (f a (d\<lparr>faults := fs\<rparr>)) b d'"
  shows "outcome_is (and_then res f) b d'"
proof (cases res)
  case (Pair r x)
  show ?thesis
  proof (cases r)
    case (Inl e)
    with Pair show ?thesis by (simp add: outcome_is_def and_then_def)
  next
    case (Inr c)
    with Pair res have "c = a" "x = d\<lparr>faults := faults x\<rparr>" by (auto simp: outcome_is_def)
    then show ?thesis using f [of "faults x"] Pair Inr by (simp add: and_then_def)
  qed
qed

lemma in_tx_cases:
  assumes "\<And>fs. outcome_is (body (d\<lparr>faults := fs\<rparr>)) () d'"
  obtains (unchanged) fs where "in_tx body d = d\<lparr>faults := fs\<rparr>"
  | (committed) fs where "in_tx body d = d'\<lparr>faults := fs\<rparr>"
proof -
  define res where
    "res = and_then (and_then (sql (\<lambda>d. ((), d)) d) (\<lambda>_. body)) (\<lambda>_. sql (\<lambda>d. ((), d)))"
  have "outcome_is (and_then (sql (\<lambda>d. ((), d)) d) (\<lambda>_. body)) () d'"
    by (rule outcome_is_bind [where a = "()" and d = d])
       (rule outcome_is_sql, simp, rule assms)
  then have "outcome_is res () d'"
    unfolding res_def
    by (rule outcome_is_bind) (rule outcome_is_sql, simp)
  then show thesis
    by (cases res; cases "fst res")
       (auto simp: in_tx_def res_def [symmetric] rollback_def outcome_is_def
             intro: unchanged committed)
qed

text \<open>A statement fails or runs.\<close>

lemma sql_cases:
  obtains (failed) msg fs where "sql stmt d = (Inl (SqlFailed msg), d\<lparr>faults := fs\<rparr>)"
  | (ran) a d' fs where "next_fault (faults d) = (None, fs)" "stmt (d\<lparr>faults := fs\<rparr>) = (a, d')"
      "sql stmt d = (Inr a, d')"
proof (cases "next_fault (faults d)")
  case (Pair f fs)
  show thesis
  proof (cases f)
    case None
    with Pair show thesis
      by (cases "stmt (d\<lparr>faults := fs\<rparr>)") (rule ran, auto simp: sql_def)
  next
    case (Some msg)
    with Pair show thesis by (intro failed) (simp add: sql_def)
  qed
qed

text \<open>While nothing fails, a statement is its effect.\<close>

lemma sql_faultless: "faults d = [] \<Longrightarrow> sql stmt d = (Inr (fst (stmt d)), snd (stmt d))"
proof -
  assume f: "faults d = []"
  then have "stmt (d\<lparr>faults := []\<rparr>) = stmt d" by (cases d) simp
  with f show ?thesis by (cases "stmt d") (simp add: sql_def)
qed

lemma in_tx_faultless:
  "faults d = [] \<Longrightarrow> body d = (Inr (), d') \<Longrightarrow> faults d' = [] \<Longrightarrow> in_tx body d = d'"
  by (simp add: in_tx_def and_then_def sql_faultless)

end
