(* ===== verification/Inbox.thy ===== *)
theory Inbox
  imports Store "HOL-Library.Multiset"
begin

text \<open>
  The persistent inbox (\<open>inbox.go\<close>): \<open>InboxStore\<close> over the \<open>inbox\<close> table. The contract the
  worker relies on is the locale \<open>job_queue\<close>: taking removes one item with the least key, and
  nothing else; it is interpreted on \<open>dequeue\<close>. The abstract view of the table is the list of
  its rows in the order they will be served, \<open>inbox_view\<close>: \<open>enqueue\<close> is a sorted insertion
  and \<open>dequeue\<close> takes the head.
\<close>

section \<open>Operations\<close>

definition priority_user :: int where "priority_user = 0"
definition priority_trigger :: int where "priority_trigger = 1"
definition priority_heartbeat :: int where "priority_heartbeat = 2"

definition source_user :: string where "source_user = ''user''"
definition source_trigger :: string where "source_trigger = ''trigger''"
definition source_heartbeat :: string where "source_heartbeat = ''heartbeat''"
definition source_compact :: string where "source_compact = ''compact''"

lemmas source_defs = source_user_def source_trigger_def source_heartbeat_def source_compact_def
lemmas priority_defs = priority_user_def priority_trigger_def priority_heartbeat_def

text \<open>An error is returned with its wrapping text, as \<open>fmt.Errorf\<close> builds it.\<close>

definition wrap_err :: "string \<Rightarrow> (db_error + 'a) \<times> db \<Rightarrow> (string + 'a) \<times> db" where
  "wrap_err msg res = (case res of
       (Inl e, d) \<Rightarrow> (Inl (msg @ '': '' @ db_error_text e), d)
     | (Inr a, d) \<Rightarrow> (Inr a, d))"

definition new_inbox_store :: "db \<Rightarrow> (string + unit) \<times> db" where
  "new_inbox_store d = wrap_err ''clearing stale inbox items'' (q_delete_stale_items d)"

definition enqueue :: "int \<Rightarrow> string \<Rightarrow> string \<Rightarrow> string \<Rightarrow> db \<Rightarrow> (string + unit) \<times> db" where
  "enqueue p src cnt rto d = wrap_err ''enqueuing inbox item'' (q_enqueue_inbox p src cnt rto d)"

definition dequeue :: "db \<Rightarrow> (db_error + inbox_row) \<times> db" where
  "dequeue d = q_dequeue_inbox d"

definition requeue :: "inbox_row \<Rightarrow> db \<Rightarrow> (string + unit) \<times> db" where
  "requeue item d =
     (if source item = source_heartbeat then (Inr (), d)
      else wrap_err (''requeueing '' @ source item @ '' item'')
             (q_enqueue_inbox (priority item) (source item) (content item) (reply_to item) d))"

definition dequeue_user_batch :: "db \<Rightarrow> (string + inbox_row list) \<times> db" where
  "dequeue_user_batch d =
     (case q_dequeue_user_items d of
        (Inl e, d') \<Rightarrow> (Inl (''dequeuing user batch: '' @ db_error_text e), d')
      | (Inr items, d') \<Rightarrow> (Inr (sort_key row_id items), d'))"

definition inbox_count :: "db \<Rightarrow> (db_error + nat) \<times> db" where
  "inbox_count d = q_count_inbox d"

definition enqueue_heartbeat :: "db \<Rightarrow> (string + bool) \<times> db" where
  "enqueue_heartbeat d =
     (case wrap_err ''enqueuing heartbeat'' (q_enqueue_heartbeat_if_empty priority_heartbeat d) of
        (Inl e, d') \<Rightarrow> (Inl e, d')
      | (Inr n, d') \<Rightarrow> (Inr (0 < n), d'))"

section \<open>The table invariant\<close>

text \<open>Keys are distinct, never above the sequence counter, and rows stand in key order.\<close>

definition rows_ok :: "inbox_row list \<Rightarrow> nat \<Rightarrow> bool" where
  "rows_ok rs n \<longleftrightarrow> sorted_wrt (<) (map row_id rs) \<and> (\<forall>r \<in> set rs. row_id r \<le> n)"

definition inbox_ok :: "db \<Rightarrow> bool" where
  "inbox_ok d \<longleftrightarrow> rows_ok (inbox d) (inbox_seq d)"

text \<open>The rows in the order in which they will be served.\<close>

definition inbox_view :: "db \<Rightarrow> inbox_row list" where
  "inbox_view d = sort_key inbox_key (inbox d)"

lemmas inbox_sql_defs = sql_def wrap_err_def enqueue_def q_enqueue_inbox_def requeue_def
  dequeue_def q_dequeue_inbox_def dequeue_user_batch_def q_dequeue_user_items_def
  new_inbox_store_def q_delete_stale_items_def inbox_count_def q_count_inbox_def
  enqueue_heartbeat_def q_enqueue_heartbeat_if_empty_def

lemma inbox_ok_distinct: "inbox_ok d \<Longrightarrow> distinct (map row_id (inbox d))"
  by (simp add: inbox_ok_def rows_ok_def strict_sorted_iff)

lemma inbox_key_eq_iff [simp]:
  "inbox_key r = inbox_key r' \<longleftrightarrow> priority r = priority r' \<and> row_id r = row_id r'"
  by (simp add: inbox_key_def)

lemma inbox_key_inj: "inbox_ok d \<Longrightarrow> inj_on inbox_key (set (inbox d))"
  using inbox_ok_distinct by (auto simp: inj_on_def distinct_map)

lemma rows_ok_filter: "rows_ok rs n \<Longrightarrow> rows_ok (filter P rs) n"
  by (induction rs) (auto simp: rows_ok_def)

lemma rows_ok_insert: "rows_ok rs n \<Longrightarrow> row_id r = Suc n \<Longrightarrow> rows_ok (rs @ [r]) (Suc n)"
  by (fastforce simp: rows_ok_def sorted_wrt_append)

text \<open>Every operation keeps the invariant, whether its statement runs or fails.\<close>

lemma enqueue_ok: "inbox_ok d \<Longrightarrow> inbox_ok (snd (enqueue p s c r d))"
  by (cases "next_fault (faults d)")
     (auto simp: inbox_sql_defs inbox_ok_def rows_ok_insert split: option.splits)

lemma requeue_ok: "inbox_ok d \<Longrightarrow> inbox_ok (snd (requeue r d))"
  by (cases "next_fault (faults d)")
     (auto simp: inbox_sql_defs inbox_ok_def rows_ok_insert split: option.splits)

lemma dequeue_ok: "inbox_ok d \<Longrightarrow> inbox_ok (snd (dequeue d))"
  by (cases "next_fault (faults d)")
     (auto simp: inbox_sql_defs delete_row_def inbox_ok_def rows_ok_filter split: option.splits)

lemma dequeue_user_batch_ok: "inbox_ok d \<Longrightarrow> inbox_ok (snd (dequeue_user_batch d))"
  by (cases "next_fault (faults d)")
     (auto simp: inbox_sql_defs inbox_ok_def rows_ok_filter split: option.splits)

lemma enqueue_heartbeat_ok: "inbox_ok d \<Longrightarrow> inbox_ok (snd (enqueue_heartbeat d))"
  by (cases "next_fault (faults d)")
     (auto simp: inbox_sql_defs inbox_ok_def rows_ok_insert split: option.splits)

lemma new_inbox_store_ok: "inbox_ok d \<Longrightarrow> inbox_ok (snd (new_inbox_store d))"
  by (cases "next_fault (faults d)")
     (auto simp: inbox_sql_defs inbox_ok_def rows_ok_filter split: option.splits)

lemmas inbox_ok_intros = enqueue_ok requeue_ok dequeue_ok dequeue_user_batch_ok
  enqueue_heartbeat_ok new_inbox_store_ok

section \<open>Service order\<close>

lemma inbox_min_view: "inbox_min (inbox d) = (case inbox_view d of [] \<Rightarrow> None | r # _ \<Rightarrow> Some r)"
  by (simp add: inbox_min_def inbox_view_def)

lemma inbox_view_set [simp]: "set (inbox_view d) = set (inbox d)"
  by (simp add: inbox_view_def)

lemma inbox_min_in: "inbox_min rs = Some r \<Longrightarrow> r \<in> set rs"
  by (metis inbox_min_def list.case_eq_if hd_sort_key_in option.distinct(1) option.inject
      sort_key_Nil_iff)

lemma inbox_min_least: "inbox_min rs = Some r \<Longrightarrow> x \<in> set rs \<Longrightarrow> inbox_key r \<le> inbox_key x"
  using hd_sort_key_le [of x rs inbox_key]
  by (auto simp: inbox_min_def split: list.splits)

lemma inbox_min_None [simp]: "inbox_min rs = None \<longleftrightarrow> rs = []"
  by (auto simp: inbox_min_def split: list.splits)

lemma inbox_min_Nil [simp]: "inbox_min [] = None"
  by simp

lemma inbox_view_ids: "inbox_ok d \<Longrightarrow> distinct (map row_id (inbox_view d))"
  using inbox_ok_distinct
  by (metis inbox_view_def distinct_map distinct_sort set_sort)

lemma inbox_view_delete:
  assumes "inbox_ok d" "inbox_view d = r # rs"
  shows "sort_key inbox_key (delete_row (row_id r) (inbox d)) = rs"
proof -
  have "row_id r \<notin> row_id ` set rs"
    using inbox_view_ids [OF assms(1)] assms(2) by simp
  then have "\<forall>x \<in> set rs. row_id x \<noteq> row_id r"
    by (metis imageI)
  then have "delete_row (row_id r) (r # rs) = rs"
    by (simp add: delete_row_def filter_id_conv)
  then show ?thesis
    using assms(2) by (simp add: delete_row_def filter_sort [symmetric] inbox_view_def)
qed

lemma inbox_view_append:
  assumes "rows_ok rs n" "row_id r = Suc n"
  shows "sort_key inbox_key (rs @ [r]) = insort_key inbox_key r (sort_key inbox_key rs)"
proof -
  have "distinct (map row_id (rs @ [r]))"
    using rows_ok_insert [OF assms] by (simp add: rows_ok_def strict_sorted_iff)
  then have "inj_on row_id (set (rs @ [r]))"
    unfolding distinct_map by (rule conjunct2)
  then have inj: "inj_on inbox_key (set (rs @ [r]))"
    by (auto simp: inj_on_def)
  show ?thesis
  proof (rule sort_key_inj_key_eq [OF _ inj])
    show "mset (rs @ [r]) = mset (insort_key inbox_key r (sort_key inbox_key rs))" by simp
    show "sorted (map inbox_key (insort_key inbox_key r (sort_key inbox_key rs)))"
      by (simp add: sorted_insort_key)
  qed
qed

section \<open>The contract of a job queue\<close>

text \<open>Taking items one by one, at most \<open>n\<close> of them.\<close>

fun take_n :: "('q \<Rightarrow> ('e \<times> 'q) option) \<Rightarrow> nat \<Rightarrow> 'q \<Rightarrow> 'e list \<times> 'q" where
  "take_n tk 0 q = ([], q)"
| "take_n tk (Suc n) q =
     (case tk q of
        None \<Rightarrow> ([], q)
      | Some (e, q') \<Rightarrow> (case take_n tk n q' of (es, q'') \<Rightarrow> (e # es, q'')))"

locale job_queue =
  fixes take_job :: "'q \<Rightarrow> ('e \<times> 'q) option"
    and jobs :: "'q \<Rightarrow> 'e list"
    and job_key :: "'e \<Rightarrow> 'k::linorder"
    and queue_ok :: "'q \<Rightarrow> bool"
  assumes take_empty: "queue_ok q \<Longrightarrow> take_job q = None \<longleftrightarrow> jobs q = []"
    and take_head: "queue_ok q \<Longrightarrow> take_job q = Some (e, q') \<Longrightarrow> jobs q = e # jobs q'"
    and take_keeps: "queue_ok q \<Longrightarrow> take_job q = Some (e, q') \<Longrightarrow> queue_ok q'"
    and jobs_sorted: "queue_ok q \<Longrightarrow> sorted (map job_key (jobs q))"
begin

lemma drain_all:
  "queue_ok q \<Longrightarrow> length (jobs q) \<le> n \<Longrightarrow>
   fst (take_n take_job n q) = jobs q \<and> jobs (snd (take_n take_job n q)) = []"
proof (induction n arbitrary: q)
  case 0
  then show ?case by simp
next
  case (Suc n)
  show ?case
  proof (cases "take_job q")
    case None
    with Suc.prems(1) take_empty [of q] show ?thesis by simp
  next
    case (Some eq)
    obtain e q' where eq: "eq = (e, q')" by (cases eq)
    with Some Suc.prems have "jobs q = e # jobs q'" "queue_ok q'"
      using take_head take_keeps by blast+
    with Suc.IH [of q'] Suc.prems Some eq show ?thesis
      by (auto split: prod.splits)
  qed
qed

lemma head_least:
  assumes "queue_ok q" "take_job q = Some (e, q')" "x \<in> set (jobs q)"
  shows "job_key e \<le> job_key x"
  using jobs_sorted [OF assms(1)] take_head [OF assms(1,2)] assms(3) by auto

end

text \<open>\<open>dequeue\<close> while no statement fails, as the taking operation of a queue.\<close>

definition take_row :: "db \<Rightarrow> (inbox_row \<times> db) option" where
  "take_row d = (case dequeue d of (Inl e, d') \<Rightarrow> None | (Inr r, d') \<Rightarrow> Some (r, d'))"

lemma dequeue_faultless:
  "faults d = [] \<Longrightarrow> dequeue d =
     (case inbox_min (inbox d) of
        None \<Rightarrow> (Inl NoRows, d)
      | Some r \<Rightarrow> (Inr r, d\<lparr>inbox := delete_row (row_id r) (inbox d)\<rparr>))"
  by (auto simp: inbox_sql_defs split: option.splits)

interpretation inbox_q: job_queue take_row inbox_view inbox_key "\<lambda>d. inbox_ok d \<and> faults d = []"
proof
  fix q :: db and e q'
  assume ok: "inbox_ok q \<and> faults q = []"
  show "take_row q = None \<longleftrightarrow> inbox_view q = []"
    using ok by (auto simp: take_row_def dequeue_faultless inbox_view_def split: option.splits)
  show "sorted (map inbox_key (inbox_view q))"
    by (simp add: inbox_view_def)
  assume t: "take_row q = Some (e, q')"
  with ok have m: "inbox_min (inbox q) = Some e"
    and q': "q' = q\<lparr>inbox := delete_row (row_id e) (inbox q)\<rparr>"
    by (auto simp: take_row_def dequeue_faultless split: option.splits)
  from m obtain rs where v: "inbox_view q = e # rs"
    by (auto simp: inbox_min_view split: list.splits)
  with ok q' show "inbox_view q = e # inbox_view q'"
    using inbox_view_delete [of q e rs] by (auto simp: inbox_view_def)
  show "inbox_ok q' \<and> faults q' = []"
    using ok q' by (simp add: inbox_ok_def delete_row_def rows_ok_filter)
qed

text \<open>Two facts about runs of the real operations, for any outcome of the statements.\<close>

lemma enqueue_run:
  "next_fault (faults d) = (None, fs) \<Longrightarrow> enqueue p s c r d = (Inr (), d\<lparr>faults := fs,
     inbox := inbox d @ [\<lparr>row_id = Suc (inbox_seq d), priority = p, source = s,
                          content = c, reply_to = r\<rparr>],
     inbox_seq := Suc (inbox_seq d)\<rparr>)"
  by (simp add: inbox_sql_defs)

lemma enqueue_fail:
  "next_fault (faults d) = (Some m, fs) \<Longrightarrow>
   enqueue p s c r d = (Inl (''enqueuing inbox item: '' @ m), d\<lparr>faults := fs\<rparr>)"
  by (simp add: inbox_sql_defs)

lemma dequeue_cases:
  obtains (err) e fs where "dequeue d = (Inl (SqlFailed e), d\<lparr>faults := fs\<rparr>)"
  | (none) fs where "dequeue d = (Inl NoRows, d\<lparr>faults := fs\<rparr>)" "inbox d = []"
  | (row) r fs where "inbox_min (inbox d) = Some r"
      "dequeue d = (Inr r, d\<lparr>faults := fs, inbox := delete_row (row_id r) (inbox d)\<rparr>)"
proof (cases "next_fault (faults d)")
  case (Pair f fs)
  show thesis
  proof (cases f)
    case (Some m)
    with Pair show thesis by (intro err) (simp add: inbox_sql_defs)
  next
    case None
    show thesis
    proof (cases "inbox_min (inbox d)")
      case m: None
      with Pair None show thesis by (intro none) (simp_all add: inbox_sql_defs)
    next
      case (Some r)
      with Pair None show thesis by (intro row) (simp_all add: inbox_sql_defs)
    qed
  qed
qed

lemma dequeue_shrinks:
  "dequeue d = (Inr r, d') \<Longrightarrow> length (inbox d') < length (inbox d)"
  by (cases d rule: dequeue_cases)
     (auto simp: delete_row_def dest!: inbox_min_in intro!: length_filter_less)

lemma requeue_length: "length (inbox (snd (requeue r d))) \<le> Suc (length (inbox d))"
  by (cases "next_fault (faults d)") (auto simp: inbox_sql_defs split: option.splits)

lemma dequeue_user_batch_length: "length (inbox (snd (dequeue_user_batch d))) \<le> length (inbox d)"
  by (cases "next_fault (faults d)") (auto simp: inbox_sql_defs split: option.splits)

text \<open>
  The batch is sorted in the code since SQLite returns deleted rows in no fixed order; the
  order in which the model's statement returns them does not matter.
\<close>

lemma batch_order_irrelevant:
  assumes "rows_ok rs n" "mset xs = mset (filter P rs)"
  shows "sort_key row_id xs = filter P rs"
proof (rule sort_key_inj_key_eq)
  have ok: "rows_ok (filter P rs) n" using assms(1) by (rule rows_ok_filter)
  then have "distinct (map row_id (filter P rs))"
    by (simp add: rows_ok_def strict_sorted_iff)
  moreover have "set xs = set (filter P rs)" using assms(2) by (rule mset_eq_setD)
  ultimately show "inj_on row_id (set xs)" by (simp add: distinct_map)
  show "sorted (map row_id (filter P rs))"
    using ok by (simp add: rows_ok_def strict_sorted_iff)
qed (fact assms(2))

section \<open>Properties\<close>

text \<open>
  C13. Taking the inbox empty with \<open>Dequeue\<close>, while no statement fails, delivers every pending
  row exactly once, in the order of priority and, within a priority, of insertion.
\<close>

theorem inbox_drains_in_order:
  assumes "inbox_ok d" "faults d = []"
  shows "fst (take_n take_row (length (inbox d)) d) = sort_key inbox_key (inbox d) \<and>
    inbox (snd (take_n take_row (length (inbox d)) d)) = []"
proof -
  have "length (inbox_view d) \<le> length (inbox d)" by (simp add: inbox_view_def)
  with assms inbox_q.drain_all [of d "length (inbox d)"] show ?thesis
    by (simp add: inbox_view_def)
qed

definition sample_db :: db where
  "sample_db = \<lparr>inbox =
     [\<lparr>row_id = 1, priority = 1, source = ''trigger'', content = ''disk full'', reply_to = []\<rparr>,
      \<lparr>row_id = 2, priority = 0, source = ''user'', content = ''hi'', reply_to = []\<rparr>,
      \<lparr>row_id = 4, priority = 0, source = ''user'', content = ''again'', reply_to = []\<rparr>],
     inbox_seq = 4, reminders = [], rem_seq = 0, sent = [], faults = []\<rparr>"

theorem inbox_drains_in_order_witness:
  "map row_id (fst (take_n take_row 3 sample_db)) = [2, 4, 1]"
proof -
  have "inbox_ok sample_db" "faults sample_db = []" "length (inbox sample_db) = 3"
    by (simp_all add: sample_db_def inbox_ok_def rows_ok_def)
  then have "fst (take_n take_row 3 sample_db) = sort_key inbox_key (inbox sample_db)"
    using inbox_drains_in_order [of sample_db] by simp
  then show ?thesis by (simp add: sample_db_def inbox_key_def)
qed

text \<open>
  C14. \<open>Enqueue\<close> refines insertion into the served order: a new row takes its place by priority,
  behind every row of its own priority, and a failing insert changes nothing.
\<close>

theorem enqueue_refines_insertion:
  assumes "inbox_ok d"
  shows "case enqueue p s c r d of
      (Inl e, d') \<Rightarrow> inbox_view d' = inbox_view d
    | (Inr _, d') \<Rightarrow> \<exists>x. priority x = p \<and> source x = s \<and> content x = c \<and> reply_to x = r \<and>
        (\<forall>y \<in> set (inbox d). row_id y < row_id x) \<and>
        inbox_view d' = insort_key inbox_key x (inbox_view d)"
proof (cases "next_fault (faults d)")
  case (Pair f fs)
  show ?thesis
  proof (cases f)
    case None
    let ?x = "\<lparr>row_id = Suc (inbox_seq d), priority = p, source = s, content = c, reply_to = r\<rparr>"
    have "sort_key inbox_key (inbox d @ [?x]) = insort_key inbox_key ?x (sort_key inbox_key (inbox d))"
      using assms by (intro inbox_view_append) (auto simp: inbox_ok_def)
    moreover have "\<forall>y \<in> set (inbox d). row_id y < row_id ?x"
      using assms by (auto simp: inbox_ok_def rows_ok_def less_Suc_eq_le)
    ultimately show ?thesis
      using Pair None by (auto simp: enqueue_run inbox_view_def intro!: exI [of _ ?x])
  next
    case (Some m)
    with Pair show ?thesis by (simp add: enqueue_fail inbox_view_def)
  qed
qed

theorem enqueue_refines_insertion_witness:
  "inbox_ok sample_db \<and> (\<exists>x. content x = ''new'' \<and>
     inbox_view (snd (enqueue 0 ''user'' ''new'' [] sample_db)) = insort_key inbox_key x (inbox_view sample_db))"
proof -
  have ok: "inbox_ok sample_db" by (simp add: sample_db_def inbox_ok_def rows_ok_def)
  have "next_fault (faults sample_db) = (None, [])" by (simp add: sample_db_def)
  from enqueue_run [OF this] enqueue_refines_insertion [OF ok, of 0 "''user''" "''new''" "[]"]
  show ?thesis using ok by auto
qed

end
