(* ===== verification/Outbox.thy ===== *)
theory Outbox
  imports Store
begin

text \<open>
  The bounded store of outgoing message texts (\<open>outbox.go\<close>): \<open>outboxStore.Put\<close>, one
  transaction of an upsert, a count and an eviction, and \<open>outboxStore.Get\<close>. The abstract view
  of a conversation is its list of pairs of message and text, oldest first, of which \<open>log_put\<close>
  keeps the newest \<open>max_outbox\<close>; \<open>outbox_put\<close> refines it.
\<close>

section \<open>Operations\<close>

definition max_outbox :: nat where "max_outbox = 500"

definition outbox_put :: "string \<Rightarrow> string \<Rightarrow> string \<Rightarrow> db \<Rightarrow> db" where
  "outbox_put conv mid text d =
     (if mid = [] then d
      else in_tx (\<lambda>d0.
        and_then (q_upsert_outbox conv mid text d0) (\<lambda>_ d1.
        and_then (q_count_outbox conv d1) (\<lambda>cnt d2.
          if max_outbox < cnt then q_delete_oldest_outbox conv (cnt - max_outbox) d2
          else (Inr (), d2)))) d)"

text \<open>An unknown message and every error read as the empty text.\<close>

definition outbox_get :: "string \<Rightarrow> string \<Rightarrow> db \<Rightarrow> string \<times> db" where
  "outbox_get conv mid d =
     (if mid = [] then ([], d)
      else case q_get_outbox conv mid d of
        (Inl e, d') \<Rightarrow> ([], d')
      | (Inr text, d') \<Rightarrow> (text, d'))"

section \<open>The abstract view\<close>

definition conv_rows :: "string \<Rightarrow> db \<Rightarrow> sent_row list" where
  "conv_rows c d = filter (\<lambda>r. conv_id r = c) (sent d)"

definition conv_view :: "string \<Rightarrow> db \<Rightarrow> (string \<times> string) list" where
  "conv_view c d = map (\<lambda>r. (msg_id r, sent_text r)) (conv_rows c d)"

definition log_put :: "nat \<Rightarrow> 'k \<Rightarrow> 'v \<Rightarrow> ('k \<times> 'v) list \<Rightarrow> ('k \<times> 'v) list" where
  "log_put n k v xs =
     (let ys = (if k \<in> fst ` set xs then map (\<lambda>(k', v'). if k' = k then (k, v) else (k', v')) xs
                else xs @ [(k, v)])
      in drop (length ys - n) ys)"

text \<open>Rowids grow along the table and the primary key is unique.\<close>

definition sent_ok :: "db \<Rightarrow> bool" where
  "sent_ok d \<longleftrightarrow> sorted_wrt (<) (map sent_rowid (sent d)) \<and>
     distinct (map (\<lambda>r. (conv_id r, msg_id r)) (sent d))"

lemma foldr_max_ge: "x \<in> set xs \<Longrightarrow> (x::nat) \<le> foldr max xs 0"
  by (induction xs) auto

lemma next_sent_rowid_above: "r \<in> set rs \<Longrightarrow> sent_rowid r < next_sent_rowid rs"
  by (auto simp: next_sent_rowid_def less_Suc_eq_le intro: foldr_max_ge)

lemma filter_notin_take:
  "distinct (map f xs) \<Longrightarrow> filter (\<lambda>x. f x \<notin> f ` set (take n xs)) xs = drop n xs"
proof (induction n arbitrary: xs)
  case (Suc n)
  then show ?case
  proof (cases xs)
    case (Cons x ys)
    then have "filter (\<lambda>y. f y \<notin> f ` set (take (Suc n) xs)) xs =
        filter (\<lambda>y. f y \<notin> f ` set (take n ys)) ys"
      using Suc.prems by (auto intro!: filter_cong simp: image_iff)
    with Suc Cons show ?thesis by simp
  qed simp
qed simp

text \<open>The three statements on the view.\<close>

definition upserted :: "string \<Rightarrow> string \<Rightarrow> string \<Rightarrow> sent_row list \<Rightarrow> sent_row list" where
  "upserted c m t rs =
     (if \<exists>r \<in> set rs. sent_key c m r
      then map (\<lambda>r. if sent_key c m r then r\<lparr>sent_text := t\<rparr> else r) rs
      else rs @ [\<lparr>sent_rowid = next_sent_rowid rs, conv_id = c, msg_id = m, sent_text = t\<rparr>])"

definition evicted :: "string \<Rightarrow> nat \<Rightarrow> sent_row list \<Rightarrow> sent_row list" where
  "evicted c n rs = filter (\<lambda>r. sent_rowid r \<notin> set (oldest_rowids c n rs)) rs"

text \<open>The rows a \<open>Put\<close> leaves when no statement fails.\<close>

definition put_rows :: "string \<Rightarrow> string \<Rightarrow> string \<Rightarrow> sent_row list \<Rightarrow> sent_row list" where
  "put_rows c m t rs =
     (let us = upserted c m t rs; n = length (filter (\<lambda>r. conv_id r = c) us)
      in if max_outbox < n then evicted c (n - max_outbox) us else us)"

text \<open>Whatever fails, a \<open>Put\<close> either leaves the table alone or does all of its work.\<close>

lemma outbox_put_cases:
  obtains (unchanged) fs where "outbox_put c m t d = d\<lparr>faults := fs\<rparr>"
  | (stored) fs where "m \<noteq> []"
      "outbox_put c m t d = d\<lparr>sent := put_rows c m t (sent d), faults := fs\<rparr>"
proof (cases "m = []")
  case True
  then have "outbox_put c m t d = d\<lparr>faults := faults d\<rparr>" by (simp add: outbox_put_def)
  then show thesis by (rule unchanged)
next
  case m: False
  define us where "us = upserted c m t (sent d)"
  define n where "n = length (filter (\<lambda>r. conv_id r = c) us)"
  let ?d1 = "d\<lparr>sent := us\<rparr>" and ?d2 = "d\<lparr>sent := put_rows c m t (sent d)\<rparr>"
  have up: "outcome_is (q_upsert_outbox c m t (d\<lparr>faults := fs\<rparr>)) () ?d1" for fs
    unfolding q_upsert_outbox_def by (rule outcome_is_sql) (simp add: us_def upserted_def)
  have ct: "outcome_is (q_count_outbox c (?d1\<lparr>faults := fs\<rparr>)) n ?d1" for fs
    unfolding q_count_outbox_def by (rule outcome_is_sql) (simp add: n_def)
  have ev: "outcome_is (if max_outbox < n
      then q_delete_oldest_outbox c (n - max_outbox) (?d1\<lparr>faults := fs\<rparr>)
      else (Inr (), ?d1\<lparr>faults := fs\<rparr>)) () ?d2" for fs
  proof (cases "max_outbox < n")
    case True
    then have "put_rows c m t (sent d) = evicted c (n - max_outbox) us"
      by (simp add: put_rows_def us_def [symmetric] n_def [symmetric] Let_def)
    with True show ?thesis
      unfolding q_delete_oldest_outbox_def by (auto intro!: outcome_is_sql simp: evicted_def)
  next
    case False
    then have "put_rows c m t (sent d) = us"
      by (simp add: put_rows_def us_def [symmetric] n_def [symmetric] Let_def)
    with False show ?thesis by (simp add: outcome_is_ret)
  qed
  let ?body = "\<lambda>d0. and_then (q_upsert_outbox c m t d0) (\<lambda>_ d1.
    and_then (q_count_outbox c d1) (\<lambda>cnt d2.
      if max_outbox < cnt then q_delete_oldest_outbox c (cnt - max_outbox) d2 else (Inr (), d2)))"
  have "outcome_is (?body (d\<lparr>faults := fs\<rparr>)) () ?d2" for fs
    by (rule outcome_is_bind [where a = "()" and d = ?d1], rule up,
        rule outcome_is_bind [where a = n and d = ?d1], rule ct, rule ev)
  then show thesis
  proof (cases rule: in_tx_cases [where body = ?body and d = d])
    case (unchanged fs)
    with m show thesis by (intro that(1)) (simp add: outbox_put_def)
  next
    case (committed fs)
    with m show thesis by (intro that(2)) (simp_all add: outbox_put_def)
  qed
qed

lemma outbox_put_faultless:
  assumes f: "faults d = []" and m: "m \<noteq> []"
  shows "outbox_put c m t d = d\<lparr>sent := put_rows c m t (sent d)\<rparr>"
proof -
  define us where "us = upserted c m t (sent d)"
  define n where "n = length (filter (\<lambda>r. conv_id r = c) us)"
  have up: "q_upsert_outbox c m t d = (Inr (), d\<lparr>sent := us\<rparr>)"
    using f by (simp add: q_upsert_outbox_def sql_faultless us_def upserted_def)
  have ct: "q_count_outbox c (d\<lparr>sent := us\<rparr>) = (Inr n, d\<lparr>sent := us\<rparr>)"
    using f by (simp add: q_count_outbox_def sql_faultless n_def)
  have ev: "q_delete_oldest_outbox c k (d\<lparr>sent := us\<rparr>) = (Inr (), d\<lparr>sent := evicted c k us\<rparr>)" for k
    using f by (simp add: q_delete_oldest_outbox_def sql_faultless evicted_def)
  have "put_rows c m t (sent d) = (if max_outbox < n then evicted c (n - max_outbox) us else us)"
    by (simp add: put_rows_def us_def [symmetric] n_def [symmetric] Let_def)
  then show ?thesis
    using f m by (simp add: outbox_put_def in_tx_faultless and_then_def up ct ev)
qed

lemma outbox_put_frame [frame_simps]:
  "inbox (outbox_put c m t d) = inbox d" "inbox_seq (outbox_put c m t d) = inbox_seq d"
  "reminders (outbox_put c m t d) = reminders d" "rem_seq (outbox_put c m t d) = rem_seq d"
  by (cases rule: outbox_put_cases [of c m t d]; simp)+

section \<open>The view of one conversation\<close>

definition rows_view :: "string \<Rightarrow> sent_row list \<Rightarrow> (string \<times> string) list" where
  "rows_view c rs = map (\<lambda>r. (msg_id r, sent_text r)) (filter (\<lambda>r. conv_id r = c) rs)"

definition sent_rows_ok :: "sent_row list \<Rightarrow> bool" where
  "sent_rows_ok rs \<longleftrightarrow> sorted_wrt (<) (map sent_rowid rs) \<and>
     distinct (map (\<lambda>r. (conv_id r, msg_id r)) rs)"

lemma conv_view_rows: "conv_view c d = rows_view c (sent d)"
  by (simp add: conv_view_def rows_view_def conv_rows_def)

lemma sent_ok_rows: "sent_ok d = sent_rows_ok (sent d)"
  by (simp add: sent_ok_def sent_rows_ok_def)

lemma upserted_view:
  "rows_view c (upserted c m t rs) =
     (if m \<in> fst ` set (rows_view c rs)
      then map (\<lambda>(k, v). if k = m then (m, t) else (k, v)) (rows_view c rs)
      else rows_view c rs @ [(m, t)])"
proof -
  have mem: "m \<in> fst ` set (rows_view c rs) \<longleftrightarrow> (\<exists>r \<in> set rs. sent_key c m r)"
    by (force simp: rows_view_def sent_key_def)
  have upd: "rows_view c (map (\<lambda>r. if sent_key c m r then r\<lparr>sent_text := t\<rparr> else r) rs) =
      map (\<lambda>(k, v). if k = m then (m, t) else (k, v)) (rows_view c rs)"
    by (induction rs) (auto simp: rows_view_def sent_key_def)
  show ?thesis unfolding mem upserted_def using upd
    by (simp add: rows_view_def)
qed

lemma upserted_other:
  assumes "c' \<noteq> c"
  shows "rows_view c' (upserted c m t rs) = rows_view c' rs"
proof -
  have "rows_view c' (map (\<lambda>r. if sent_key c m r then r\<lparr>sent_text := t\<rparr> else r) rs) = rows_view c' rs"
    using assms by (induction rs) (auto simp: rows_view_def sent_key_def)
  with assms show ?thesis by (simp add: upserted_def rows_view_def)
qed

lemma upserted_rowids:
  "map sent_rowid (upserted c m t rs) =
     (if \<exists>r \<in> set rs. sent_key c m r then map sent_rowid rs
      else map sent_rowid rs @ [next_sent_rowid rs])"
  by (simp add: upserted_def)

lemma upserted_ok: "sent_rows_ok rs \<Longrightarrow> sent_rows_ok (upserted c m t rs)"
proof -
  assume ok: "sent_rows_ok rs"
  have "map (\<lambda>r. (conv_id r, msg_id r)) (upserted c m t rs) =
      (if \<exists>r \<in> set rs. sent_key c m r then map (\<lambda>r. (conv_id r, msg_id r)) rs
       else map (\<lambda>r. (conv_id r, msg_id r)) rs @ [(c, m)])"
    by (simp add: upserted_def)
  then have "distinct (map (\<lambda>r. (conv_id r, msg_id r)) (upserted c m t rs))"
    using ok by (auto simp: sent_rows_ok_def sent_key_def)
  moreover have "sorted_wrt (<) (map sent_rowid (upserted c m t rs))"
    using ok next_sent_rowid_above [of _ rs]
    by (auto simp: upserted_rowids sent_rows_ok_def sorted_wrt_append)
  ultimately show ?thesis by (simp add: sent_rows_ok_def)
qed

lemma sent_rows_filter: "sent_rows_ok rs \<Longrightarrow> sent_rows_ok (filter P rs)"
  by (induction rs) (auto simp: sent_rows_ok_def)

lemma evicted_ok: "sent_rows_ok rs \<Longrightarrow> sent_rows_ok (evicted c n rs)"
  by (simp add: evicted_def sent_rows_filter)

lemma oldest_rowids_sorted:
  "sent_rows_ok rs \<Longrightarrow>
   oldest_rowids c n rs = map sent_rowid (take n (filter (\<lambda>r. conv_id r = c) rs))"
  using sent_rows_filter [of rs "\<lambda>r. conv_id r = c"]
  by (simp add: oldest_rowids_def sort_key_id_if_sorted sent_rows_ok_def strict_sorted_iff)

text \<open>Eviction drops the oldest rows of its conversation, and no row of another one.\<close>

lemma evicted_view:
  assumes "sent_rows_ok rs"
  shows "rows_view c (evicted c n rs) = drop n (rows_view c rs)"
proof -
  let ?cs = "filter (\<lambda>r. conv_id r = c) rs"
  have "distinct (map sent_rowid ?cs)"
    using sent_rows_filter [OF assms] by (simp add: sent_rows_ok_def strict_sorted_iff)
  then have "filter (\<lambda>r. sent_rowid r \<notin> sent_rowid ` set (take n ?cs)) ?cs = drop n ?cs"
    by (rule filter_notin_take)
  moreover have "filter (\<lambda>r. conv_id r = c) (evicted c n rs) =
      filter (\<lambda>r. sent_rowid r \<notin> sent_rowid ` set (take n ?cs)) ?cs"
    by (simp add: evicted_def oldest_rowids_sorted [OF assms] conj_commute)
  ultimately show ?thesis by (simp add: rows_view_def drop_map)
qed

lemma evicted_other:
  assumes ok: "sent_rows_ok rs" and ne: "c' \<noteq> c"
  shows "rows_view c' (evicted c n rs) = rows_view c' rs"
proof -
  have inj: "inj_on sent_rowid (set rs)"
    using ok by (simp add: sent_rows_ok_def strict_sorted_iff distinct_map)
  have "sent_rowid r \<notin> set (oldest_rowids c n rs)" if r: "r \<in> set rs" "conv_id r = c'" for r
  proof
    assume "sent_rowid r \<in> set (oldest_rowids c n rs)"
    then obtain x where "x \<in> set rs" "conv_id x = c" "sent_rowid r = sent_rowid x"
      unfolding oldest_rowids_sorted [OF ok] by (auto dest!: in_set_takeD)
    with r inj ne show False by (metis inj_onD)
  qed
  then have "filter (\<lambda>r. conv_id r = c') (evicted c n rs) = filter (\<lambda>r. conv_id r = c') rs"
    by (auto simp: evicted_def intro!: filter_cong)
  then show ?thesis by (simp add: rows_view_def)
qed

lemma put_rows_ok: "sent_rows_ok rs \<Longrightarrow> sent_rows_ok (put_rows c m t rs)"
  by (simp add: put_rows_def Let_def upserted_ok evicted_ok)

lemma put_rows_view:
  assumes "sent_rows_ok rs"
  shows "rows_view c (put_rows c m t rs) = log_put max_outbox m t (rows_view c rs)"
proof -
  define us where "us = upserted c m t rs"
  define n where "n = length (filter (\<lambda>r. conv_id r = c) us)"
  have n: "n = length (rows_view c us)" by (simp add: rows_view_def n_def)
  have "rows_view c (evicted c k us) = drop k (rows_view c us)" for k
    unfolding us_def by (rule evicted_view [OF upserted_ok [OF assms]])
  then have "rows_view c (put_rows c m t rs) = drop (n - max_outbox) (rows_view c us)"
    by (simp add: put_rows_def us_def [symmetric] n_def [symmetric] Let_def)
  then have "rows_view c (put_rows c m t rs) =
      drop (length (rows_view c us) - max_outbox) (rows_view c us)" by (simp only: n)
  then show ?thesis by (simp add: us_def upserted_view log_put_def Let_def)
qed

lemma put_rows_other:
  "sent_rows_ok rs \<Longrightarrow> c' \<noteq> c \<Longrightarrow> rows_view c' (put_rows c m t rs) = rows_view c' rs"
  by (simp add: put_rows_def Let_def upserted_other evicted_other upserted_ok)

lemma log_put_length: "length (log_put n k v xs) \<le> n"
  by (simp add: log_put_def Let_def)

lemma outbox_put_ok: "sent_ok d \<Longrightarrow> sent_ok (outbox_put c m t d)"
  by (cases rule: outbox_put_cases [of c m t d]) (simp_all add: sent_ok_rows put_rows_ok)

section \<open>Properties\<close>

text \<open>
  C23. Without a failing statement, \<open>Put\<close> on a conversation is the bounded log \<open>log_put\<close>: a known
  message is overwritten in place, a new one is appended, and only the newest 500 entries stay.
\<close>

theorem outbox_put_refines_log:
  assumes "sent_ok d" "faults d = []" "m \<noteq> []"
  shows "conv_view c (outbox_put c m t d) = log_put max_outbox m t (conv_view c d)"
  using assms by (simp add: outbox_put_faultless conv_view_rows put_rows_view sent_ok_rows)

theorem outbox_put_refines_log_witness:
  "conv_view ''room'' (outbox_put ''room'' ''m1'' ''new''
     \<lparr>inbox = [], inbox_seq = 0, reminders = [], rem_seq = 0,
      sent = [\<lparr>sent_rowid = 1, conv_id = ''room'', msg_id = ''m1'', sent_text = ''old''\<rparr>],
      faults = []\<rparr>) = [(''m1'', ''new'')]"
  by (subst outbox_put_refines_log)
     (simp_all add: sent_ok_def conv_view_def conv_rows_def log_put_def max_outbox_def)

text \<open>
  C24. Whatever statement of the transaction fails, \<open>Put\<close> keeps every conversation within 500
  entries, keeps the table well-formed, and leaves every other conversation as it is.
\<close>

theorem outbox_put_bounded:
  assumes "sent_ok d" "\<forall>c. length (conv_view c d) \<le> max_outbox"
  shows "sent_ok (outbox_put c m t d) \<and>
    (\<forall>c'. length (conv_view c' (outbox_put c m t d)) \<le> max_outbox) \<and>
    (\<forall>c'. c' \<noteq> c \<longrightarrow> conv_view c' (outbox_put c m t d) = conv_view c' d)"
proof -
  have other: "\<forall>c'. c' \<noteq> c \<longrightarrow> conv_view c' (outbox_put c m t d) = conv_view c' d"
    using assms(1)
    by (cases rule: outbox_put_cases [of c m t d])
       (simp_all add: conv_view_rows sent_ok_rows put_rows_other)
  have "length (conv_view c (outbox_put c m t d)) \<le> max_outbox"
    using assms
    by (cases rule: outbox_put_cases [of c m t d])
       (simp_all add: conv_view_rows sent_ok_rows put_rows_view log_put_length)
  with other assms show ?thesis by (metis outbox_put_ok)
qed

theorem outbox_put_bounded_witness:
  "length (conv_view ''a'' (outbox_put ''a'' ''m'' ''t''
     \<lparr>inbox = [], inbox_seq = 0, reminders = [], rem_seq = 0, sent = [],
      faults = [None, Some ''locked'']\<rparr>)) \<le> max_outbox"
  using outbox_put_bounded [of "\<lparr>inbox = [], inbox_seq = 0, reminders = [], rem_seq = 0,
      sent = [], faults = [None, Some ''locked'']\<rparr>" "''a''" "''m''" "''t''"]
  by (simp add: sent_ok_def conv_view_def conv_rows_def)

end
