(* ===== verification/Backend_Util.thy ===== *)
theory Backend_Util
  imports Prelude
begin

text \<open>
  The transport interface's data and the helpers all transports share (\<open>backend/backend.go\<close>,
  \<open>backend/util.go\<close>): the inbound message, the Markdown flavour, the single active
  conversation, the attachment marker and the allow-list.
\<close>

section \<open>Data\<close>

datatype markdown_flavor = MarkdownNone | MarkdownBasic | MarkdownFull

record message =
  conversation_id :: string
  sender_id :: string
  msg_text :: string
  message_id :: string
  reply_to_id :: string

section \<open>The active conversation\<close>

text \<open>
  \<open>ActiveConversation\<close> is the id under its mutex, the empty string when none is active. Each
  operation runs under the mutex and is one step on it.
\<close>

definition claim :: "string \<Rightarrow> string \<Rightarrow> bool \<times> string" where
  "claim cid a =
     (if cid = [] then (False, a)
      else if a = [] then (True, cid)
      else (a = cid, a))"

definition reset_conv :: "string \<Rightarrow> string \<Rightarrow> string" where
  "reset_conv cid a = (if a = cid then [] else a)"

datatype conv_op = Claim string | Reset string

text \<open>A run of operations: the ids whose claim succeeded, in order, and the final state.\<close>

fun conv_run :: "string \<Rightarrow> conv_op list \<Rightarrow> string list \<times> string" where
  "conv_run a [] = ([], a)"
| "conv_run a (Claim c # ops) =
     (case claim c a of (ok, a') \<Rightarrow>
        (case conv_run a' ops of (cs, b) \<Rightarrow> (if ok then c # cs else cs, b)))"
| "conv_run a (Reset c # ops) = conv_run (reset_conv c a) ops"

section \<open>Markers and permissions\<close>

text \<open>\<open>strings.NewReplacer\<close> with one-byte patterns is a map over the bytes.\<close>

definition sanitize_line :: "string \<Rightarrow> string" where
  "sanitize_line s =
     trim_space (map (\<lambda>c. if c = CHR 0x0D \<or> c = CHR 0x0A then CHR '' '' else c) s)"

definition attachment_text :: "string \<Rightarrow> string \<Rightarrow> string" where
  "attachment_text caption path =
     (let caption = sanitize_line caption;
          path = sanitize_line path;
          caption = (if caption = [] then ''no caption'' else caption)
      in if path = [] then ''[User sent a file ('' @ caption @ '')]''
         else ''[User sent a file ('' @ caption @ ''): '' @ path @ '']'' @ [CHR 0x0A] @
              ''Use the read tool to view it.'')"

definition is_allowed :: "string list \<Rightarrow> string \<Rightarrow> bool" where
  "is_allowed allowlist sender = (if allowlist = [] then True else sender \<in> set allowlist)"

text \<open>
  \<open>Canceler\<close>: the stored function is modelled by a tag (which context it cancels); \<open>cancel\<close>
  returns the contexts cancelled so far.
\<close>

definition canceler_set :: "'f option \<Rightarrow> 'f option \<Rightarrow> 'f option" where
  "canceler_set fn c = fn"

definition canceler_cancel :: "'f option \<Rightarrow> 'f list \<Rightarrow> 'f list" where
  "canceler_cancel c cancelled = (case c of None \<Rightarrow> cancelled | Some fn \<Rightarrow> cancelled @ [fn])"

section \<open>Lemmas\<close>

lemma claim_state: "claim c a = (True, a') \<Longrightarrow> a' = c \<and> c \<noteq> []"
  by (auto simp: claim_def split: if_splits)

lemma claim_holds: "claim c a = (ok, a') \<Longrightarrow> a \<noteq> [] \<Longrightarrow> a' = a"
  by (auto simp: claim_def split: if_splits)

lemma sanitize_line_no_break:
  "CHR 0x0A \<notin> set (sanitize_line s)" "CHR 0x0D \<notin> set (sanitize_line s)"
  using trim_space_set [of "map (\<lambda>c. if c = CHR 0x0D \<or> c = CHR 0x0A then CHR '' '' else c) s"]
  by (auto simp: sanitize_line_def)

lemma conv_run_held:
  "a \<noteq> [] \<Longrightarrow> Reset a \<notin> set ops \<Longrightarrow> set (fst (conv_run a ops)) \<subseteq> {a} \<and> snd (conv_run a ops) = a"
proof (induction ops)
  case (Cons op ops)
  then show ?case
    by (cases op) (auto simp: claim_def reset_conv_def split: prod.splits)
qed simp

section \<open>Properties\<close>

text \<open>
  Single active conversation: once a conversation holds the claim, no other conversation's
  claim succeeds until that conversation itself is reset.
\<close>

theorem single_active_conversation:
  assumes "claim c a = (True, a')" "Reset c \<notin> set ops"
  shows "set (fst (conv_run a' ops)) \<subseteq> {c} \<and> snd (conv_run a' ops) = c"
  using claim_state [OF assms(1)] assms(2) conv_run_held by blast

theorem single_active_conversation_witness:
  "fst (conv_run ''a'' [Claim ''b'', Claim ''a'', Reset ''b'', Claim ''b'']) = [''a''] \<and>
   set (fst (conv_run ''a'' [Claim ''b'', Claim ''a'', Reset ''b'', Claim ''b''])) \<subseteq> {''a''}"
proof -
  have "claim ''a'' [] = (True, ''a'')" by (simp add: claim_def)
  from single_active_conversation [OF this, of "[Claim ''b'', Claim ''a'', Reset ''b'', Claim ''b'']"]
  show ?thesis by (simp add: claim_def reset_conv_def)
qed

text \<open>
  An attachment marker stays on one line, whatever line breaks the remote caption or path
  contains: the first line is the whole marker and only the fixed hint may follow it.
\<close>

theorem attachment_marker_one_line:
  "\<exists>m. CHR 0x0A \<notin> set m \<and> CHR 0x0D \<notin> set m \<and> has_prefix m ''[User sent a file ('' \<and>
     last m = CHR '']'' \<and>
     split_on CHR 0x0A (attachment_text caption path) =
       (if sanitize_line path = [] then [m] else [m, ''Use the read tool to view it.''])"
proof -
  define c where "c = (if sanitize_line caption = [] then ''no caption'' else sanitize_line caption)"
  define m where "m = ''[User sent a file ('' @ c @
    (if sanitize_line path = [] then '')]'' else ''): '' @ sanitize_line path @ '']'')"
  have c: "CHR 0x0A \<notin> set c" "CHR 0x0D \<notin> set c"
    using sanitize_line_no_break [of caption] by (auto simp: c_def)
  then have m: "CHR 0x0A \<notin> set m" "CHR 0x0D \<notin> set m" "last m = CHR '']''"
    using sanitize_line_no_break [of path] by (auto simp: m_def)
  have "attachment_text caption path =
      (if sanitize_line path = [] then m else m @ CHR 0x0A # ''Use the read tool to view it.'')"
    by (simp add: attachment_text_def m_def c_def Let_def)
  then have "split_on CHR 0x0A (attachment_text caption path) =
      (if sanitize_line path = [] then [m] else [m, ''Use the read tool to view it.''])"
    using m(1) by (simp add: split_on_no_sep split_on_append)
  moreover have "has_prefix m ''[User sent a file (''"
    unfolding m_def by (rule has_prefix_append)
  ultimately show ?thesis using m by blast
qed

end
