(* ===== verification/Pi_Args.thy ===== *)
theory Pi_Args
  imports Go_Path Json
begin

text \<open>
  How the agent process is started (\<open>pi.go\<close>, with \<open>PiConfig\<close> of \<open>config.go\<close>): its command
  line and the overlay file that registers the configured skills. Creating the directories,
  the FIFO and the process itself are system calls; their outcome is part of \<open>start_pi\<close> in the
  theory \<open>Worker_State\<close>.
\<close>

record pi_config =
  binary_path :: string
  binary_args :: "string list"
  session_dir :: string
  provider :: string
  model :: string
  working_dir :: string
  idle_timeout :: int
  system_prompt :: string
  skills :: "string list"
  extensions :: "string list"
  show_tool_calls :: bool
  debug_timing :: bool

definition flag_if :: "string \<Rightarrow> string \<Rightarrow> string list" where
  "flag_if name v = (if v \<noteq> [] then [name, v] else [])"

definition build_pi_args :: "pi_config \<Rightarrow> bool \<Rightarrow> string \<Rightarrow> string list" where
  "build_pi_args c fresh skills_config_path =
     binary_args c @ [''--mode'', ''rpc'', ''--session-dir'', session_dir c] @
     (if \<not> fresh then [''--continue''] else []) @
     flag_if ''--provider'' (provider c) @
     flag_if ''--model'' (model c) @
     flag_if ''--append-system-prompt'' (system_prompt c) @
     flag_if ''--config'' skills_config_path @
     concat (map (\<lambda>ext. [''--extension'', ext]) (extensions c))"

text \<open>The loop of \<open>writeSkillsConfig\<close>: the parent directories, each once, in first-seen order.\<close>

fun skill_dirs :: "string list \<Rightarrow> string list \<Rightarrow> string list \<Rightarrow> string list" where
  "skill_dirs seen dirs [] = dirs"
| "skill_dirs seen dirs (sk # sks) =
     (let parent = path_dir sk
      in if parent \<in> set seen then skill_dirs seen dirs sks
         else skill_dirs (parent # seen) (dirs @ [parent]) sks)"

definition skills_overlay :: "string list \<Rightarrow> json" where
  "skills_overlay dirs = JObj [(''skills'', JObj [(''customDirectories'', JArr (map JStr dirs))])]"

text \<open>
  The result: the path given to \<open>--config\<close>, and what is written there; no skills, no file. The
  write may fail with an error text.
\<close>

definition write_skills_config ::
  "string option \<Rightarrow> pi_config \<Rightarrow> string + (string \<times> (string \<times> json) option)" where
  "write_skills_config write_error c =
     (if skills c = [] then Inr ([], None)
      else let path = path_join [session_dir c, ''omp-skills.yaml'']
           in case write_error of
                Some e \<Rightarrow> Inl (''writing skills config: '' @ e)
              | None \<Rightarrow> Inr (path, Some (path, skills_overlay (skill_dirs [] [] (skills c)))))"

section \<open>Lemmas\<close>

lemma skill_dirs_acc:
  "set seen = set dirs \<Longrightarrow> distinct dirs \<Longrightarrow>
   distinct (skill_dirs seen dirs sks) \<and>
   set (skill_dirs seen dirs sks) = set dirs \<union> path_dir ` set sks"
proof (induction sks arbitrary: seen dirs)
  case (Cons sk sks)
  show ?case
  proof (cases "path_dir sk \<in> set seen")
    case True
    with Cons.IH [OF Cons.prems] Cons.prems show ?thesis by (auto simp: Let_def)
  next
    case False
    with Cons.IH [of "path_dir sk # seen" "dirs @ [path_dir sk]"] Cons.prems
    show ?thesis by (auto simp: Let_def)
  qed
qed simp

section \<open>Properties\<close>

text \<open>
  The skills overlay: when a file is written, it lists exactly the parent directories of
  the configured skills, each of them once.
\<close>

theorem skills_overlay_dirs:
  assumes "write_skills_config err c = Inr (path, Some (path', j))"
  shows "path' = path \<and> err = None \<and> (\<exists>dirs. j = skills_overlay dirs \<and> distinct dirs \<and>
    set dirs = path_dir ` set (skills c))"
  using assms skill_dirs_acc [of "[]" "[]" "skills c"]
  by (auto simp: write_skills_config_def Let_def split: if_splits option.splits)

definition sample_config :: pi_config where
  "sample_config = \<lparr>binary_path = ''omp'', binary_args = [], session_dir = ''/s'',
     provider = [], model = [], working_dir = ''/w'', idle_timeout = 0, system_prompt = [],
     skills = [''/k/a'', ''/k/b''], extensions = [''/e''], show_tool_calls = True,
     debug_timing = False\<rparr>"

theorem skills_overlay_dirs_witness:
  "write_skills_config None sample_config =
     Inr (''/s/omp-skills.yaml'', Some (''/s/omp-skills.yaml'', skills_overlay [''/k''])) \<and>
   (\<exists>dirs. skills_overlay [''/k''] = skills_overlay dirs \<and> distinct dirs \<and>
      set dirs = path_dir ` {''/k/a'', ''/k/b''})"
proof -
  have run: "write_skills_config None sample_config =
      Inr (''/s/omp-skills.yaml'', Some (''/s/omp-skills.yaml'', skills_overlay [''/k'']))"
    by code_simp
  with skills_overlay_dirs [OF run] show ?thesis by (simp add: sample_config_def)
qed

end
