(* ===== verification/Go_Fmt.thy ===== *)
theory Go_Fmt
  imports Prelude
begin

text \<open>
  The formatting of Go's \<open>fmt\<close>, \<open>strconv\<close> and \<open>time\<close> that the sources use: decoding of UTF-8,
  the verb \<open>%q\<close>, and \<open>Duration.String\<close> of a duration rounded to milliseconds. Strings are
  sequences of bytes. Which code points above Latin-1 \<open>strconv.IsPrint\<close> accepts is a table of
  the Unicode version; it is the parameter \<open>tab\<close>.
\<close>

section \<open>UTF-8\<close>

definition is_cont :: "nat \<Rightarrow> nat \<Rightarrow> nat \<Rightarrow> bool" where
  "is_cont lo hi b \<longleftrightarrow> lo \<le> b \<and> b \<le> hi"

definition rune_error :: nat where "rune_error = 0xFFFD"

text \<open>\<open>utf8.DecodeRune\<close> on the bytes of a non-empty string: the code point and its width.\<close>

fun decode_rune :: "nat list \<Rightarrow> nat \<times> nat" where
  "decode_rune [] = (rune_error, 0)"
| "decode_rune (b # bs) =
     (if b < 0x80 then (b, 1)
      else if b < 0xC2 \<or> 0xF4 < b then (rune_error, 1)
      else if b < 0xE0 then
        (case bs of
           c # _ \<Rightarrow> if is_cont 0x80 0xBF c then ((b - 0xC0) * 64 + (c - 0x80), 2) else (rune_error, 1)
         | [] \<Rightarrow> (rune_error, 1))
      else if b < 0xF0 then
        (case bs of
           c # d # _ \<Rightarrow>
             if is_cont (if b = 0xE0 then 0xA0 else 0x80) (if b = 0xED then 0x9F else 0xBF) c \<and>
                is_cont 0x80 0xBF d
             then ((b - 0xE0) * 4096 + (c - 0x80) * 64 + (d - 0x80), 3) else (rune_error, 1)
         | _ \<Rightarrow> (rune_error, 1))
      else
        (case bs of
           c # d # e # _ \<Rightarrow>
             if is_cont (if b = 0xF0 then 0x90 else 0x80) (if b = 0xF4 then 0x8F else 0xBF) c \<and>
                is_cont 0x80 0xBF d \<and> is_cont 0x80 0xBF e
             then ((b - 0xF0) * 262144 + (c - 0x80) * 4096 + (d - 0x80) * 64 + (e - 0x80), 4)
             else (rune_error, 1)
         | _ \<Rightarrow> (rune_error, 1)))"

definition bytes_of :: "string \<Rightarrow> nat list" where
  "bytes_of s = map of_char s"

lemma decode_rune_width: "bs \<noteq> [] \<Longrightarrow> 1 \<le> snd (decode_rune bs)"
  by (cases bs rule: decode_rune.cases) (auto split: list.splits)

text \<open>A rune of more than one byte has only bytes from \<open>0x80\<close> on.\<close>

lemma decode_rune_high:
  assumes "decode_rune bs = (r, w)" "1 < w"
  shows "\<forall>b \<in> set (take w bs). 0x80 \<le> b"
proof (cases bs rule: decode_rune.cases)
  case 1
  with assms show ?thesis by simp
next
  case (2 b cs)
  show ?thesis
  proof (cases "b < 0x80")
    case True
    with 2 assms show ?thesis by simp
  next
    case False
    with 2 assms show ?thesis
      by (cases cs; cases "tl cs"; cases "tl (tl cs)")
         (auto simp: is_cont_def split: if_splits)
  qed
qed

section \<open>Quoting\<close>

definition hex_char :: "nat \<Rightarrow> char" where
  "hex_char d = (if d < 10 then char_of (48 + d) else char_of (87 + d))"

fun hex_digits :: "nat \<Rightarrow> nat \<Rightarrow> string" where
  "hex_digits 0 n = []"
| "hex_digits (Suc k) n = hex_digits k (n div 16) @ [hex_char (n mod 16)]"

definition is_print :: "(nat \<Rightarrow> bool) \<Rightarrow> nat \<Rightarrow> bool" where
  "is_print tab r =
     (if r \<le> 0xFF then (0x20 \<le> r \<and> r < 0x7F) \<or> (0xA1 \<le> r \<and> r \<noteq> 0xAD) else tab r)"

text \<open>\<open>appendEscapedRune\<close> of \<open>strconv\<close>, for the rune \<open>r\<close> encoded as \<open>enc\<close>.\<close>

definition escape_rune :: "(nat \<Rightarrow> bool) \<Rightarrow> nat \<Rightarrow> string \<Rightarrow> string" where
  "escape_rune tab r enc =
     (if r = 0x22 \<or> r = 0x5C then CHR 0x5C # enc
      else if is_print tab r then enc
      else if r = 0x07 then [CHR 0x5C, CHR ''a'']
      else if r = 0x08 then [CHR 0x5C, CHR ''b'']
      else if r = 0x0C then [CHR 0x5C, CHR ''f'']
      else if r = 0x0A then [CHR 0x5C, CHR ''n'']
      else if r = 0x0D then [CHR 0x5C, CHR ''r'']
      else if r = 0x09 then [CHR 0x5C, CHR ''t'']
      else if r = 0x0B then [CHR 0x5C, CHR ''v'']
      else if r < 0x20 \<or> r = 0x7F then [CHR 0x5C, CHR ''x''] @ hex_digits 2 r
      else if r < 0x10000 then [CHR 0x5C, CHR ''u''] @ hex_digits 4 r
      else [CHR 0x5C, CHR ''U''] @ hex_digits 8 r)"

function quote_body :: "(nat \<Rightarrow> bool) \<Rightarrow> string \<Rightarrow> string" where
  "quote_body tab s =
     (case s of
        [] \<Rightarrow> []
      | c # cs \<Rightarrow>
          (case decode_rune (bytes_of s) of
             (r, w) \<Rightarrow>
               (if w = 1 \<and> r = rune_error
                then [CHR 0x5C, CHR ''x''] @ hex_digits 2 (of_char c) @ quote_body tab cs
                else escape_rune tab r (take w s) @ quote_body tab (drop w s))))"
  by pat_completeness auto
termination
proof (relation "measure (\<lambda>(tab, s). length s)")
  fix tab :: "nat \<Rightarrow> bool" and s :: string and c cs r w
  assume s: "s = c # cs" and x: "(r, w) = decode_rune (bytes_of s)"
  show "((tab, drop w s), (tab, s)) \<in> measure (\<lambda>(tab, s). length s)"
    using decode_rune_width [of "bytes_of s"] s x [symmetric] by (auto simp: bytes_of_def)
qed auto

declare quote_body.simps [simp del]

definition go_quote :: "(nat \<Rightarrow> bool) \<Rightarrow> string \<Rightarrow> string" where
  "go_quote tab s = [CHR 0x22] @ quote_body tab s @ [CHR 0x22]"

text \<open>Nothing below the space survives quoting: a quoted text is one line.\<close>

definition no_control :: "string \<Rightarrow> bool" where
  "no_control s \<longleftrightarrow> (\<forall>c \<in> set s. (0x20::nat) \<le> of_char c)"

lemma no_control_append [simp]: "no_control (s @ t) \<longleftrightarrow> no_control s \<and> no_control t"
  by (auto simp: no_control_def)

lemma no_control_Nil [simp]: "no_control []"
  by (simp add: no_control_def)

lemma no_control_Cons [simp]: "no_control (c # s) \<longleftrightarrow> (0x20::nat) \<le> of_char c \<and> no_control s"
  by (simp add: no_control_def)

lemma no_control_line: "no_control s \<Longrightarrow> CHR 0x0A \<notin> set s \<and> CHR 0x0D \<notin> set s"
  by (auto simp: no_control_def)

lemma hex_char_control: "d < 16 \<Longrightarrow> (0x20::nat) \<le> of_char (hex_char d)"
  by (simp add: hex_char_def)

lemma hex_digits_control: "no_control (hex_digits k n)"
  by (induction k arbitrary: n) (simp_all add: hex_char_control)

lemma escape_rune_control:
  assumes "decode_rune (bytes_of s) = (r, w)" "s \<noteq> []" "w \<noteq> 1 \<or> r \<noteq> rune_error"
  shows "no_control (escape_rune tab r (take w s))"
proof -
  have enc: "no_control (take w s)" if "\<not> r < 0x20"
  proof (cases "1 < w")
    case True
    have "\<forall>b \<in> set (take w (bytes_of s)). 0x80 \<le> b"
      using decode_rune_high [OF assms(1) True] .
    then have "\<forall>c \<in> set (take w s). (0x80::nat) \<le> of_char c"
      by (simp add: bytes_of_def take_map)
    then show ?thesis by (fastforce simp: no_control_def)
  next
    case False
    with assms have w: "w = 1"
      using decode_rune_width [of "bytes_of s"] by (simp add: bytes_of_def)
    obtain c cs where s: "s = c # cs" using assms(2) by (cases s) auto
    from assms w s have "r = of_char c"
      by (auto simp: bytes_of_def split: if_splits list.splits)
    with s w that show ?thesis by simp
  qed
  show ?thesis
    by (cases "r < 0x20") (auto simp: escape_rune_def is_print_def hex_digits_control enc)
qed

lemma quote_body_control: "no_control (quote_body tab s)"
proof (induction tab s rule: quote_body.induct)
  case (1 tab s)
  show ?case
  proof (cases s)
    case Nil
    then show ?thesis by (simp add: quote_body.simps)
  next
    case (Cons c cs)
    obtain r w where d: "decode_rune (bytes_of s) = (r, w)" by (cases "decode_rune (bytes_of s)")
    show ?thesis
    proof (cases "w = 1 \<and> r = rune_error")
      case True
      with 1(1) [OF Cons d [symmetric]] True Cons d show ?thesis
        by (subst quote_body.simps) (simp add: hex_digits_control)
    next
      case False
      with 1(2) [OF Cons d [symmetric]] False Cons d escape_rune_control [OF d]
      show ?thesis by (subst quote_body.simps) auto
    qed
  qed
qed

lemma go_quote_control: "no_control (go_quote tab s)"
  by (simp add: go_quote_def quote_body_control)

section \<open>Durations\<close>

text \<open>
  \<open>Duration.Round(time.Millisecond)\<close> and \<open>Duration.String\<close> of its result; both in whole
  milliseconds. Rounding is to the nearest, halves away from zero.
\<close>

definition round_ms :: "nat \<Rightarrow> nat" where
  "round_ms ns = (ns + 500000) div 1000000"

definition frac_ms :: "nat \<Rightarrow> string" where
  "frac_ms ms =
     (if ms = 0 then []
      else CHR ''.'' # trim_right [digit_char (ms div 100), digit_char (ms div 10 mod 10),
                                   digit_char (ms mod 10)] ''0'')"

definition duration_text :: "nat \<Rightarrow> string" where
  "duration_text ms =
     (if ms = 0 then ''0s''
      else if ms < 1000 then dec_nat ms @ ''ms''
      else let s = ms div 1000;
               secs = dec_nat (s mod 60) @ frac_ms (ms mod 1000) @ ''s''
           in if s < 60 then secs
              else if s < 3600 then dec_nat (s div 60) @ ''m'' @ secs
              else dec_nat (s div 3600) @ ''h'' @ dec_nat (s div 60 mod 60) @ ''m'' @ secs)"

section \<open>Dates\<close>

text \<open>
  \<open>Time.UTC().Format(time.RFC3339)\<close> of the seconds since 1970, for the years 0 to 9999: the
  proleptic Gregorian date, computed in years that start in March.
\<close>

definition pad_dec :: "nat \<Rightarrow> nat \<Rightarrow> string" where
  "pad_dec k n = (let s = dec_nat n in replicate (k - length s) CHR ''0'' @ s)"

definition civil_date :: "int \<Rightarrow> int \<times> int \<times> int" where
  "civil_date days =
     (let z = days + 719468;
          era = z div 146097;
          doe = z mod 146097;
          yoe = (doe - doe div 1460 + doe div 36524 - doe div 146096) div 365;
          doy = doe - (365 * yoe + yoe div 4 - yoe div 100);
          mp = (5 * doy + 2) div 153;
          d = doy - (153 * mp + 2) div 5 + 1;
          m = (if mp < 10 then mp + 3 else mp - 9);
          y = yoe + era * 400 + (if m \<le> 2 then 1 else 0)
      in (y, m, d))"

definition rfc3339 :: "int \<Rightarrow> string" where
  "rfc3339 secs =
     (case civil_date (secs div 86400) of
        (y, m, d) \<Rightarrow>
          (let t = secs mod 86400
           in pad_dec 4 (nat y) @ ''-'' @ pad_dec 2 (nat m) @ ''-'' @ pad_dec 2 (nat d) @ ''T'' @
              pad_dec 2 (nat (t div 3600)) @ '':'' @ pad_dec 2 (nat (t div 60 mod 60)) @ '':'' @
              pad_dec 2 (nat (t mod 60)) @ ''Z''))"

end
