(* ===== verification/Pi_Event.thy ===== *)
theory Pi_Event
  imports Json Go_Fmt
begin

text \<open>
  The events of the agent process (\<open>pi_rpc.go\<close>, the types and parsers): the JSON event, the
  reader of the process's standard output, and the text of the last assistant message. Also
  the argument summary that \<open>pi_format.go\<close> logs for a tool call.
\<close>

section \<open>Data\<close>

record assistant_message_event =
  ame_type :: string
  ame_delta :: string

record rpc_event =
  ev_type :: string
  ev_id :: string
  ev_command :: string
  ev_success :: "bool option"
  ev_error :: string
  ev_data :: "json option"
  ev_messages :: "json option"
  ev_method :: string
  ev_tool_name :: string
  ev_args :: "(string \<times> json) list"
  ev_attempt :: int
  ev_max_attempts :: int
  ev_delay_ms :: int
  ev_error_message :: string
  ev_final_error :: string
  ev_reason :: string
  ev_extension_path :: string
  ev_event :: string
  ev_assistant :: "assistant_message_event option"

record compact_result =
  cr_summary :: string
  cr_tokens_before :: int

record agent_message =
  am_role :: string
  am_content :: "json option"
  am_stop_reason :: string
  am_error_message :: string

record content_block =
  cb_type :: string
  cb_text :: string

record assistant_result =
  ar_text :: string
  ar_stop_reason :: string
  ar_error_message :: string

text \<open>The zero values of the struct types.\<close>

definition zero_ame :: assistant_message_event where
  "zero_ame = \<lparr>ame_type = [], ame_delta = []\<rparr>"

definition zero_event :: rpc_event where
  "zero_event = \<lparr>ev_type = [], ev_id = [], ev_command = [], ev_success = None, ev_error = [],
     ev_data = None, ev_messages = None, ev_method = [], ev_tool_name = [], ev_args = [],
     ev_attempt = 0, ev_max_attempts = 0, ev_delay_ms = 0, ev_error_message = [],
     ev_final_error = [], ev_reason = [], ev_extension_path = [], ev_event = [],
     ev_assistant = None\<rparr>"

definition zero_compact :: compact_result where
  "zero_compact = \<lparr>cr_summary = [], cr_tokens_before = 0\<rparr>"

definition zero_agent_message :: agent_message where
  "zero_agent_message =
     \<lparr>am_role = [], am_content = None, am_stop_reason = [], am_error_message = []\<rparr>"

definition zero_block :: content_block where
  "zero_block = \<lparr>cb_type = [], cb_text = []\<rparr>"

definition no_assistant :: assistant_result where
  "no_assistant = \<lparr>ar_text = [], ar_stop_reason = [], ar_error_message = []\<rparr>"

section \<open>Event types\<close>

definition rpc_response :: string where "rpc_response = ''response''"
definition rpc_agent_end :: string where "rpc_agent_end = ''agent_end''"
definition rpc_message_update :: string where "rpc_message_update = ''message_update''"
definition rpc_tool_start :: string where "rpc_tool_start = ''tool_execution_start''"
definition rpc_retry_start :: string where "rpc_retry_start = ''auto_retry_start''"
definition rpc_retry_end :: string where "rpc_retry_end = ''auto_retry_end''"
definition rpc_ui_request :: string where "rpc_ui_request = ''extension_ui_request''"
definition rpc_compaction_start :: string where "rpc_compaction_start = ''auto_compaction_start''"

lemmas rpc_type_defs = rpc_response_def rpc_agent_end_def rpc_message_update_def
  rpc_tool_start_def rpc_retry_start_def rpc_retry_end_def rpc_ui_request_def
  rpc_compaction_start_def

section \<open>Decoding\<close>

definition dec_ame :: "assistant_message_event decoder" where
  "dec_ame = dec_struct (\<lambda>fs a.
     Option.bind (dec_field ''type'' dec_string (ame_type a) fs) (\<lambda>t.
     Option.bind (dec_field ''delta'' dec_string (ame_delta a) fs) (\<lambda>d.
     Some \<lparr>ame_type = t, ame_delta = d\<rparr>)))"

definition dec_event :: "rpc_event decoder" where
  "dec_event = dec_struct (\<lambda>fs e.
     Option.bind (dec_field ''type'' dec_string (ev_type e) fs) (\<lambda>ty.
     Option.bind (dec_field ''id'' dec_string (ev_id e) fs) (\<lambda>i.
     Option.bind (dec_field ''command'' dec_string (ev_command e) fs) (\<lambda>cmd.
     Option.bind (dec_field ''success'' dec_bool_ptr (ev_success e) fs) (\<lambda>ok.
     Option.bind (dec_field ''error'' dec_string (ev_error e) fs) (\<lambda>err.
     Option.bind (dec_field ''data'' dec_raw (ev_data e) fs) (\<lambda>dat.
     Option.bind (dec_field ''messages'' dec_raw (ev_messages e) fs) (\<lambda>msgs.
     Option.bind (dec_field ''method'' dec_string (ev_method e) fs) (\<lambda>mth.
     Option.bind (dec_field ''toolName'' dec_string (ev_tool_name e) fs) (\<lambda>tn.
     Option.bind (dec_field ''args'' dec_any_map (ev_args e) fs) (\<lambda>args.
     Option.bind (dec_field ''attempt'' dec_int64 (ev_attempt e) fs) (\<lambda>att.
     Option.bind (dec_field ''maxAttempts'' dec_int64 (ev_max_attempts e) fs) (\<lambda>mx.
     Option.bind (dec_field ''delayMs'' dec_int64 (ev_delay_ms e) fs) (\<lambda>dl.
     Option.bind (dec_field ''errorMessage'' dec_string (ev_error_message e) fs) (\<lambda>em.
     Option.bind (dec_field ''finalError'' dec_string (ev_final_error e) fs) (\<lambda>fe.
     Option.bind (dec_field ''reason'' dec_string (ev_reason e) fs) (\<lambda>rs.
     Option.bind (dec_field ''extensionPath'' dec_string (ev_extension_path e) fs) (\<lambda>xp.
     Option.bind (dec_field ''event'' dec_string (ev_event e) fs) (\<lambda>ev.
     Option.bind (dec_field ''assistantMessageEvent'' (dec_ptr zero_ame dec_ame)
                    (ev_assistant e) fs) (\<lambda>am.
     Some \<lparr>ev_type = ty, ev_id = i, ev_command = cmd, ev_success = ok, ev_error = err,
       ev_data = dat, ev_messages = msgs, ev_method = mth, ev_tool_name = tn, ev_args = args,
       ev_attempt = att, ev_max_attempts = mx, ev_delay_ms = dl, ev_error_message = em,
       ev_final_error = fe, ev_reason = rs, ev_extension_path = xp, ev_event = ev,
       ev_assistant = am\<rparr>))))))))))))))))))))"

definition dec_agent_message :: "agent_message decoder" where
  "dec_agent_message = dec_struct (\<lambda>fs a.
     Option.bind (dec_field ''role'' dec_string (am_role a) fs) (\<lambda>r.
     Option.bind (dec_field ''content'' dec_raw (am_content a) fs) (\<lambda>c.
     Option.bind (dec_field ''stopReason'' dec_string (am_stop_reason a) fs) (\<lambda>s.
     Option.bind (dec_field ''errorMessage'' dec_string (am_error_message a) fs) (\<lambda>e.
     Some \<lparr>am_role = r, am_content = c, am_stop_reason = s, am_error_message = e\<rparr>)))))"

definition dec_block :: "content_block decoder" where
  "dec_block = dec_struct (\<lambda>fs b.
     Option.bind (dec_field ''type'' dec_string (cb_type b) fs) (\<lambda>t.
     Option.bind (dec_field ''text'' dec_string (cb_text b) fs) (\<lambda>x.
     Some \<lparr>cb_type = t, cb_text = x\<rparr>)))"

definition dec_compact :: "compact_result decoder" where
  "dec_compact = dec_struct (\<lambda>fs c.
     Option.bind (dec_field ''summary'' dec_string (cr_summary c) fs) (\<lambda>s.
     Option.bind (dec_field ''tokensBefore'' dec_int64 (cr_tokens_before c) fs) (\<lambda>t.
     Some \<lparr>cr_summary = s, cr_tokens_before = t\<rparr>)))"

text \<open>
  \<open>readEvents\<close>: a line of standard output is its text and the JSON value it denotes (\<open>None\<close> when
  it is not JSON); the scanner may end with an error, which is sent as the last entry.
\<close>

definition parse_line :: "string \<times> json option \<Rightarrow> rpc_event option" where
  "parse_line ln = (case ln of (txt, v) \<Rightarrow>
     if txt = [] then None else Option.bind v (dec_event zero_event))"

definition read_events ::
  "(string \<times> json option) list \<Rightarrow> string option \<Rightarrow> (string + rpc_event) list" where
  "read_events lns scan_err =
     map Inr (List.map_filter parse_line lns) @
     (case scan_err of None \<Rightarrow> [] | Some e \<Rightarrow> [Inl (''reading pi stdout: '' @ e)])"

section \<open>The last assistant message\<close>

definition parse_assistant_content :: "json option \<Rightarrow> string" where
  "parse_assistant_content raw =
     (case Option.bind raw (dec_string []) of
        Some text \<Rightarrow> text
      | None \<Rightarrow>
          (case Option.bind raw (dec_slice dec_block zero_block) of
             None \<Rightarrow> []
           | Some blocks \<Rightarrow>
               join [CHR 0x0A]
                 (map cb_text (filter (\<lambda>b. cb_type b = ''text'' \<and> cb_text b \<noteq> []) blocks))))"

definition extract_last_assistant :: "json option \<Rightarrow> assistant_result" where
  "extract_last_assistant raw =
     (case Option.bind raw (dec_slice dec_agent_message zero_agent_message) of
        None \<Rightarrow> no_assistant
      | Some msgs \<Rightarrow>
          (case find (\<lambda>m. am_role m = ''assistant'') (rev msgs) of
             None \<Rightarrow> no_assistant
           | Some m \<Rightarrow> \<lparr>ar_text = parse_assistant_content (am_content m),
                        ar_stop_reason = am_stop_reason m,
                        ar_error_message = am_error_message m\<rparr>))"

section \<open>Tool arguments\<close>

definition tool_arg_max_len :: nat where "tool_arg_max_len = 512"

text \<open>The ellipsis, as its three UTF-8 bytes.\<close>

definition ellipsis :: string where "ellipsis = [CHR 0xE2, CHR 0x80, CHR 0xA6]"

definition log_tool_args :: "rpc_event \<Rightarrow> (string \<times> string) list" where
  "log_tool_args e =
     (let attrs = [(''tool'', ev_tool_name e)];
          key = (if ev_tool_name e \<in> {''bash'', ''Bash''} then Some ''command''
                 else if ev_tool_name e \<in> {''Read'', ''read'', ''Edit'', ''edit'', ''Write'', ''write''}
                 then Some ''path'' else None)
      in case key of None \<Rightarrow> attrs
         | Some k \<Rightarrow>
             (case any_map_get (ev_args e) k of
                Some (JStr s) \<Rightarrow>
                  attrs @ [(k, if tool_arg_max_len < length s
                               then take tool_arg_max_len s @ ellipsis else s)]
              | _ \<Rightarrow> attrs))"

section \<open>Lemmas\<close>

lemma find_append:
  "find P (xs @ ys) = (case find P xs of None \<Rightarrow> find P ys | Some x \<Rightarrow> Some x)"
  by (induction xs) auto

lemma dec_list_append:
  "dec_list d z (xs @ ys) =
     Option.bind (dec_list d z xs) (\<lambda>as. Option.bind (dec_list d z ys) (\<lambda>bs. Some (as @ bs)))"
  by (induction xs) (auto split: option.splits bind_splits)

text \<open>Encoders, used to state what the parsers recover.\<close>

definition text_block :: "string \<Rightarrow> json" where
  "text_block t = JObj [(''type'', JStr ''text''), (''text'', JStr t)]"

definition message_json :: "string \<Rightarrow> json \<Rightarrow> string \<Rightarrow> string \<Rightarrow> json" where
  "message_json role c stop err =
     JObj [(''role'', JStr role), (''content'', c), (''stopReason'', JStr stop),
           (''errorMessage'', JStr err)]"

lemma fold_names [simp]:
  "fold_name ''type'' = ''TYPE''" "fold_name ''text'' = ''TEXT''" "fold_name ''role'' = ''ROLE''"
  "fold_name ''content'' = ''CONTENT''" "fold_name ''stopReason'' = ''STOPREASON''"
  "fold_name ''errorMessage'' = ''ERRORMESSAGE''"
  by code_simp+

lemma dec_text_block: "dec_block z (text_block t) = Some \<lparr>cb_type = ''text'', cb_text = t\<rparr>"
  by (simp add: dec_block_def text_block_def dec_field_def obj_vals_def)

lemma dec_text_blocks:
  "dec_list dec_block z (map text_block ts) = Some (map (\<lambda>t. \<lparr>cb_type = ''text'', cb_text = t\<rparr>) ts)"
  by (induction ts) (simp_all add: dec_text_block)

lemma dec_message_json:
  "dec_agent_message z (message_json r c s e) =
     Some \<lparr>am_role = r, am_content = Some c, am_stop_reason = s, am_error_message = e\<rparr>"
  by (simp add: dec_agent_message_def message_json_def dec_field_def obj_vals_def)

lemma parse_text_blocks:
  "parse_assistant_content (Some (JArr (map text_block ts))) =
     join [CHR 0x0A] (filter (\<lambda>t. t \<noteq> []) ts)"
  by (simp add: parse_assistant_content_def dec_text_blocks filter_map o_def)

section \<open>Properties\<close>

text \<open>
  Round trip of the reply: from the messages of an \<open>agent_end\<close> event, whose last assistant message
  consists of text blocks and is followed by messages of other roles only, exactly the blocks'
  texts (the empty ones left out, one per line), the stop reason and the error message of that
  message are read back, whatever decodable messages come before it.
\<close>

theorem last_assistant_roundtrip:
  assumes "dec_list dec_agent_message zero_agent_message before \<noteq> None"
    "\<forall>(r, c, s, e) \<in> set rest. r \<noteq> ''assistant''"
  shows "extract_last_assistant (Some (JArr (before @
      message_json ''assistant'' (JArr (map text_block ts)) stop err #
      map (\<lambda>(r, c, s, e). message_json r c s e) rest))) =
    \<lparr>ar_text = join [CHR 0x0A] (filter (\<lambda>t. t \<noteq> []) ts), ar_stop_reason = stop,
     ar_error_message = err\<rparr>"
proof -
  obtain bs where bs: "dec_list dec_agent_message zero_agent_message before = Some bs"
    using assms(1) by auto
  let ?f = "\<lambda>(r, c, s, e). \<lparr>am_role = r, am_content = Some c, am_stop_reason = s,
    am_error_message = e\<rparr>"
  have rest: "dec_list dec_agent_message zero_agent_message
      (map (\<lambda>(r, c, s, e). message_json r c s e) rest) = Some (map ?f rest)"
    by (induction rest) (auto simp: dec_message_json)
  have none: "find (\<lambda>m. am_role m = ''assistant'') (rev (map ?f rest)) = None"
    using assms(2) by (auto simp: find_None_iff)
  show ?thesis
    by (simp add: extract_last_assistant_def dec_list_append bs rest dec_message_json find_append
        none parse_text_blocks)
qed

theorem last_assistant_roundtrip_witness:
  "extract_last_assistant (Some (JArr
     [message_json ''user'' (JStr ''hi'') [] [],
      message_json ''assistant'' (JArr (map text_block [''one'', [], ''two''])) ''stop'' [],
      message_json ''tool'' JNull [] []])) =
   \<lparr>ar_text = ''one'' @ [CHR 0x0A] @ ''two'', ar_stop_reason = ''stop'', ar_error_message = []\<rparr>"
  using last_assistant_roundtrip
    [of "[message_json ''user'' (JStr ''hi'') [] []]" "[(''tool'', JNull, [], [])]"
      "[''one'', [], ''two'']" "''stop''" "[]"]
  by (simp add: dec_message_json)

end
