(* ===== verification/Worker_State.thy ===== *)
theory Worker_State
  imports Inbox Outbox Pi_Args Pi_Event Backend_Util
begin

text \<open>
  The state of a running instance and the operations on it that never block: the fields of
  \<open>Worker\<close> (\<open>worker.go\<close>), its agent process (\<open>pi.go\<close>), the files both read, the database, and the
  record of everything sent to the outside, \<open>out\<close>. The operations of the worker that other
  goroutines call take the worker's mutex and are single steps here: \<open>Notify\<close>, \<open>Abort\<close>,
  \<open>Restart\<close>, \<open>Compact\<close> up to its wait, the idle reaper.
\<close>

section \<open>Errors\<close>

datatype pi_error =
    NotAlive
  | Rejected string string
  | ClosedStdout
  | Exited
  | ReadFailed string
  | WriteFailed string
  | BadCompact "json option"
  | Cancelled string
  | StartFailed string

text \<open>
  What is fixed outside the sources: the Unicode table behind \<open>%q\<close>, the wording of \<open>encoding/json\<close>
  for an undecodable compact result, and SQLite's \<open>datetime\<close>.
\<close>

record lib =
  print_tab :: "nat \<Rightarrow> bool"
  json_error :: "json option \<Rightarrow> string"
  datetime :: "string \<Rightarrow> string option"

definition ctx_err :: string where "ctx_err = ''context canceled''"

fun pi_error_text :: "lib \<Rightarrow> pi_error \<Rightarrow> string" where
  "pi_error_text l NotAlive = ''pi process is not alive''"
| "pi_error_text l (Rejected cmd err) =
     ''pi rejected command '' @ go_quote (print_tab l) cmd @ '': '' @ err"
| "pi_error_text l ClosedStdout = ''pi process closed stdout (EOF)''"
| "pi_error_text l Exited = ''pi process exited''"
| "pi_error_text l (ReadFailed msg) = msg"
| "pi_error_text l (WriteFailed msg) = ''writing to pi stdin: '' @ msg"
| "pi_error_text l (BadCompact raw) = ''parsing compact result: '' @ json_error l raw"
| "pi_error_text l (Cancelled what) = what @ '': '' @ ctx_err"
| "pi_error_text l (StartFailed msg) = msg"

section \<open>The state\<close>

datatype effect =
    Spawn nat string "string list"
  | Killed nat
  | Stdin nat json
  | SendMsg string string string
  | SendFile string string
  | Typing string bool
  | Delta string string string
  | ResetConv string

datatype fs_node = Absent | Fifo | OtherFile

type_synonym compact_outcome = "string + compact_result option"

record world =
  wdb :: db
  wlib :: lib
  cfg :: pi_config
  hb_prompt :: string
  hb_interval :: int
  trigger_prompt :: string
  room_id :: string
  pi_proc :: "nat option"
  fresh_start :: bool
  last_use :: int
  cur_priority :: int
  cur_cancel :: bool
  item_cancelled :: bool
  root_cancelled :: bool
  compact_chan :: "nat option"
  wake :: bool
  dead :: "nat list"
  closed :: "nat list"
  next_pid :: nat
  next_chan :: nat
  chans :: "(nat \<times> compact_outcome) list"
  waiters :: "(nat \<times> string) list"
  reap_due :: bool
  now_ns :: int
  room_file :: "string option"
  hb_file :: "string option"
  trigger_node :: fs_node
  start_faults :: outcomes
  stdin_faults :: outcomes
  file_faults :: outcomes
  send_ids :: "string list"
  be_flavor :: markdown_flavor
  be_streams :: bool
  be_extra :: string
  out :: "effect list"

text \<open>
  A context is done when its own cancel function was called or the root context is: the item's
  context while an item is processed.
\<close>

definition ctx_done :: "world \<Rightarrow> bool" where
  "ctx_done w \<longleftrightarrow> item_cancelled w \<or> root_cancelled w"

definition emit :: "effect \<Rightarrow> world \<Rightarrow> world" where
  "emit e w = w\<lparr>out := out w @ [e]\<rparr>"

text \<open>A database operation in the state.\<close>

definition with_db :: "(db \<Rightarrow> 'a \<times> db) \<Rightarrow> world \<Rightarrow> 'a \<times> world" where
  "with_db f w = (case f (wdb w) of (a, d) \<Rightarrow> (a, w\<lparr>wdb := d\<rparr>))"

text \<open>
  \<open>Backend.SendMessage\<close> returns the id the transport gave the message, the empty string when
  sending failed; the transports decide it, \<open>send_ids\<close> lists their answers.
\<close>

definition send_message :: "string \<Rightarrow> string \<Rightarrow> string \<Rightarrow> world \<Rightarrow> string \<times> world" where
  "send_message conv txt rto w =
     (let w = emit (SendMsg conv txt rto) w
      in case send_ids w of [] \<Rightarrow> ([], w) | i # is \<Rightarrow> (i, w\<lparr>send_ids := is\<rparr>))"

definition send_file :: "string \<Rightarrow> string \<Rightarrow> world \<Rightarrow> string option \<times> world" where
  "send_file conv path w =
     (let w = emit (SendFile conv path) w
      in case next_fault (file_faults w) of (f, fs) \<Rightarrow> (f, w\<lparr>file_faults := fs\<rparr>))"

definition set_typing :: "string \<Rightarrow> bool \<Rightarrow> world \<Rightarrow> world" where
  "set_typing conv b w = emit (Typing conv b) w"

section \<open>The agent process\<close>

definition is_alive :: "nat \<Rightarrow> world \<Rightarrow> bool" where
  "is_alive p w \<longleftrightarrow> p \<notin> set (dead w)"

text \<open>
  \<open>Kill\<close> closes the process's input, signals its group and returns once the process has ended;
  the escalation from \<open>SIGTERM\<close> to \<open>SIGKILL\<close> after five seconds makes sure that it does.
\<close>

definition kill_pi :: "nat \<Rightarrow> world \<Rightarrow> world" where
  "kill_pi p w = (emit (Killed p) w)\<lparr>closed := p # closed w, dead := p # dead w\<rparr>"

text \<open>
  \<open>sendCommand\<close>: one JSON object per line on the process's standard input. Marshalling a map of
  strings and booleans does not fail; writing may.
\<close>

definition send_command :: "nat \<Rightarrow> json \<Rightarrow> world \<Rightarrow> pi_error option \<times> world" where
  "send_command p j w =
     (if p \<in> set (closed w) then (Some (WriteFailed ''write |1: file already closed''), w)
      else case next_fault (stdin_faults w) of
             (Some msg, fs) \<Rightarrow> (Some (WriteFailed msg), w\<lparr>stdin_faults := fs\<rparr>)
           | (None, fs) \<Rightarrow> (None, emit (Stdin p j) (w\<lparr>stdin_faults := fs\<rparr>)))"

text \<open>\<open>encoding/json\<close> writes the members of a map in the order of their names.\<close>

definition prompt_command :: "string \<Rightarrow> json" where
  "prompt_command msg = JObj [(''message'', JStr msg), (''type'', JStr ''prompt'')]"

definition abort_command :: json where
  "abort_command = JObj [(''type'', JStr ''abort'')]"

definition compact_command :: json where
  "compact_command = JObj [(''type'', JStr ''compact'')]"

definition ui_cancel_command :: "string \<Rightarrow> json" where
  "ui_cancel_command i =
     JObj [(''cancelled'', JBool True), (''id'', JStr i), (''type'', JStr ''extension_ui_response'')]"

definition send_prompt_command :: "nat \<Rightarrow> string \<Rightarrow> world \<Rightarrow> pi_error option \<times> world" where
  "send_prompt_command p msg w = send_command p (prompt_command msg) w"

definition send_abort :: "nat \<Rightarrow> world \<Rightarrow> world" where
  "send_abort p w = snd (send_command p abort_command w)"

section \<open>Starting the process\<close>

text \<open>One step of the start-up: the next outcome of a system call.\<close>

definition start_step :: "world \<Rightarrow> string option \<times> world" where
  "start_step w = (case next_fault (start_faults w) of (f, fs) \<Rightarrow> (f, w\<lparr>start_faults := fs\<rparr>))"

definition trigger_pipe_path :: "string \<Rightarrow> string" where
  "trigger_pipe_path dir = path_join [dir, ''trigger.pipe'']"

text \<open>
  \<open>ensureFIFO\<close>: the parent directory, then \<open>Lstat\<close>: a FIFO is kept, another file is removed and
  replaced, a missing one is created.
\<close>

definition ensure_fifo :: "string \<Rightarrow> world \<Rightarrow> string option \<times> world" where
  "ensure_fifo path w =
     (case start_step w of
        (Some e, w) \<Rightarrow> (Some (''creating FIFO parent dir: '' @ e), w)
      | (None, w) \<Rightarrow>
          (case start_step w of
             (Some e, w) \<Rightarrow> (Some (''checking FIFO at '' @ path @ '': '' @ e), w)
           | (None, w) \<Rightarrow>
               (if trigger_node w = Fifo then (None, w)
                else case (if trigger_node w = OtherFile then start_step w else (None, w)) of
                  (Some e, w) \<Rightarrow> (Some (''removing non-FIFO at '' @ path @ '': '' @ e), w)
                | (None, w) \<Rightarrow>
                    (case start_step (w\<lparr>trigger_node := Absent\<rparr>) of
                       (Some e, w) \<Rightarrow> (Some (''creating FIFO at '' @ path @ '': '' @ e), w)
                     | (None, w) \<Rightarrow> (None, w\<lparr>trigger_node := Fifo\<rparr>)))))"

text \<open>
  \<open>StartPi\<close>: the session directory, the room id file, the FIFO, the skills overlay, and the
  process itself (\<open>startPiProcess\<close>: three pipes and the start).
\<close>

definition pi_pipes :: "string list" where
  "pi_pipes = [''creating stdin pipe: '', ''creating stdout pipe: '', ''creating stderr pipe: '',
     ''starting pi: '']"

fun start_steps :: "string list \<Rightarrow> world \<Rightarrow> string option \<times> world" where
  "start_steps [] w = (None, w)"
| "start_steps (what # ss) w =
     (case start_step w of
        (Some e, w) \<Rightarrow> (Some (what @ e), w)
      | (None, w) \<Rightarrow> start_steps ss w)"

definition start_pi_process :: "string list \<Rightarrow> world \<Rightarrow> (pi_error + nat) \<times> world" where
  "start_pi_process args w =
     (case start_steps pi_pipes w of
        (Some e, w) \<Rightarrow> (Inl (StartFailed e), w)
      | (None, w) \<Rightarrow>
          (let p = next_pid w
           in (Inr p, emit (Spawn p (binary_path (cfg w)) args) (w\<lparr>next_pid := Suc p\<rparr>))))"

definition start_pi :: "string \<Rightarrow> bool \<Rightarrow> world \<Rightarrow> (pi_error + nat) \<times> world" where
  "start_pi room fresh w =
     (case start_step w of
        (Some e, w) \<Rightarrow> (Inl (StartFailed (''creating session dir: '' @ e)), w)
      | (None, w) \<Rightarrow>
     (case start_step w of
        (Some e, w) \<Rightarrow> (Inl (StartFailed (''writing room ID file: '' @ e)), w)
      | (None, w) \<Rightarrow>
     (case ensure_fifo (trigger_pipe_path (session_dir (cfg w))) (w\<lparr>room_file := Some room\<rparr>) of
        (Some e, w) \<Rightarrow> (Inl (StartFailed (''creating trigger FIFO: '' @ e)), w)
      | (None, w) \<Rightarrow>
     (case (if skills (cfg w) = [] then (None, w) else start_step w) of
        (fault, w) \<Rightarrow>
     (case write_skills_config fault (cfg w) of
        Inl e \<Rightarrow> (Inl (StartFailed e), w)
      | Inr (path, _) \<Rightarrow> start_pi_process (build_pi_args (cfg w) fresh path) w)))))"

section \<open>Operations other goroutines call\<close>

definition notify :: "int \<Rightarrow> world \<Rightarrow> world" where
  "notify p w =
     (let w = (if cur_cancel w \<and> p < cur_priority w then w\<lparr>item_cancelled := True\<rparr> else w)
      in w\<lparr>wake := True\<rparr>)"

definition abort :: "world \<Rightarrow> bool \<times> world" where
  "abort w = (if cur_cancel w then (True, w\<lparr>item_cancelled := True\<rparr>) else (False, w))"

definition is_active :: "world \<Rightarrow> bool" where
  "is_active w = (case pi_proc w of None \<Rightarrow> False | Some p \<Rightarrow> is_alive p w)"

definition stop_pi :: "world \<Rightarrow> world" where
  "stop_pi w = (case pi_proc w of None \<Rightarrow> w | Some p \<Rightarrow> kill_pi p (w\<lparr>pi_proc := None\<rparr>))"

definition restart :: "world \<Rightarrow> world" where
  "restart w = stop_pi (w\<lparr>fresh_start := True\<rparr>)"

text \<open>\<open>Compact\<close> up to its wait: an error text, or the channel on which the outcome will come.\<close>

definition compact_request :: "world \<Rightarrow> (string + nat) \<times> world" where
  "compact_request w =
     (if \<not> is_active w then (Inl ''no active session'', w)
      else if compact_chan w \<noteq> None then (Inl ''compact already in progress'', w)
      else let ch = next_chan w;
               w = w\<lparr>next_chan := Suc ch, compact_chan := Some ch\<rparr>
           in case with_db (enqueue priority_user source_compact [] []) w of
                (Inl e, w) \<Rightarrow> (Inl (''enqueuing compact: '' @ e), w\<lparr>compact_chan := None\<rparr>)
              | (Inr _, w) \<Rightarrow> (Inr ch, notify priority_user w))"

text \<open>The rest of \<open>Compact\<close>: \<open>None\<close> while neither case of its \<open>select\<close> is ready.\<close>

definition compact_wait :: "nat \<Rightarrow> world \<Rightarrow> compact_outcome option" where
  "compact_wait ch w =
     (case map_of (chans w) ch of
        Some res \<Rightarrow> Some res
      | None \<Rightarrow> if root_cancelled w then Some (Inl (''compact cancelled: '' @ ctx_err)) else None)"

definition set_room_id :: "string \<Rightarrow> world \<Rightarrow> world" where
  "set_room_id r w = w\<lparr>room_id := r\<rparr>"

definition skills_summary :: "world \<Rightarrow> string" where
  "skills_summary w =
     (if skills (cfg w) = [] then ''No skills loaded.''
      else dec_nat (length (skills (cfg w))) @ '' skill(s) loaded:'' @ [CHR 0x0A] @
           concat (map (\<lambda>s. ''- '' @ path_base s @ [CHR 0x0A]) (skills (cfg w))))"

text \<open>
  One tick of the idle reaper: it looks under the lock whether the agent is idle, gives the lock back, and stops
  the agent afterwards; others may come in between.
\<close>

definition reap_look :: "world \<Rightarrow> world" where
  "reap_look w =
     w\<lparr>reap_due := 0 < idle_timeout (cfg w) \<and> \<not> cur_cancel w \<and> is_active w \<and>
         idle_timeout (cfg w) < now_ns w - last_use w\<rparr>"

definition reap_stop :: "world \<Rightarrow> world" where
  "reap_stop w = (if reap_due w then stop_pi (w\<lparr>reap_due := False\<rparr>) else w)"

section \<open>Room, files, and the process of a turn\<close>

definition resolve_room_id :: "world \<Rightarrow> string \<times> world" where
  "resolve_room_id w =
     (if room_id w \<noteq> [] then (room_id w, w)
      else case room_file w of
             None \<Rightarrow> ([], w)
           | Some txt \<Rightarrow> (let i = trim_space txt in (i, w\<lparr>room_id := i\<rparr>)))"

definition read_heartbeat_file :: "world \<Rightarrow> string" where
  "read_heartbeat_file w = (case hb_file w of None \<Rightarrow> [] | Some txt \<Rightarrow> txt)"

definition ensure_pi :: "world \<Rightarrow> (pi_error + nat) \<times> world" where
  "ensure_pi w =
     (case (if is_active w then pi_proc w else None) of
        Some p \<Rightarrow> (Inr p, w)
      | None \<Rightarrow>
          (let fresh = fresh_start w;
               w = w\<lparr>fresh_start := False\<rparr>
           in case resolve_room_id w of (room, w) \<Rightarrow>
                (if ctx_done w then (Inl (Cancelled ''ensurePi cancelled''), w)
                 else case start_pi room fresh w of
                        (Inl e, w) \<Rightarrow> (Inl e, w)
                      | (Inr p, w) \<Rightarrow> (Inr p, w\<lparr>pi_proc := Some p\<rparr>))))"

text \<open>The state of \<open>NewWorker\<close> over a database, a configuration and the surroundings.\<close>

definition new_worker ::
  "db \<Rightarrow> lib \<Rightarrow> pi_config \<Rightarrow> string \<Rightarrow> string \<Rightarrow> int \<Rightarrow> world" where
  "new_worker d l c hb tr t =
     \<lparr>wdb = d, wlib = l, cfg = c, hb_prompt = hb, hb_interval = 0, trigger_prompt = tr, room_id = [], pi_proc = None,
      fresh_start = False, last_use = t, cur_priority = - 1, cur_cancel = False,
      item_cancelled = False, root_cancelled = False, compact_chan = None, wake = False,
      dead = [], closed = [], next_pid = 0, next_chan = 0, chans = [], waiters = [], reap_due = False, now_ns = t,
      room_file = None, hb_file = None, trigger_node = Absent, start_faults = [],
      stdin_faults = [], file_faults = [], send_ids = [], be_flavor = MarkdownNone,
      be_streams = False, be_extra = [], out = []\<rparr>"

text \<open>A concrete instance, for the examples.\<close>

definition empty_db :: db where
  "empty_db = \<lparr>inbox = [], inbox_seq = 0, reminders = [], rem_seq = 0, sent = [], faults = []\<rparr>"

definition sample_lib :: lib where
  "sample_lib = \<lparr>print_tab = (\<lambda>_. True), json_error = (\<lambda>_. ''unexpected end of JSON input''),
     datetime = Some\<rparr>"

definition sample_world :: world where
  "sample_world = new_worker empty_db sample_lib sample_config ''check'' ''trigger'' 0"

lemmas sample_defs = sample_world_def new_worker_def empty_db_def sample_lib_def sample_config_def

end
