(* ===== verification/App.thy ===== *)
theory App
  imports Worker_State
begin

text \<open>
  The business logic of \<open>app.go\<close>: the dispatch of an inbound message to a command or into the
  inbox, the quoting of the message replied to, the extraction of \<open>sendfile\<close> tags from a reply and
  its delivery, and the one-line summaries of tool calls. Each handler is one step on the
  state; only \<open>handleCompact\<close> waits in the middle, and is split there.
\<close>

section \<open>Tags that send a file\<close>

text \<open>The character class \<open>\s\<close> of Go's regular expressions.\<close>

definition re_space :: "char \<Rightarrow> bool" where
  "re_space c \<longleftrightarrow> c \<in> {CHR 0x09, CHR 0x0A, CHR 0x0C, CHR 0x0D, CHR 0x20}"

definition open_tag :: string where "open_tag = ''<sendfile>''"
definition close_tag :: string where "close_tag = ''</sendfile>''"

text \<open>
  The pattern \<open><sendfile>\s*(.*?)\s*</sendfile>\<close> at the front of a string. The first \<open>\s*\<close> takes
  all the space there is; the group takes the fewest characters, none of them a newline,
  such that space and the closing tag follow. (Taking less space first never helps: what
  would match then matches with the space skipped as well, and the longer skip is preferred.)
\<close>

definition close_after :: "string \<Rightarrow> string option" where
  "close_after s =
     (let t = dropWhile re_space s
      in if has_prefix t close_tag then Some (drop (length close_tag) t) else None)"

fun scan_body :: "string \<Rightarrow> (string \<times> string) option" where
  "scan_body s =
     (case close_after s of
        Some rest \<Rightarrow> Some ([], rest)
      | None \<Rightarrow>
          (case s of
             [] \<Rightarrow> None
           | c # cs \<Rightarrow>
               (if c = CHR 0x0A then None
                else case scan_body cs of
                       None \<Rightarrow> None
                     | Some (body, rest) \<Rightarrow> Some (c # body, rest))))"

declare scan_body.simps [simp del]

definition match_tag :: "string \<Rightarrow> (string \<times> string) option" where
  "match_tag s =
     (if has_prefix s open_tag then scan_body (dropWhile re_space (drop (length open_tag) s))
      else None)"

lemma close_after_length: "close_after s = Some rest \<Longrightarrow> length rest < length s"
  using length_dropWhile_le [of re_space s] has_prefix_length [of "dropWhile re_space s" close_tag]
  by (auto simp: close_after_def Let_def close_tag_def split: if_splits)

lemma scan_body_length: "scan_body s = Some (b, rest) \<Longrightarrow> length rest < length s"
proof (induction s arbitrary: b)
  case Nil
  then show ?case
    by (subst (asm) scan_body.simps) (auto split: option.splits dest: close_after_length)
next
  case (Cons c cs)
  from Cons.prems show ?case
    by (subst (asm) scan_body.simps)
       (fastforce split: option.splits if_splits dest: close_after_length Cons.IH)
qed

lemma match_tag_length: "match_tag s = Some (b, rest) \<Longrightarrow> length rest < length s"
  using length_dropWhile_le [of re_space "drop (length open_tag) s"]
  by (auto simp: match_tag_def split: if_splits dest!: scan_body_length)

text \<open>
  \<open>FindAllStringSubmatch\<close> and \<open>ReplaceAllString(text, "")\<close>: matches from left to right without
  overlap; the groups, and the text between the matches.
\<close>

function send_file_matches :: "string \<Rightarrow> string list \<times> string" where
  "send_file_matches s =
     (case s of
        [] \<Rightarrow> ([], [])
      | c # cs \<Rightarrow>
          (case match_tag s of
             Some (body, rest) \<Rightarrow>
               (case send_file_matches rest of (ms, t) \<Rightarrow> (body # ms, t))
           | None \<Rightarrow> (case send_file_matches cs of (ms, t) \<Rightarrow> (ms, c # t))))"
  by pat_completeness auto
termination
  by (relation "measure length") (auto dest!: match_tag_length)

declare send_file_matches.simps [simp del]

definition extract_send_files :: "string \<Rightarrow> string \<times> string list" where
  "extract_send_files txt =
     (case send_file_matches txt of
        (ms, cleaned) \<Rightarrow>
          (if ms = [] then (txt, [])
           else (trim_space cleaned, filter (\<lambda>p. p \<noteq> []) (map trim_space ms))))"

section \<open>Replies\<close>

text \<open>The loop over the files: what is appended to the reply for each one that failed.\<close>

fun send_files :: "string \<Rightarrow> string list \<Rightarrow> world \<Rightarrow> string \<times> world" where
  "send_files conv [] w = ([], w)"
| "send_files conv (fp # fps) w =
     (case send_file conv fp w of
        (fault, w) \<Rightarrow>
          (case send_files conv fps w of
             (errs, w) \<Rightarrow>
               (case fault of
                  None \<Rightarrow> (errs, w)
                | Some e \<Rightarrow> ([CHR 0x0A, CHR 0x0A] @ ''(failed to send file '' @ path_base fp @
                             '': '' @ e @ '')'' @ errs, w))))"

definition put_outbox :: "string \<Rightarrow> string \<Rightarrow> string \<Rightarrow> world \<Rightarrow> world" where
  "put_outbox conv mid txt w = w\<lparr>wdb := outbox_put conv mid txt (wdb w)\<rparr>"

definition send_reply_with_files :: "string \<Rightarrow> string \<Rightarrow> string \<Rightarrow> world \<Rightarrow> world" where
  "send_reply_with_files conv reply rto w =
     (case extract_send_files reply of
        (clean, paths) \<Rightarrow>
          (case send_files conv paths w of
             (errs, w) \<Rightarrow>
               (let clean = clean @ errs
                in if clean = [] then w
                   else case send_message conv clean rto w of
                          (sent_id, w) \<Rightarrow> put_outbox conv sent_id clean w)))"

section \<open>Commands\<close>

definition say :: "string \<Rightarrow> string \<Rightarrow> world \<Rightarrow> world" where
  "say conv txt w = snd (send_message conv txt [] w)"

text \<open>The em dash, as UTF-8.\<close>

definition em_dash :: string where "em_dash = [CHR 0xE2, CHR 0x80, CHR 0x94]"

definition help_text :: string where
  "help_text = join [CHR 0x0A]
     [''Available commands:'',
      ''  !help    '' @ em_dash @ '' Show this help message'',
      ''  !restart '' @ em_dash @ '' Kill the current session and start fresh'',
      ''  !stop    '' @ em_dash @ '' Abort the currently running agent turn'',
      ''  !compact '' @ em_dash @ '' Compact conversation context to reduce token usage'',
      ''  !skills  '' @ em_dash @ '' List loaded skills'']"

definition handle_help :: "message \<Rightarrow> world \<Rightarrow> world" where
  "handle_help msg w = say (conversation_id msg) help_text w"

definition handle_restart :: "message \<Rightarrow> world \<Rightarrow> world" where
  "handle_restart msg w =
     say (conversation_id msg)
       ''Session restarted. Next message starts a fresh session (previous context discarded).''
       (restart (emit (ResetConv (conversation_id msg)) w))"

definition handle_stop :: "message \<Rightarrow> world \<Rightarrow> world" where
  "handle_stop msg w =
     (if \<not> is_active w then say (conversation_id msg) ''No active session.'' w
      else case abort w of
             (True, w) \<Rightarrow> say (conversation_id msg) ''Aborted current operation.'' w
           | (False, w) \<Rightarrow> say (conversation_id msg) ''Nothing running to stop.'' w)"

text \<open>
  What \<open>handleCompact\<close> says once the outcome is there. A missing result without an error would
  be a nil dereference; the worker never sends one (\<open>compact_outcome_present\<close> in the theory
  \<open>Pi_Turn\<close>), and here it leaves the state alone.
\<close>

definition compact_reply :: "string \<Rightarrow> compact_outcome \<Rightarrow> world \<Rightarrow> world" where
  "compact_reply conv res w =
     (case res of
        Inl e \<Rightarrow> say conv (''Compaction failed: '' @ e) w
      | Inr r \<Rightarrow>
          (case r of
             None \<Rightarrow> w
           | Some r \<Rightarrow> say conv (''Compacted conversation (was '' @ dec_int (cr_tokens_before r) @
                '' tokens).'' @ [CHR 0x0A] @ ''Summary: '' @ cr_summary r) w))"

definition handle_compact :: "message \<Rightarrow> world \<Rightarrow> world" where
  "handle_compact msg w =
     (if \<not> is_active w then say (conversation_id msg) ''No active session to compact.'' w
      else case compact_request w of
             (Inl e, w) \<Rightarrow> compact_reply (conversation_id msg) (Inl e) w
           | (Inr ch, w) \<Rightarrow> w\<lparr>waiters := waiters w @ [(ch, conversation_id msg)]\<rparr>)"

text \<open>The waiting handler goes on when its channel or its context is ready.\<close>

definition compact_resume :: "nat \<Rightarrow> world \<Rightarrow> world" where
  "compact_resume ch w =
     (case (map_of (waiters w) ch, compact_wait ch w) of
        (Some conv, Some res) \<Rightarrow>
          compact_reply conv res (w\<lparr>waiters := filter (\<lambda>(c, _). c \<noteq> ch) (waiters w)\<rparr>)
      | _ \<Rightarrow> w)"

definition handle_skills :: "message \<Rightarrow> world \<Rightarrow> world" where
  "handle_skills msg w = say (conversation_id msg) (skills_summary w) w"

section \<open>Prompts\<close>

definition get_outbox :: "string \<Rightarrow> string \<Rightarrow> world \<Rightarrow> string \<times> world" where
  "get_outbox conv mid w = with_db (outbox_get conv mid) w"

definition no_quote_text :: string where
  "no_quote_text = ''[user replied to a message whose content is unavailable '' @ em_dash @
     '' ask for clarification if their message is unclear]'' @ [CHR 0x0A]"

definition build_prompt_text :: "message \<Rightarrow> world \<Rightarrow> string \<times> world" where
  "build_prompt_text msg w =
     (if reply_to_id msg = [] then (msg_text msg, w)
      else case get_outbox (conversation_id msg) (reply_to_id msg) w of
             (quoted, w) \<Rightarrow>
               (if quoted \<noteq> []
                then (''[user replied to message: '' @ go_quote (print_tab (wlib w)) quoted @ '']'' @
                      [CHR 0x0A] @ msg_text msg, w)
                else (no_quote_text @ msg_text msg, w)))"

definition handle_prompt :: "message \<Rightarrow> world \<Rightarrow> world" where
  "handle_prompt msg w =
     (let w = set_room_id (conversation_id msg) w
      in case build_prompt_text msg w of
           (prompt, w) \<Rightarrow>
             (case with_db (enqueue priority_user source_user prompt (reply_to_id msg)) w of
                (Inl e, w) \<Rightarrow> say (conversation_id msg) (''Error: '' @ e) w
              | (Inr _, w) \<Rightarrow> notify priority_user w))"

definition handle_message :: "message \<Rightarrow> world \<Rightarrow> world" where
  "handle_message msg w =
     (let w = put_outbox (conversation_id msg) (message_id msg) (msg_text msg) w;
          cmd = trim_space (msg_text msg)
      in if cmd = ''!help'' then handle_help msg w
         else if cmd = ''!restart'' then handle_restart msg w
         else if cmd = ''!stop'' then handle_stop msg w
         else if cmd = ''!compact'' then handle_compact msg w
         else if cmd = ''!skills'' then handle_skills msg w
         else handle_prompt msg w)"

section \<open>Tool calls and the system prompt\<close>

definition wrench :: string where "wrench = [CHR 0xF0, CHR 0x9F, CHR 0x94, CHR 0xA7]"
definition page_icon :: string where "page_icon = [CHR 0xF0, CHR 0x9F, CHR 0x93, CHR 0x84]"
definition memo_icon :: string where "memo_icon = [CHR 0xF0, CHR 0x9F, CHR 0x93, CHR 0x9D]"
definition pencil_icon :: string where
  "pencil_icon = [CHR 0xE2, CHR 0x9C, CHR 0x8F, CHR 0xEF, CHR 0xB8, CHR 0x8F]"

definition nl :: string where "nl = [CHR 0x0A]"

definition format_bash_call ::
  "(string \<times> json) list \<Rightarrow> markdown_flavor \<Rightarrow> string" where
  "format_bash_call args flavor =
     (case any_map_get args ''command'' of
        Some (JStr cmd) \<Rightarrow>
          (case flavor of
             MarkdownFull \<Rightarrow> wrench @ nl @ ''```sh'' @ nl @ cmd @ nl @ ''```''
           | MarkdownBasic \<Rightarrow> wrench @ nl @ ''```'' @ nl @ cmd @ nl @ ''```''
           | MarkdownNone \<Rightarrow> wrench @ '' '' @ cmd)
      | _ \<Rightarrow> wrench @ '' bash'')"

definition format_path_call ::
  "(string \<times> json) list \<Rightarrow> markdown_flavor \<Rightarrow> string \<Rightarrow> string \<Rightarrow> string" where
  "format_path_call args flavor pre fallback =
     (case any_map_get args ''path'' of
        Some (JStr p) \<Rightarrow>
          (if flavor = MarkdownNone then pre @ '' '' @ p else pre @ '' `'' @ p @ ''`'')
      | _ \<Rightarrow> pre @ '' '' @ fallback)"

definition format_tool_call ::
  "string \<Rightarrow> (string \<times> json) list \<Rightarrow> markdown_flavor \<Rightarrow> string" where
  "format_tool_call tool args flavor =
     (if tool = ''bash'' then format_bash_call args flavor
      else if tool = ''read'' then format_path_call args flavor (page_icon @ '' reading'') ''file''
      else if tool = ''edit'' then format_path_call args flavor (pencil_icon @ '' editing'') ''file''
      else if tool = ''write'' then format_path_call args flavor (memo_icon @ '' writing'') ''file''
      else wrench @ '' '' @ tool)"

definition app_system_prompt :: "string \<Rightarrow> world \<Rightarrow> string" where
  "app_system_prompt base w =
     (if be_extra w = [] then base
      else trim_right base nl @ nl @ nl @ be_extra w)"

section \<open>Lemmas: the tags\<close>

text \<open>A path that survives the tags: one line, no angle bracket, trimmed, not empty.\<close>

definition plain_path :: "string \<Rightarrow> bool" where
  "plain_path p \<longleftrightarrow> p \<noteq> [] \<and> CHR 0x0A \<notin> set p \<and> CHR ''<'' \<notin> set p \<and> trim_space p = p"

definition tagged :: "string \<Rightarrow> string" where
  "tagged p = open_tag @ p @ close_tag"

lemma plain_path_first: "plain_path (c # p) \<Longrightarrow> \<not> re_space c"
proof
  assume p: "plain_path (c # p)" and c: "re_space c"
  from p have "strip_one space_runes (c # p) = None"
    by (metis plain_path_def trim_space_clean(1))
  with c show False by (auto simp: re_space_def space_runes_def split: if_splits)
qed

lemma close_after_tag [simp]: "close_after (close_tag @ s) = Some s"
  by (simp add: close_after_def close_tag_def re_space_def has_prefix_def)

lemma close_after_other:
  assumes "CHR ''<'' \<notin> set p" "\<not> (\<forall>c \<in> set p. re_space c)"
  shows "close_after (p @ s) = None"
proof -
  obtain c q where q: "dropWhile re_space p = c # q"
    using assms(2) by (cases "dropWhile re_space p") (auto simp: dropWhile_eq_Nil_conv)
  then have "c \<in> set p" by (metis list.set_intros(1) set_dropWhileD)
  then have "c \<noteq> CHR ''<''" using assms(1) by auto
  moreover have "dropWhile re_space (p @ s) = c # q @ s"
    using q assms(2) dropWhile_append1 [of _ p re_space s] by auto
  ultimately show ?thesis by (simp add: close_after_def close_tag_def)
qed

lemma plain_path_last: "plain_path p \<Longrightarrow> \<not> re_space (last p)"
proof
  assume p: "plain_path p" and c: "re_space (last p)"
  then obtain q where q: "p = q @ [last p]" by (metis append_butlast_last_id plain_path_def)
  from p have "strip_one (map rev space_runes) (rev p) = None"
    by (metis plain_path_def trim_space_clean(2))
  moreover have "rev p = last p # rev q" using q by (metis rev_eq_Cons_iff rev_rev_ident rev_append rev_singleton_conv)
  ultimately show False using c
    by (auto simp: re_space_def space_runes_def split: if_splits)
qed

lemma scan_body_path:
  assumes "p \<noteq> []" "CHR 0x0A \<notin> set p" "CHR ''<'' \<notin> set p" "\<not> re_space (last p)"
  shows "scan_body (p @ close_tag @ s) = Some (p, s)"
  using assms
proof (induction p)
  case (Cons c p)
  have nc: "close_after ((c # p) @ close_tag @ s) = None"
    by (rule close_after_other) (use Cons.prems in \<open>auto split: if_splits\<close>)
  have rec: "scan_body (p @ close_tag @ s) = Some (p, s)"
  proof (cases "p = []")
    case True
    then show ?thesis by (subst scan_body.simps) simp
  next
    case False
    with Cons show ?thesis by simp
  qed
  show ?case
    by (subst scan_body.simps) (use nc rec Cons.prems in auto)
qed simp

lemma match_tag_tagged:
  assumes "plain_path p"
  shows "match_tag (tagged p @ s) = Some (p, s)"
proof -
  obtain c q where p: "p = c # q" using assms by (cases p) (auto simp: plain_path_def)
  then have "dropWhile re_space (p @ close_tag @ s) = p @ close_tag @ s"
    using plain_path_first assms by simp
  moreover have "scan_body (p @ close_tag @ s) = Some (p, s)"
    by (rule scan_body_path) (use assms plain_path_last in \<open>auto simp: plain_path_def\<close>)
  ultimately show ?thesis
    by (simp add: match_tag_def tagged_def open_tag_def has_prefix_def)
qed

lemma matches_text: "CHR ''<'' \<notin> set t \<Longrightarrow>
   send_file_matches (t @ s) = (case send_file_matches s of (ms, u) \<Rightarrow> (ms, t @ u))"
proof (induction t)
  case (Cons c t)
  then have "match_tag (c # t @ s) = None"
    by (auto simp: match_tag_def open_tag_def)
  with Cons show ?case
    by (subst send_file_matches.simps) (auto split: prod.splits)
qed simp

lemma matches_tagged:
  "plain_path p \<Longrightarrow>
   send_file_matches (tagged p @ s) = (case send_file_matches s of (ms, u) \<Rightarrow> (p # ms, u))"
  using match_tag_tagged [of p s]
  by (subst send_file_matches.simps) (auto simp: tagged_def open_tag_def split: prod.splits)

lemma matches_pieces:
  assumes "CHR ''<'' \<notin> set t0" "\<forall>(p, t) \<in> set ps. plain_path p \<and> CHR ''<'' \<notin> set t"
  shows "send_file_matches (t0 @ concat (map (\<lambda>(p, t). tagged p @ t) ps)) =
    (map fst ps, t0 @ concat (map snd ps))"
  using assms
proof (induction ps arbitrary: t0)
  case Nil
  have "send_file_matches [] = ([], [])" by (simp add: send_file_matches.simps)
  with Nil matches_text [of t0 "[]"] show ?case by simp
next
  case (Cons pt ps)
  obtain p t where pt: "pt = (p, t)" by (cases pt)
  have ih: "send_file_matches (t @ concat (map (\<lambda>(p, t). tagged p @ t) ps)) =
      (map fst ps, t @ concat (map snd ps))"
    using Cons.IH [of t] Cons.prems pt by auto
  show ?case
    using Cons.prems pt
    by (simp add: matches_text matches_tagged ih)
qed

section \<open>Properties\<close>

text \<open>
  C21. Files named in a reply: a reply made of text and tags with plain paths yields exactly those paths,
  in order, and the text with the tags taken out and trimmed; a reply without a tag is unchanged.
\<close>

theorem send_files_roundtrip:
  assumes "CHR ''<'' \<notin> set t0" "\<forall>(p, t) \<in> set ps. plain_path p \<and> CHR ''<'' \<notin> set t"
  shows "extract_send_files (t0 @ concat (map (\<lambda>(p, t). tagged p @ t) ps)) =
    (if ps = [] then (t0, [])
     else (trim_space (t0 @ concat (map snd ps)), map fst ps))"
proof -
  have "map trim_space (map fst ps) = map fst ps"
    by (rule map_idI) (use assms in \<open>auto simp: plain_path_def\<close>)
  moreover have "filter (\<lambda>p. p \<noteq> []) (map fst ps) = map fst ps"
    using assms by (auto simp: plain_path_def filter_id_conv)
  ultimately have "filter (\<lambda>p. p \<noteq> []) (map trim_space (map fst ps)) = map fst ps"
    by (simp del: map_map)
  then show ?thesis
    using matches_pieces [OF assms] by (auto simp: extract_send_files_def simp del: map_map)
qed

lemma trim_space_path: "trim_space ''/tmp/a.png'' = ''/tmp/a.png''"
  by (rule trim_space_id) (simp_all add: space_runes_def)

theorem send_files_roundtrip_witness:
  "extract_send_files (''see '' @ tagged ''/tmp/a.png'' @ ''!'') =
   (trim_space ''see !'', [''/tmp/a.png''])"
  using send_files_roundtrip [of "''see ''" "[(''/tmp/a.png'', ''!'')]"]
  by (simp add: plain_path_def trim_space_path)

lemma outbox_get_frame: "\<exists>fs. snd (outbox_get c m d) = d\<lparr>faults := fs\<rparr>"
proof (cases "m = []")
  case True
  then show ?thesis by (intro exI [of _ "faults d"]) (simp add: outbox_get_def)
next
  case False
  then show ?thesis
    by (cases d rule: sql_cases [where stmt = "\<lambda>d. (find (sent_key c m) (sent d), d)"])
       (auto simp: outbox_get_def q_get_outbox_def split: option.splits)
qed

lemma build_prompt_frame:
  "\<exists>fs. snd (build_prompt_text msg w) = w\<lparr>wdb := wdb w\<lparr>faults := fs\<rparr>\<rparr>"
proof (cases "reply_to_id msg = []")
  case True
  then show ?thesis by (intro exI [of _ "faults (wdb w)"]) (simp add: build_prompt_text_def)
next
  case False
  with outbox_get_frame [of "conversation_id msg" "reply_to_id msg" "wdb w"] show ?thesis
    by (auto simp: build_prompt_text_def get_outbox_def with_db_def split: prod.splits)
qed

text \<open>
  C22. Quoting a message that is replied to: the prompt is one header line, whatever the quoted message
  contains, followed by the user's text unchanged.
\<close>

theorem reply_quote_one_line:
  assumes "reply_to_id msg \<noteq> []"
  shows "\<exists>header. CHR 0x0A \<notin> set header \<and> has_prefix header ''[user replied to '' \<and>
    fst (build_prompt_text msg w) = header @ [CHR 0x0A] @ msg_text msg"
proof -
  obtain q w' where g: "get_outbox (conversation_id msg) (reply_to_id msg) w = (q, w')"
    by (cases "get_outbox (conversation_id msg) (reply_to_id msg) w")
  let ?h = "if q \<noteq> [] then ''[user replied to message: '' @ go_quote (print_tab (wlib w')) q @ '']''
    else ''[user replied to a message whose content is unavailable '' @ em_dash @
      '' ask for clarification if their message is unclear]''"
  have "CHR 0x0A \<notin> set ?h"
    using no_control_line [OF go_quote_control, of "print_tab (wlib w')" q]
    by (simp add: em_dash_def)
  moreover have "has_prefix ?h ''[user replied to ''" by simp
  moreover have "fst (build_prompt_text msg w) = ?h @ [CHR 0x0A] @ msg_text msg"
    using assms g by (simp add: build_prompt_text_def no_quote_text_def)
  ultimately show ?thesis by blast
qed

definition sample_msg :: message where
  "sample_msg = \<lparr>conversation_id = ''room'', sender_id = ''alice'', msg_text = ''hello'',
     message_id = ''m2'', reply_to_id = ''m1''\<rparr>"

theorem reply_quote_one_line_witness:
  "\<exists>header. CHR 0x0A \<notin> set header \<and>
    fst (build_prompt_text sample_msg sample_world) = header @ [CHR 0x0A] @ ''hello''"
  using reply_quote_one_line [of sample_msg sample_world] by (auto simp: sample_msg_def)

text \<open>
  C15. A message that is no command either becomes exactly one pending user item, ending in the message's
  text, the worker is woken and a running item of lower urgency is cancelled; or, when the
  database refuses it, the sender is told and nothing is pending that was not before.
\<close>

theorem message_enqueued_or_reported:
  assumes "trim_space (msg_text msg) \<notin>
    {''!help'', ''!restart'', ''!stop'', ''!compact'', ''!skills''}"
  shows "(\<exists>row. inbox (wdb (handle_message msg w)) = inbox (wdb w) @ [row] \<and>
      priority row = priority_user \<and> source row = source_user \<and>
      reply_to row = reply_to_id msg \<and> has_suffix (content row) (msg_text msg) \<and>
      wake (handle_message msg w) \<and>
      (cur_cancel w \<and> priority_user < cur_priority w \<longrightarrow> item_cancelled (handle_message msg w))) \<or>
    (inbox (wdb (handle_message msg w)) = inbox (wdb w) \<and>
      (\<exists>e. out (handle_message msg w) =
        out w @ [SendMsg (conversation_id msg) (''Error: '' @ e) []]))"
proof -
  define w1 where "w1 = set_room_id (conversation_id msg)
    (put_outbox (conversation_id msg) (message_id msg) (msg_text msg) w)"
  have run: "handle_message msg w = (case build_prompt_text msg w1 of (prompt, w) \<Rightarrow>
      (case with_db (enqueue priority_user source_user prompt (reply_to_id msg)) w of
         (Inl e, w) \<Rightarrow> say (conversation_id msg) (''Error: '' @ e) w
       | (Inr _, w) \<Rightarrow> notify priority_user w))"
    using assms by (simp add: handle_message_def handle_prompt_def w1_def Let_def)
  have w1: "inbox (wdb w1) = inbox (wdb w)" "out w1 = out w" "cur_cancel w1 = cur_cancel w"
    "cur_priority w1 = cur_priority w"
    by (simp_all add: w1_def set_room_id_def put_outbox_def frame_simps)
  obtain p w2 where bp: "build_prompt_text msg w1 = (p, w2)" by (cases "build_prompt_text msg w1")
  obtain fs where w2: "w2 = w1\<lparr>wdb := wdb w1\<lparr>faults := fs\<rparr>\<rparr>"
    using build_prompt_frame [of msg w1] bp by auto
  have suf: "has_suffix p (msg_text msg)"
    using bp by (auto simp: build_prompt_text_def no_quote_text_def has_suffix_def
        split: if_splits prod.splits)
  obtain f fs' where nf: "next_fault fs = (f, fs')" by (cases "next_fault fs")
  show ?thesis
  proof (cases f)
    case None
    then show ?thesis
      using enqueue_run [of "wdb w2" fs' priority_user source_user p "reply_to_id msg"] nf w2 suf w1
      by (simp add: run bp with_db_def notify_def Let_def)
  next
    case (Some e)
    then show ?thesis
      using enqueue_fail [of "wdb w2" e fs' priority_user source_user p "reply_to_id msg"] nf w2 w1
      by (simp add: run bp with_db_def say_def send_message_def emit_def Let_def split: list.splits)
  qed
qed

lemma trim_space_hello: "trim_space ''hello'' = ''hello''"
  by (rule trim_space_id) (simp_all add: space_runes_def)

theorem message_enqueued_or_reported_witness:
  "length (inbox (wdb (handle_message sample_msg sample_world))) = 1"
proof -
  have quiet: "out (handle_message sample_msg sample_world) = []" by code_simp
  have trimmed: "trim_space (msg_text sample_msg) = ''hello''"
    by (simp add: sample_msg_def trim_space_hello)
  show ?thesis
    using message_enqueued_or_reported [of sample_msg sample_world] quiet
    by (auto simp: trimmed sample_defs)
qed

end
