(* ===== verification/Scheduler.thy ===== *)
theory Scheduler
  imports Worker_State
begin

text \<open>
  The sources of work other than the user: the heartbeat ticker, the reminder dispatcher
  (\<open>heartbeat.go\<close>) and the trigger pipe (\<open>trigger_pipe.go\<close>), each tick or line one step on the
  state; and the prompts built from them.
\<close>

section \<open>Heartbeats\<close>

definition heartbeat_tick :: "world \<Rightarrow> world" where
  "heartbeat_tick w =
     (if hb_interval w \<le> 0 then w
      else case with_db enqueue_heartbeat w of
             (Inl e, w) \<Rightarrow> w
           | (Inr inserted, w) \<Rightarrow> if inserted then notify priority_heartbeat w else w)"

definition heartbeat_item :: "string \<Rightarrow> string option" where
  "heartbeat_item line =
     (case cut_prefix (trim_space line) ''- '' of
        (txt, ok) \<Rightarrow>
          (if \<not> ok then None
           else let txt = trim_space txt
                in if txt = [] \<or> has_prefix txt ''[paused]'' then None else Some txt))"

definition parse_heartbeat_items :: "string \<Rightarrow> string list" where
  "parse_heartbeat_items cnt = List.map_filter heartbeat_item (split_on CHR 0x0A cnt)"

definition build_heartbeat_prompt :: "string \<Rightarrow> string list \<Rightarrow> string" where
  "build_heartbeat_prompt base items =
     base @ [CHR 0x0A, CHR 0x0A] @ ''Standing checks:'' @ [CHR 0x0A] @
     concat (map (\<lambda>it. ''- '' @ it @ [CHR 0x0A]) items)"

definition should_suppress_reply :: "string \<Rightarrow> string \<Rightarrow> bool" where
  "should_suppress_reply reply src \<longleftrightarrow>
     (src = source_heartbeat \<and> contains reply ''HEARTBEAT_OK'') \<or> reply = []"

section \<open>Reminders\<close>

definition reminder_content :: "reminder_row \<Rightarrow> string" where
  "reminder_content r = ''Reminder (set for '' @ fire_at r @ ''): '' @ rem_prompt r"

text \<open>
  The rows are already deleted when the loop runs; a reminder that cannot be enqueued is inserted
  again, and is lost when that fails too.
\<close>

fun fire_reminders :: "reminder_row list \<Rightarrow> world \<Rightarrow> world" where
  "fire_reminders [] w = w"
| "fire_reminders (r # rs) w =
     (case with_db (enqueue priority_trigger source_trigger (reminder_content r) []) w of
        (Inl e, w) \<Rightarrow> fire_reminders rs (snd (with_db (q_insert_reminder (fire_at r) (rem_prompt r)) w))
      | (Inr _, w) \<Rightarrow> fire_reminders rs (notify priority_trigger w))"

definition dispatch_due_reminders :: "world \<Rightarrow> world" where
  "dispatch_due_reminders w =
     (case with_db (q_due_reminders (datetime (wlib w)) (rfc3339 (now_ns w div 1000000000))) w of
        (Inl e, w) \<Rightarrow> w
      | (Inr due, w) \<Rightarrow> fire_reminders due w)"

section \<open>The trigger pipe\<close>

text \<open>One line read from the FIFO.\<close>

definition trigger_line :: "string \<Rightarrow> world \<Rightarrow> world" where
  "trigger_line txt w =
     (let line = trim_space txt
      in if line = [] \<or> root_cancelled w then w
         else case with_db (enqueue priority_trigger source_trigger line []) w of
                (Inl e, w) \<Rightarrow> w
              | (Inr _, w) \<Rightarrow> notify priority_trigger w)"

definition build_trigger_prompt :: "string \<Rightarrow> string \<Rightarrow> string" where
  "build_trigger_prompt base cnt =
     base @ [CHR 0x0A, CHR 0x0A] @ ''--- External trigger ---'' @ [CHR 0x0A] @ cnt @
     [CHR 0x0A] @ ''--- end trigger ---''"

section \<open>Lemmas: checklist items\<close>

definition plain_item :: "string \<Rightarrow> bool" where
  "plain_item it \<longleftrightarrow> it \<noteq> [] \<and> CHR 0x0A \<notin> set it \<and> trim_space it = it \<and>
     \<not> has_prefix it ''[paused]''"

lemma trim_space_bullet:
  assumes "it \<noteq> []" "trim_space it = it"
  shows "trim_space (''- '' @ it) = ''- '' @ it"
proof (rule trim_space_id)
  show "strip_one space_runes (''- '' @ it) = None"
    by (simp add: space_runes_def)
  have rv: "strip_one (map rev space_runes) (rev it) = None"
    by (metis assms(2) trim_space_clean(2))
  have "\<forall>r \<in> set (map rev space_runes). CHR 0x20 \<notin> set (tl r)"
    by (simp add: space_runes_def)
  from strip_one_append [OF rv _ this, of "''-''"] assms(1)
  show "strip_one (map rev space_runes) (rev (''- '' @ it)) = None" by simp
qed

lemma heartbeat_item_bullet: "plain_item it \<Longrightarrow> heartbeat_item (''- '' @ it) = Some it"
  using trim_space_bullet [of it] by (simp add: heartbeat_item_def plain_item_def cut_prefix_def)

lemma heartbeat_item_Nil [simp]: "heartbeat_item [] = None"
  by (simp add: heartbeat_item_def cut_prefix_def)

lemma heartbeat_item_title [simp]: "heartbeat_item ''Standing checks:'' = None"
proof -
  have "trim_space ''Standing checks:'' = ''Standing checks:''"
    by (rule trim_space_id) (simp_all add: space_runes_def)
  then show ?thesis by (simp add: heartbeat_item_def cut_prefix_def)
qed

lemma split_bullets:
  "\<forall>it \<in> set items. CHR 0x0A \<notin> set it \<Longrightarrow>
   split_on CHR 0x0A (concat (map (\<lambda>it. ''- '' @ it @ [CHR 0x0A]) items)) =
     map (\<lambda>it. ''- '' @ it) items @ [[]]"
proof (induction items)
  case (Cons it items)
  then show ?case
    using split_on_append [of "CHR 0x0A" "''- '' @ it"
        "concat (map (\<lambda>it. ''- '' @ it @ [CHR 0x0A]) items)"]
    by simp
qed simp

lemma items_of_bullets:
  "\<forall>it \<in> set items. plain_item it \<Longrightarrow>
   List.map_filter heartbeat_item (map (\<lambda>it. ''- '' @ it) items @ [[]]) = items"
proof (induction items)
  case Nil
  then show ?case by (simp add: List.map_filter_simps)
next
  case (Cons it items)
  then show ?case
    using heartbeat_item_bullet [of it] by (simp add: List.map_filter_simps)
qed

lemma map_filter_append: "List.map_filter f (xs @ ys) = List.map_filter f xs @ List.map_filter f ys"
  by (simp add: List.map_filter_def)

section \<open>Lemmas: reminders\<close>

text \<open>No two consecutive statements fail.\<close>

fun calm :: "outcomes \<Rightarrow> bool" where
  "calm (Some a # Some b # fs) = False"
| "calm (_ # fs) = calm fs"
| "calm [] = True"

lemma calm_after: "calm fs \<Longrightarrow> next_fault fs = (f, fs') \<Longrightarrow> calm fs'"
  by (cases fs rule: calm.cases) (auto split: list.splits)

lemma calm_failure:
  "calm fs \<Longrightarrow> next_fault fs = (Some m, fs') \<Longrightarrow> \<exists>fs''. next_fault fs' = (None, fs'') \<and> calm fs''"
  by (cases fs rule: calm.cases) (auto split: list.splits)

lemma mset_map_partition:
  "mset (map f (filter P xs)) + mset (map f (filter (\<lambda>x. \<not> P x) xs)) = mset (map f xs)"
  by (induction xs) auto

definition trigger_rows_of :: "reminder_row list \<Rightarrow> nat \<Rightarrow> inbox_row list" where
  "trigger_rows_of rs n = map (\<lambda>(i, r). \<lparr>row_id = i, priority = priority_trigger,
     source = source_trigger, content = reminder_content r, reply_to = []\<rparr>)
     (zip [Suc n..<Suc n + length rs] rs)"

lemma trigger_rows_Cons: "trigger_rows_of (r # rs) n =
   \<lparr>row_id = Suc n, priority = priority_trigger, source = source_trigger,
    content = reminder_content r, reply_to = []\<rparr> # trigger_rows_of rs (Suc n)"
  by (simp add: trigger_rows_of_def upt_rec)

lemma trigger_rows_Nil [simp]: "trigger_rows_of [] n = []"
  by (simp add: trigger_rows_of_def)

abbreviation rem_data :: "reminder_row \<Rightarrow> string \<times> string" where
  "rem_data r \<equiv> (fire_at r, rem_prompt r)"

lemma fire_reminders_calm:
  "calm (faults (wdb w)) \<Longrightarrow>
   \<exists>fired kept. mset fired + mset kept = mset due \<and>
     inbox (wdb (fire_reminders due w)) =
       inbox (wdb w) @ trigger_rows_of fired (inbox_seq (wdb w)) \<and>
     map rem_data (reminders (wdb (fire_reminders due w))) =
       map rem_data (reminders (wdb w)) @ map rem_data kept"
proof (induction due arbitrary: w)
  case Nil
  show ?case by (rule exI [of _ "[]"], rule exI [of _ "[]"]) simp
next
  case (Cons r due)
  obtain f fs where nf: "next_fault (faults (wdb w)) = (f, fs)"
    by (cases "next_fault (faults (wdb w))")
  show ?case
  proof (cases f)
    case None
    define w1 where "w1 = notify priority_trigger (snd (with_db
      (enqueue priority_trigger source_trigger (reminder_content r) []) w))"
    have run: "fire_reminders (r # due) w = fire_reminders due w1"
      using enqueue_run nf None by (simp add: with_db_def w1_def)
    have w1: "wdb w1 = (wdb w)\<lparr>faults := fs, inbox := inbox (wdb w) @
        [\<lparr>row_id = Suc (inbox_seq (wdb w)), priority = priority_trigger,
          source = source_trigger, content = reminder_content r, reply_to = []\<rparr>],
        inbox_seq := Suc (inbox_seq (wdb w))\<rparr>"
      using enqueue_run nf None by (simp add: with_db_def w1_def notify_def Let_def)
    have "calm (faults (wdb w1))" using w1 calm_after [OF Cons.prems nf] by simp
    from Cons.IH [OF this] obtain fired kept where ih: "mset fired + mset kept = mset due"
      "inbox (wdb (fire_reminders due w1)) =
         inbox (wdb w1) @ trigger_rows_of fired (inbox_seq (wdb w1))"
      "map rem_data (reminders (wdb (fire_reminders due w1))) =
         map rem_data (reminders (wdb w1)) @ map rem_data kept" by blast
    show ?thesis
      by (rule exI [of _ "r # fired"], rule exI [of _ kept])
         (use ih run w1 in \<open>simp add: trigger_rows_Cons\<close>)
  next
    case (Some m)
    obtain fs' where nf': "next_fault fs = (None, fs')" "calm fs'"
      using calm_failure [OF Cons.prems] nf Some by blast
    define w1 where "w1 = snd (with_db (q_insert_reminder (fire_at r) (rem_prompt r))
      (snd (with_db (enqueue priority_trigger source_trigger (reminder_content r) []) w)))"
    have run: "fire_reminders (r # due) w = fire_reminders due w1"
      using enqueue_fail nf Some by (simp add: with_db_def w1_def)
    have w1: "wdb w1 = (wdb w)\<lparr>faults := fs', reminders := reminders (wdb w) @
        [\<lparr>rem_id = Suc (rem_seq (wdb w)), fire_at = fire_at r, rem_prompt = rem_prompt r\<rparr>],
        rem_seq := Suc (rem_seq (wdb w))\<rparr>"
      using enqueue_fail nf Some nf' by (simp add: with_db_def w1_def q_insert_reminder_def sql_def)
    have "calm (faults (wdb w1))" using w1 nf' by simp
    from Cons.IH [OF this] obtain fired kept where ih: "mset fired + mset kept = mset due"
      "inbox (wdb (fire_reminders due w1)) =
         inbox (wdb w1) @ trigger_rows_of fired (inbox_seq (wdb w1))"
      "map rem_data (reminders (wdb (fire_reminders due w1))) =
         map rem_data (reminders (wdb w1)) @ map rem_data kept" by blast
    show ?thesis
      by (rule exI [of _ fired], rule exI [of _ "r # kept"]) (use ih run w1 in simp)
  qed
qed

section \<open>Properties\<close>

text \<open>
  The heartbeat prompt lists exactly the given checks: reading the items of the prompt back gives the
  items of the base prompt followed by them, in order.
\<close>

theorem heartbeat_items_roundtrip:
  assumes "\<forall>it \<in> set items. plain_item it"
  shows "parse_heartbeat_items (build_heartbeat_prompt base items) =
    parse_heartbeat_items base @ items"
proof -
  have nl: "\<forall>it \<in> set items. CHR 0x0A \<notin> set it" using assms by (auto simp: plain_item_def)
  have "split_on CHR 0x0A (build_heartbeat_prompt base items) =
      split_on CHR 0x0A base @ [[], ''Standing checks:''] @ map (\<lambda>it. ''- '' @ it) items @ [[]]"
    using split_on_append [of "CHR 0x0A" "''Standing checks:''"
        "concat (map (\<lambda>it. ''- '' @ it @ [CHR 0x0A]) items)"] split_bullets [OF nl]
    by (simp add: build_heartbeat_prompt_def split_on_mid)
  then show ?thesis
    using items_of_bullets [OF assms]
    by (simp add: parse_heartbeat_items_def map_filter_append List.map_filter_simps)
qed

lemma trim_space_disk: "trim_space ''disk'' = ''disk''"
  by (rule trim_space_id) (simp_all add: space_runes_def)

theorem heartbeat_items_roundtrip_witness:
  "parse_heartbeat_items (build_heartbeat_prompt [] [''disk'']) = [''disk'']"
  using heartbeat_items_roundtrip [of "[''disk'']" "[]"]
  by (simp add: plain_item_def trim_space_disk parse_heartbeat_items_def List.map_filter_simps)

text \<open>
  C20. No reminder is lost as long as no two consecutive statements fail: every due reminder becomes a
  pending trigger, or it is back in the table with its time and text; the others stay.
\<close>

theorem due_reminders_conserved:
  assumes "calm (faults (wdb w))"
  shows "\<exists>fired kept. mset (map rem_data fired) + mset (map rem_data kept) +
      mset (map rem_data (filter (\<lambda>r. \<not> is_due (datetime (wlib w))
        (rfc3339 (now_ns w div 1000000000)) r) (reminders (wdb w)))) =
      mset (map rem_data (reminders (wdb w))) \<and>
    inbox (wdb (dispatch_due_reminders w)) =
      inbox (wdb w) @ trigger_rows_of fired (inbox_seq (wdb w)) \<and>
    mset (map rem_data (reminders (wdb (dispatch_due_reminders w)))) =
      mset (map rem_data (reminders (wdb w))) - mset (map rem_data fired)"
proof -
  let ?due = "is_due (datetime (wlib w)) (rfc3339 (now_ns w div 1000000000))"
  let ?rs = "reminders (wdb w)"
  have part: "mset (map rem_data (filter ?due ?rs)) + mset (map rem_data (filter (\<lambda>r. \<not> ?due r) ?rs))
      = mset (map rem_data ?rs)"
    by (rule mset_map_partition)
  obtain f fs where nf: "next_fault (faults (wdb w)) = (f, fs)"
    by (cases "next_fault (faults (wdb w))")
  show ?thesis
  proof (cases f)
    case (Some m)
    have "wdb (dispatch_due_reminders w) = (wdb w)\<lparr>faults := fs\<rparr>"
      using nf Some by (simp add: dispatch_due_reminders_def with_db_def q_due_reminders_def sql_def)
    then show ?thesis
      by (intro exI [of _ "[]"] exI [of _ "filter ?due ?rs"]) (use part in simp)
  next
    case None
    define w1 where "w1 = w\<lparr>wdb := (wdb w)\<lparr>faults := fs, reminders := filter (\<lambda>r. \<not> ?due r) ?rs\<rparr>\<rparr>"
    have run: "dispatch_due_reminders w = fire_reminders (filter ?due ?rs) w1"
      using nf None
      by (simp add: dispatch_due_reminders_def with_db_def q_due_reminders_def sql_def w1_def)
    have "calm (faults (wdb w1))" using calm_after [OF assms nf] by (simp add: w1_def)
    from fire_reminders_calm [OF this, of "filter ?due ?rs"] obtain fired kept where
      fk: "mset fired + mset kept = mset (filter ?due ?rs)"
        "inbox (wdb (dispatch_due_reminders w)) =
           inbox (wdb w1) @ trigger_rows_of fired (inbox_seq (wdb w1))"
        "map rem_data (reminders (wdb (dispatch_due_reminders w))) =
           map rem_data (reminders (wdb w1)) @ map rem_data kept"
      unfolding run by blast
    have data: "mset (map rem_data fired) + mset (map rem_data kept) =
        mset (map rem_data (filter ?due ?rs))"
      using fk(1) by (metis image_mset_union mset_map)
    have all: "mset (map rem_data fired) + mset (map rem_data kept) +
        mset (map rem_data (filter (\<lambda>r. \<not> ?due r) ?rs)) = mset (map rem_data ?rs)"
      using data part by simp
    moreover have "mset (map rem_data (reminders (wdb (dispatch_due_reminders w)))) =
        mset (map rem_data (filter (\<lambda>r. \<not> ?due r) ?rs)) + mset (map rem_data kept)"
      using fk(3) by (simp add: w1_def del: mset_map)
    moreover have "\<dots> = mset (map rem_data ?rs) - mset (map rem_data fired)"
      unfolding all [symmetric] by (simp add: add.assoc add.commute)
    ultimately show ?thesis
      using fk(2) by (intro exI [of _ fired] exI [of _ kept]) (simp add: w1_def)
  qed
qed

definition reminder_world :: world where
  "reminder_world = sample_world\<lparr>wdb := empty_db\<lparr>reminders :=
     [\<lparr>rem_id = 1, fire_at = ''1969-01-01T00:00:00Z'', rem_prompt = ''call''\<rparr>],
     faults := [None, Some ''locked'', None]\<rparr>\<rparr>"

theorem due_reminders_conserved_witness:
  "\<exists>fired. mset (map rem_data (reminders (wdb (dispatch_due_reminders reminder_world)))) =
     mset [(''1969-01-01T00:00:00Z'', ''call'')] - mset (map rem_data fired)"
  using due_reminders_conserved [of reminder_world]
  by (auto simp: reminder_world_def sample_defs)

end
