(* ===== verification/Environment.thy ===== *)
theory Environment
  imports App Scheduler
begin

text \<open>
  The surroundings of the worker goroutine. A schedule is a list of \<open>act\<close>s: what the other
  goroutines and the outside do, one atomic step each (a handled message, a line in the
  trigger pipe, a tick, the death of a process, the passing of time), and what the worker's
  own \<open>select\<close>s pick next (an event of the agent, the end of its output, a closed \<open>done\<close>
  channel, a timer, a cancelled context, the wake-up). A theorem about all schedules is a theorem
  about all interleavings at the points where the worker blocks or pauses.

  A blocking function of the worker consumes the schedule: its result is \<open>Done\<close> with what is left
  of it, or \<open>Blocked\<close> in the state in which the schedule ended.
\<close>

section \<open>Schedules\<close>

datatype act =
    AMessage message
  | AResume nat
  | ATrigger string
  | AHeartbeat
  | AReminders
  | AReapLook
  | AReapStop
  | AShutdown
  | ADie nat
  | AElapse nat
  | PEvent rpc_event
  | PReadErr string
  | PEof
  | PDone
  | PTimer
  | PCtx
  | PWake
  | PSync

fun is_pick :: "act \<Rightarrow> bool" where
  "is_pick (PEvent _) = True"
| "is_pick (PReadErr _) = True"
| "is_pick PEof = True"
| "is_pick PDone = True"
| "is_pick PTimer = True"
| "is_pick PCtx = True"
| "is_pick PWake = True"
| "is_pick PSync = True"
| "is_pick _ = False"

text \<open>One step of the surroundings; a pick that is not awaited changes nothing.\<close>

fun env :: "act \<Rightarrow> world \<Rightarrow> world" where
  "env (AMessage msg) w = handle_message msg w"
| "env (AResume ch) w = compact_resume ch w"
| "env (ATrigger line) w = trigger_line line w"
| "env AHeartbeat w = heartbeat_tick w"
| "env AReminders w = dispatch_due_reminders w"
| "env AReapLook w = reap_look w"
| "env AReapStop w = reap_stop w"
| "env AShutdown w = w\<lparr>root_cancelled := True\<rparr>"
| "env (ADie p) w = (if p < next_pid w then w\<lparr>dead := p # dead w\<rparr> else w)"
| "env (AElapse t) w = w\<lparr>now_ns := now_ns w + int t\<rparr>"
| "env _ w = w"

section \<open>Blocking results\<close>

datatype 'a io = Blocked world | Done 'a "act list" world

definition and_io :: "'a io \<Rightarrow> ('a \<Rightarrow> act list \<Rightarrow> world \<Rightarrow> 'b io) \<Rightarrow> 'b io" where
  "and_io m f = (case m of Blocked w \<Rightarrow> Blocked w | Done a as w \<Rightarrow> f a as w)"

fun io_world :: "'a io \<Rightarrow> world" where
  "io_world (Blocked w) = w"
| "io_world (Done a as w) = w"

text \<open>
  A point at which the worker does not block but others may run: their acts up to the next
  \<open>PSync\<close>, or up to a pick that the next blocking function awaits.
\<close>

fun pause :: "act list \<Rightarrow> world \<Rightarrow> act list \<times> world" where
  "pause [] w = ([], w)"
| "pause (a # as) w =
     (if a = PSync then (as, w)
      else if is_pick a then (a # as, w)
      else pause as (env a w))"

lemma and_io_Blocked [simp]: "and_io (Blocked w) f = Blocked w"
  by (simp add: and_io_def)

lemma and_io_Done [simp]: "and_io (Done a as w) f = f a as w"
  by (simp add: and_io_def)

lemma pause_length: "length (fst (pause as w)) \<le> length as"
  by (induction as w rule: pause.induct) auto

end
