(* ===== verification/Core_Machine.thy ===== *)
theory Core_Machine
  imports Environment
begin

text \<open>
  The abstract machine of an instance: the pending items, the agent process and the channel of a
  compact request, and the steps on them. \<open>estep\<close> are the steps of everyone but the worker,
  \<open>cstep\<close> adds the worker's. The theories \<open>Pi_Rpc\<close> and \<open>Worker\<close> show that whatever the
  concrete functions do is a sequence of these steps; the invariants are proved here once, by
  induction over the steps.
\<close>

section \<open>The machine\<close>

record core =
  c_rows :: "inbox_row list"
  c_seq :: nat
  c_pi :: "nat option"
  c_dead :: "nat list"
  c_npid :: nat
  c_chan :: "nat option"
  c_nchan :: nat
  c_answers :: "(nat \<times> compact_outcome) list"
  c_rem :: nat

definition core_of :: "world \<Rightarrow> core" where
  "core_of w = \<lparr>c_rows = inbox (wdb w), c_seq = inbox_seq (wdb w), c_pi = pi_proc w,
     c_dead = dead w, c_npid = next_pid w, c_chan = compact_chan w, c_nchan = next_chan w,
     c_answers = chans w, c_rem = length (reminders (wdb w))\<rparr>"

definition no_heartbeat :: "inbox_row list \<Rightarrow> bool" where
  "no_heartbeat rs \<longleftrightarrow> (\<forall>r \<in> set rs. source r \<noteq> source_heartbeat)"

inductive estep :: "core \<Rightarrow> core \<Rightarrow> bool" where
  e_enqueue: "row_id r = Suc (c_seq c) \<Longrightarrow> source r \<noteq> source_heartbeat \<Longrightarrow>
    estep c (c\<lparr>c_rows := c_rows c @ [r], c_seq := Suc (c_seq c)\<rparr>)"
| e_heartbeat: "row_id r = Suc (c_seq c) \<Longrightarrow> no_heartbeat (c_rows c) \<Longrightarrow>
    estep c (c\<lparr>c_rows := c_rows c @ [r], c_seq := Suc (c_seq c)\<rparr>)"
| e_kill: "c_pi c = Some p \<Longrightarrow> estep c (c\<lparr>c_pi := None, c_dead := p # c_dead c\<rparr>)"
| e_die: "p < c_npid c \<Longrightarrow> estep c (c\<lparr>c_dead := p # c_dead c\<rparr>)"
| e_compact: "row_id r = Suc (c_seq c) \<Longrightarrow> source r = source_compact \<Longrightarrow> c_chan c = None \<Longrightarrow>
    estep c (c\<lparr>c_rows := c_rows c @ [r], c_seq := Suc (c_seq c),
               c_chan := Some (c_nchan c), c_nchan := Suc (c_nchan c)\<rparr>)"
| e_refused: "estep c (c\<lparr>c_nchan := Suc (c_nchan c)\<rparr>)"
| e_reminders: "estep c (c\<lparr>c_rem := n\<rparr>)"

inductive cstep :: "core \<Rightarrow> core \<Rightarrow> bool" where
  s_env: "estep c c' \<Longrightarrow> cstep c c'"
| s_remove: "cstep c (c\<lparr>c_rows := filter P (c_rows c)\<rparr>)"
| s_spawn: "(\<And>p. c_pi c = Some p \<Longrightarrow> p \<in> set (c_dead c)) \<Longrightarrow>
    cstep c (c\<lparr>c_pi := Some (c_npid c), c_npid := Suc (c_npid c)\<rparr>)"
| s_take: "cstep c (c\<lparr>c_chan := None\<rparr>)"
| s_answer: "ch < c_nchan c \<Longrightarrow> c_chan c \<noteq> Some ch \<Longrightarrow> ch \<notin> fst ` set (c_answers c) \<Longrightarrow>
    cstep c (c\<lparr>c_answers := c_answers c @ [(ch, res)]\<rparr>)"

abbreviation esteps :: "core \<Rightarrow> core \<Rightarrow> bool" where "esteps \<equiv> estep\<^sup>*\<^sup>*"
abbreviation csteps :: "core \<Rightarrow> core \<Rightarrow> bool" where "csteps \<equiv> cstep\<^sup>*\<^sup>*"

lemma esteps_csteps: "esteps c c' \<Longrightarrow> csteps c c'"
  by (metis mono_rtranclp s_env)

section \<open>Invariants\<close>

definition proc_ok :: "core \<Rightarrow> bool" where
  "proc_ok c \<longleftrightarrow> (\<forall>p < c_npid c. p \<in> set (c_dead c) \<or> c_pi c = Some p) \<and>
     (\<forall>p. c_pi c = Some p \<longrightarrow> p < c_npid c)"

definition box_ok :: "core \<Rightarrow> bool" where
  "box_ok c \<longleftrightarrow> rows_ok (c_rows c) (c_seq c) \<and>
     length (filter (\<lambda>r. source r = source_heartbeat) (c_rows c)) \<le> 1"

definition chan_ok :: "core \<Rightarrow> bool" where
  "chan_ok c \<longleftrightarrow> distinct (map fst (c_answers c)) \<and>
     (\<forall>ch \<in> fst ` set (c_answers c). ch < c_nchan c \<and> c_chan c \<noteq> Some ch) \<and>
     (\<forall>ch. c_chan c = Some ch \<longrightarrow> ch < c_nchan c)"

lemma compact_not_heartbeat [simp]: "source_compact \<noteq> source_heartbeat"
  "source_user \<noteq> source_heartbeat" "source_trigger \<noteq> source_heartbeat"
  by (simp_all add: source_defs)

lemma no_heartbeat_filter:
  "no_heartbeat rs \<Longrightarrow> filter (\<lambda>r. source r = source_heartbeat) rs = []"
  by (simp add: no_heartbeat_def filter_empty_conv)

lemma proc_ok_estep: "estep c c' \<Longrightarrow> proc_ok c \<Longrightarrow> proc_ok c'"
  by (induction rule: estep.induct) (auto simp: proc_ok_def)

lemma box_ok_estep: "estep c c' \<Longrightarrow> box_ok c \<Longrightarrow> box_ok c'"
  by (induction rule: estep.induct)
     (auto simp: box_ok_def rows_ok_insert no_heartbeat_filter)

lemma chan_ok_estep: "estep c c' \<Longrightarrow> chan_ok c \<Longrightarrow> chan_ok c'"
  by (induction rule: estep.induct) (auto simp: chan_ok_def less_Suc_eq)

lemma filter_both_length: "length (filter (\<lambda>x. P x \<and> Q x) xs) \<le> length (filter Q xs)"
  by (induction xs) auto

lemma proc_ok_cstep: "cstep c c' \<Longrightarrow> proc_ok c \<Longrightarrow> proc_ok c'"
  by (erule cstep.cases; (simp add: proc_ok_estep; fail)?) (auto simp: proc_ok_def less_Suc_eq)

lemma box_ok_cstep: "cstep c c' \<Longrightarrow> box_ok c \<Longrightarrow> box_ok c'"
  by (erule cstep.cases; (simp add: box_ok_estep; fail)?)
     (auto simp: box_ok_def rows_ok_filter intro: le_trans [OF filter_both_length])

lemma chan_ok_cstep: "cstep c c' \<Longrightarrow> chan_ok c \<Longrightarrow> chan_ok c'"
  by (erule cstep.cases; (simp add: chan_ok_estep; fail)?) (auto simp: chan_ok_def)

lemma core_ok_csteps:
  assumes "csteps c c'"
  shows "proc_ok c \<Longrightarrow> proc_ok c'" "box_ok c \<Longrightarrow> box_ok c'" "chan_ok c \<Longrightarrow> chan_ok c'"
  using assms
  by (induction rule: rtranclp_induct; blast intro: proc_ok_cstep box_ok_cstep chan_ok_cstep)+

text \<open>At most one process is alive.\<close>

lemma proc_ok_single:
  "proc_ok c \<Longrightarrow> card {p. p < c_npid c \<and> p \<notin> set (c_dead c)} \<le> 1"
proof -
  assume ok: "proc_ok c"
  have "{p. p < c_npid c \<and> p \<notin> set (c_dead c)} \<subseteq> set_option (c_pi c)"
    using ok by (auto simp: proc_ok_def)
  then have "card {p. p < c_npid c \<and> p \<notin> set (c_dead c)} \<le> card (set_option (c_pi c))"
    by (intro card_mono) auto
  also have "\<dots> \<le> 1" by (cases "c_pi c") auto
  finally show ?thesis .
qed

text \<open>
  Steps of the others never answer a channel, and never put a channel back that was taken: what
  the worker needs between taking a request and answering it.
\<close>

definition owed :: "nat \<Rightarrow> core \<Rightarrow> bool" where
  "owed ch c \<longleftrightarrow> ch < c_nchan c \<and> c_chan c \<noteq> Some ch \<and> ch \<notin> fst ` set (c_answers c)"

lemma owed_estep: "estep c c' \<Longrightarrow> owed ch c \<Longrightarrow> owed ch c'"
  by (induction rule: estep.induct) (auto simp: owed_def)

lemma owed_esteps: "esteps c c' \<Longrightarrow> owed ch c \<Longrightarrow> owed ch c'"
  by (induction rule: rtranclp_induct) (auto intro: owed_estep)

lemma answers_estep: "estep c c' \<Longrightarrow> c_answers c' = c_answers c"
  by (induction rule: estep.induct) auto

lemma answers_esteps: "esteps c c' \<Longrightarrow> c_answers c' = c_answers c"
  by (induction rule: rtranclp_induct) (auto dest: answers_estep)

section \<open>The operations that do not block\<close>

named_theorems core_frame

lemma core_of_emit [core_frame]: "core_of (emit e w) = core_of w"
  by (simp add: core_of_def emit_def)

lemma core_of_say [core_frame]: "core_of (snd (send_message c t r w)) = core_of w"
  "core_of (say c t w) = core_of w"
  by (simp_all add: core_of_def emit_def send_message_def say_def Let_def split: list.splits)

lemma core_of_put_outbox [core_frame]: "core_of (put_outbox c m t w) = core_of w"
  by (simp add: core_of_def put_outbox_def frame_simps)

lemma core_of_send_file [core_frame]: "core_of (snd (send_file c p w)) = core_of w"
  by (simp add: core_of_def emit_def send_file_def Let_def split: prod.splits)

lemma core_of_send_command [core_frame]: "core_of (snd (send_command p j w)) = core_of w"
  by (auto simp: core_of_def emit_def send_command_def split: prod.splits option.splits)

lemma core_of_updates [core_frame]:
  "core_of (w\<lparr>room_id := x1\<rparr>) = core_of w" "core_of (w\<lparr>fresh_start := x2\<rparr>) = core_of w"
  "core_of (w\<lparr>last_use := x3\<rparr>) = core_of w" "core_of (w\<lparr>cur_priority := x4\<rparr>) = core_of w"
  "core_of (w\<lparr>cur_cancel := x5\<rparr>) = core_of w" "core_of (w\<lparr>item_cancelled := x6\<rparr>) = core_of w"
  "core_of (w\<lparr>root_cancelled := x7\<rparr>) = core_of w" "core_of (w\<lparr>wake := x8\<rparr>) = core_of w"
  "core_of (w\<lparr>closed := x9\<rparr>) = core_of w" "core_of (w\<lparr>waiters := x10\<rparr>) = core_of w"
  "core_of (w\<lparr>now_ns := x11\<rparr>) = core_of w" "core_of (w\<lparr>room_file := x12\<rparr>) = core_of w"
  "core_of (w\<lparr>trigger_node := x13\<rparr>) = core_of w" "core_of (w\<lparr>start_faults := x14\<rparr>) = core_of w"
  "core_of (w\<lparr>send_ids := x15\<rparr>) = core_of w" "core_of (w\<lparr>reap_due := x16\<rparr>) = core_of w"
  "core_of (w\<lparr>wdb := wdb w\<lparr>faults := fs\<rparr>\<rparr>) = core_of w"
  by (simp_all add: core_of_def)

lemma core_of_set_room [core_frame]: "core_of (set_room_id r w) = core_of w"
  by (simp add: set_room_id_def core_of_def)

lemma core_of_notify [core_frame]: "core_of (notify p w) = core_of w"
  by (simp add: core_of_def notify_def Let_def)

lemma core_of_abort [core_frame]: "core_of (snd (abort w)) = core_of w"
  by (simp add: core_of_def abort_def)

lemma core_of_resolve [core_frame]: "core_of (snd (resolve_room_id w)) = core_of w"
  by (simp add: core_of_def resolve_room_id_def Let_def split: option.splits)

lemma core_of_send_files [core_frame]: "core_of (snd (send_files c fps w)) = core_of w"
proof (induction fps arbitrary: w)
  case (Cons fp fps)
  show ?case
    using Cons core_of_send_file [of c fp w]
    by (auto split: prod.splits option.splits) (metis snd_conv)+
qed simp

lemma core_of_reply [core_frame]: "core_of (send_reply_with_files c t r w) = core_of w"
proof -
  obtain clean paths where e: "extract_send_files t = (clean, paths)"
    by (cases "extract_send_files t")
  obtain errs w' where s: "send_files c paths w = (errs, w')" by (cases "send_files c paths w")
  have "core_of w' = core_of w" using core_of_send_files [of c paths w] s by simp
  then show ?thesis
    using core_of_say(1) [of c "clean @ errs" r w']
    by (auto simp: send_reply_with_files_def e s Let_def core_of_put_outbox split: prod.splits)
qed

lemma core_of_build_prompt [core_frame]: "core_of (snd (build_prompt_text msg w)) = core_of w"
  using build_prompt_frame [of msg w] by (auto simp: core_frame)

text \<open>Enqueueing an item that is no heartbeat is a step, or changes nothing when it fails.\<close>

lemma enqueue_esteps:
  assumes "src \<noteq> source_heartbeat"
  shows "esteps (core_of w) (core_of (snd (with_db (enqueue p src cnt rto) w)))"
proof -
  obtain f fs where nf: "next_fault (faults (wdb w)) = (f, fs)"
    by (cases "next_fault (faults (wdb w))")
  show ?thesis
  proof (cases f)
    case None
    have "estep (core_of w) (core_of (snd (with_db (enqueue p src cnt rto) w)))"
      using nf None assms estep.e_enqueue [where c = "core_of w" and
          r = "\<lparr>row_id = Suc (inbox_seq (wdb w)), priority = p, source = src, content = cnt,
            reply_to = rto\<rparr>"]
      by (simp add: with_db_def enqueue_run core_of_def)
    then show ?thesis by blast
  next
    case (Some m)
    with nf show ?thesis by (simp add: with_db_def enqueue_fail core_of_def)
  qed
qed

lemma stop_pi_esteps: "esteps (core_of w) (core_of (stop_pi w))"
proof (cases "pi_proc w")
  case None
  then show ?thesis by (simp add: stop_pi_def)
next
  case (Some p)
  then have "estep (core_of w) (core_of (stop_pi w))"
    using estep.e_kill [of "core_of w" p]
    by (simp add: stop_pi_def kill_pi_def emit_def core_of_def)
  then show ?thesis by blast
qed

lemma restart_esteps: "esteps (core_of w) (core_of (restart w))"
  using stop_pi_esteps [of "w\<lparr>fresh_start := True\<rparr>"] by (simp add: restart_def core_frame)

lemma reap_esteps: "esteps (core_of w) (core_of (reap_look w))" "esteps (core_of w) (core_of (reap_stop w))"
  using stop_pi_esteps [of "w\<lparr>reap_due := False\<rparr>"] by (simp_all add: reap_look_def reap_stop_def core_frame)

lemma heartbeat_esteps: "esteps (core_of w) (core_of (heartbeat_tick w))"
proof -
  obtain f fs where nf: "next_fault (faults (wdb w)) = (f, fs)"
    by (cases "next_fault (faults (wdb w))")
  let ?r = "\<lparr>row_id = Suc (inbox_seq (wdb w)), priority = priority_heartbeat,
    source = ''heartbeat'', content = [], reply_to = []\<rparr>"
  show ?thesis
  proof (cases "hb_interval w \<le> 0 \<or> f \<noteq> None \<or> \<not> no_heartbeat (inbox (wdb w))")
    case True
    then have "core_of (heartbeat_tick w) = core_of w"
      using nf by (auto simp: heartbeat_tick_def with_db_def inbox_sql_defs no_heartbeat_def
          source_heartbeat_def core_of_def notify_def Let_def split: option.splits)
    then show ?thesis by simp
  next
    case False
    then have "core_of (heartbeat_tick w) =
        core_of w\<lparr>c_rows := inbox (wdb w) @ [?r], c_seq := Suc (inbox_seq (wdb w))\<rparr>"
      using nf by (auto simp: heartbeat_tick_def with_db_def inbox_sql_defs no_heartbeat_def
          source_heartbeat_def core_of_def notify_def Let_def)
    moreover have "estep (core_of w)
        (core_of w\<lparr>c_rows := inbox (wdb w) @ [?r], c_seq := Suc (inbox_seq (wdb w))\<rparr>)"
      using False estep.e_heartbeat [of ?r "core_of w"] by (simp add: core_of_def)
    ultimately show ?thesis by simp
  qed
qed

lemma insert_reminder_esteps:
  "esteps (core_of w) (core_of (snd (with_db (q_insert_reminder f p) w)))"
proof (cases "fst (next_fault (faults (wdb w)))")
  case None
  have "core_of (snd (with_db (q_insert_reminder f p) w)) =
      core_of w\<lparr>c_rem := Suc (length (reminders (wdb w)))\<rparr>"
    using None by (cases "next_fault (faults (wdb w))")
      (simp add: with_db_def q_insert_reminder_def sql_def core_of_def)
  then show ?thesis using estep.e_reminders [of "core_of w"] by auto
next
  case (Some m)
  then show ?thesis
    by (cases "next_fault (faults (wdb w))")
       (simp add: with_db_def q_insert_reminder_def sql_def core_of_def)
qed

lemma fire_reminders_esteps: "esteps (core_of w) (core_of (fire_reminders rs w))"
proof (induction rs arbitrary: w)
  case (Cons r rs)
  let ?run = "with_db (enqueue priority_trigger source_trigger (reminder_content r) []) w"
  obtain res w' where run: "?run = (res, w')" by (cases ?run)
  have step: "esteps (core_of w) (core_of w')"
    using enqueue_esteps [of source_trigger w priority_trigger "reminder_content r" "[]"] run by simp
  show ?case
  proof (cases res)
    case (Inl e)
    then show ?thesis
      using step run Cons.IH [of "snd (with_db (q_insert_reminder (fire_at r) (rem_prompt r)) w')"]
        insert_reminder_esteps [of w' "fire_at r" "rem_prompt r"]
      by (auto intro: rtranclp_trans)
  next
    case (Inr u)
    then show ?thesis
      using step run Cons.IH [of "notify priority_trigger w'"] by (simp add: core_frame)
  qed
qed simp

lemma reminders_esteps: "esteps (core_of w) (core_of (dispatch_due_reminders w))"
proof -
  let ?q = "with_db (q_due_reminders (datetime (wlib w)) (rfc3339 (now_ns w div 1000000000))) w"
  obtain res w' where run: "?q = (res, w')" by (cases ?q)
  have "esteps (core_of w) (core_of w')"
  proof (cases "fst (next_fault (faults (wdb w)))")
    case None
    have "core_of w' = core_of w\<lparr>c_rem := c_rem (core_of w')\<rparr>"
      using run None by (cases "next_fault (faults (wdb w))")
        (auto simp: with_db_def q_due_reminders_def sql_def core_of_def)
    then show ?thesis using estep.e_reminders [of "core_of w"] by (metis r_into_rtranclp)
  next
    case (Some m)
    then show ?thesis
      using run by (cases "next_fault (faults (wdb w))")
        (auto simp: with_db_def q_due_reminders_def sql_def core_of_def)
  qed
  then show ?thesis
    using fire_reminders_esteps [of w']
    by (auto simp: dispatch_due_reminders_def run split: sum.splits intro: rtranclp_trans)
qed

lemma trigger_esteps: "esteps (core_of w) (core_of (trigger_line txt w))"
proof (cases "trim_space txt = [] \<or> root_cancelled w")
  case True
  then show ?thesis by (auto simp: trigger_line_def Let_def)
next
  case False
  let ?run = "with_db (enqueue priority_trigger source_trigger (trim_space txt) []) w"
  obtain res w' where run: "?run = (res, w')" by (cases ?run)
  have "esteps (core_of w) (core_of w')"
    using enqueue_esteps [of source_trigger w priority_trigger "trim_space txt" "[]"] run by simp
  with run False show ?thesis
    by (auto simp: trigger_line_def Let_def core_frame split: sum.splits)
qed

lemma compact_reply_core [core_frame]: "core_of (compact_reply conv res w) = core_of w"
  by (simp add: compact_reply_def core_frame split: sum.splits option.splits)

lemma compact_request_esteps: "esteps (core_of w) (core_of (snd (compact_request w)))"
proof (cases "\<not> is_active w \<or> compact_chan w \<noteq> None")
  case True
  then show ?thesis by (auto simp: compact_request_def)
next
  case False
  obtain f fs where nf: "next_fault (faults (wdb w)) = (f, fs)"
    by (cases "next_fault (faults (wdb w))")
  let ?r = "\<lparr>row_id = Suc (inbox_seq (wdb w)), priority = priority_user, source = source_compact,
    content = [], reply_to = []\<rparr>"
  show ?thesis
  proof (cases f)
    case None
    have "estep (core_of w) (core_of w\<lparr>c_rows := inbox (wdb w) @ [?r],
        c_seq := Suc (inbox_seq (wdb w)), c_chan := Some (next_chan w), c_nchan := Suc (next_chan w)\<rparr>)"
      using False estep.e_compact [of ?r "core_of w"] by (simp add: core_of_def)
    moreover have "core_of (snd (compact_request w)) = core_of w\<lparr>c_rows := inbox (wdb w) @ [?r],
        c_seq := Suc (inbox_seq (wdb w)), c_chan := Some (next_chan w), c_nchan := Suc (next_chan w)\<rparr>"
      using nf None False
      by (simp add: compact_request_def with_db_def enqueue_run core_frame Let_def)
         (simp add: core_of_def)
    ultimately show ?thesis by simp
  next
    case (Some m)
    have "core_of (snd (compact_request w)) = core_of w\<lparr>c_nchan := Suc (c_nchan (core_of w))\<rparr>"
      using nf Some False
      by (simp add: compact_request_def with_db_def enqueue_fail core_of_def Let_def)
    then show ?thesis using estep.e_refused [of "core_of w"] by auto
  qed
qed

lemma handle_prompt_esteps: "esteps (core_of w) (core_of (handle_prompt msg w))"
proof -
  let ?w1 = "set_room_id (conversation_id msg) w"
  obtain p w2 where bp: "build_prompt_text msg ?w1 = (p, w2)" by (cases "build_prompt_text msg ?w1")
  have c: "core_of w2 = core_of w"
    using core_of_build_prompt [of msg ?w1] by (simp add: bp core_of_set_room)
  let ?run = "with_db (enqueue priority_user source_user p (reply_to_id msg)) w2"
  obtain res w3 where run: "?run = (res, w3)" by (cases ?run)
  have "esteps (core_of w) (core_of w3)"
    using enqueue_esteps [of source_user w2 priority_user p "reply_to_id msg"] run c by simp
  then show ?thesis
    by (simp add: handle_prompt_def bp run Let_def core_frame split: sum.splits)
qed

lemma handle_compact_esteps: "esteps (core_of w) (core_of (handle_compact msg w))"
proof -
  obtain res w' where run: "compact_request w = (res, w')" by (cases "compact_request w")
  then have "esteps (core_of w) (core_of w')" using compact_request_esteps [of w] by simp
  then show ?thesis
    by (auto simp: handle_compact_def run core_frame split: sum.splits)
qed

lemma handle_message_esteps: "esteps (core_of w) (core_of (handle_message msg w))"
proof -
  let ?w = "put_outbox (conversation_id msg) (message_id msg) (msg_text msg) w"
  have w: "core_of ?w = core_of w" by (rule core_of_put_outbox)
  have "core_of (handle_stop msg ?w) = core_of ?w"
    by (simp add: handle_stop_def abort_def core_frame)
  moreover have "esteps (core_of w) (core_of (handle_restart msg ?w))"
    using restart_esteps [of "emit (ResetConv (conversation_id msg)) ?w"] w
    by (simp add: handle_restart_def core_frame)
  ultimately show ?thesis
    using handle_prompt_esteps [of ?w msg] handle_compact_esteps [of ?w msg] w
    by (simp add: handle_message_def Let_def handle_help_def handle_skills_def core_frame)
qed

lemma env_esteps: "esteps (core_of w) (core_of (env a w))"
proof (cases a)
  case (AResume ch)
  then show ?thesis
    by (auto simp: compact_resume_def core_frame split: option.splits)
next
  case (ADie p)
  have "estep (core_of w) (core_of (w\<lparr>dead := p # dead w\<rparr>))" if "p < next_pid w"
    using estep.e_die [of p "core_of w"] that by (simp add: core_of_def)
  with ADie show ?thesis by auto
qed (auto simp: core_frame handle_message_esteps trigger_esteps heartbeat_esteps reminders_esteps
      reap_esteps)

lemma pause_esteps: "esteps (core_of w) (core_of (snd (pause as w)))"
  by (induction as w rule: pause.induct) (auto intro: rtranclp_trans env_esteps)

section \<open>The load\<close>

text \<open>
  Pending items and reminders: one step of the surroundings adds at most one. This bounds how
  often the worker's loops go round.
\<close>

definition load :: "world \<Rightarrow> nat" where
  "load w = length (inbox (wdb w)) + length (reminders (wdb w))"

lemma load_core: "core_of w = core_of w' \<Longrightarrow> load w = load w'"
  by (simp add: core_of_def load_def)

lemma load_enqueue: "load (snd (with_db (enqueue p s c r) w)) \<le> Suc (load w)"
  by (cases "next_fault (faults (wdb w))"; cases "fst (next_fault (faults (wdb w)))")
     (simp_all add: with_db_def enqueue_run enqueue_fail load_def)

lemma load_insert_reminder: "load (snd (with_db (q_insert_reminder f p) w)) \<le> Suc (load w)"
  by (cases "next_fault (faults (wdb w))"; cases "fst (next_fault (faults (wdb w)))")
     (simp_all add: with_db_def q_insert_reminder_def sql_def load_def)

lemma load_enqueue_failed:
  "with_db (enqueue p s c r) w = (Inl e, w') \<Longrightarrow> load w' = load w"
  by (cases "next_fault (faults (wdb w))"; cases "fst (next_fault (faults (wdb w)))")
     (auto simp: with_db_def enqueue_run enqueue_fail load_def)

lemma load_fire: "load (fire_reminders rs w) \<le> length rs + load w"
proof (induction rs arbitrary: w)
  case (Cons r rs)
  let ?run = "with_db (enqueue priority_trigger source_trigger (reminder_content r) []) w"
  obtain res w' where run: "?run = (res, w')" by (cases ?run)
  show ?case
  proof (cases res)
    case (Inl e)
    have "load w' = load w" using run Inl load_enqueue_failed by blast
    then show ?thesis
      using run Inl load_insert_reminder [of "fire_at r" "rem_prompt r" w']
        Cons.IH [of "snd (with_db (q_insert_reminder (fire_at r) (rem_prompt r)) w')"]
      by simp
  next
    case (Inr u)
    have "load (notify priority_trigger w') = load w'" by (rule load_core) (simp add: core_frame)
    then show ?thesis
      using run Inr load_enqueue [of priority_trigger source_trigger "reminder_content r" "[]" w]
        Cons.IH [of "notify priority_trigger w'"]
      by simp
  qed
qed simp

lemma load_dispatch: "load (dispatch_due_reminders w) \<le> load w"
proof -
  let ?q = "with_db (q_due_reminders (datetime (wlib w)) (rfc3339 (now_ns w div 1000000000))) w"
  obtain res w' where run: "?q = (res, w')" by (cases ?q)
  show ?thesis
  proof (cases res)
    case (Inl e)
    with run have "load w' = load w"
      by (cases "next_fault (faults (wdb w))"; cases "fst (next_fault (faults (wdb w)))")
         (auto simp: with_db_def q_due_reminders_def sql_def load_def)
    with run Inl show ?thesis by (simp add: dispatch_due_reminders_def)
  next
    case (Inr due)
    with run have "length due + load w' = load w"
      by (cases "next_fault (faults (wdb w))"; cases "fst (next_fault (faults (wdb w)))")
         (auto simp: with_db_def q_due_reminders_def sql_def load_def
           sum_length_filter_compl [of "is_due (datetime (wlib w)) (rfc3339 (now_ns w div 1000000000))"])
    with run Inr load_fire [of due w'] show ?thesis by (simp add: dispatch_due_reminders_def)
  qed
qed

lemma load_frame: "core_of w' = core_of w \<Longrightarrow> load w' \<le> Suc (load w)"
  by (drule load_core) simp

lemma load_stop [simp]: "load (stop_pi w) = load w"
  by (simp add: stop_pi_def kill_pi_def emit_def load_def split: option.splits)

lemma load_message: "load (handle_message msg w) \<le> Suc (load w)"
proof -
  let ?w = "put_outbox (conversation_id msg) (message_id msg) (msg_text msg) w"
  have w: "load ?w = load w" by (rule load_core) (rule core_of_put_outbox)
  have "load (handle_stop msg ?w) = load ?w"
    by (rule load_core) (simp add: handle_stop_def abort_def core_frame)
  moreover have "load (handle_help msg ?w) = load ?w" "load (handle_skills msg ?w) = load ?w"
    by (rule load_core, simp add: handle_help_def handle_skills_def core_frame)+
  moreover have "load (handle_restart msg ?w) = load ?w"
  proof -
    have "load (handle_restart msg ?w) = load (restart (emit (ResetConv (conversation_id msg)) ?w))"
      by (rule load_core) (simp add: handle_restart_def core_frame)
    then show ?thesis by (simp add: restart_def) (simp add: load_def emit_def)
  qed
  moreover have "load (handle_prompt msg ?w) \<le> Suc (load ?w)"
  proof -
    let ?w1 = "set_room_id (conversation_id msg) ?w"
    obtain p w2 where bp: "build_prompt_text msg ?w1 = (p, w2)" by (cases "build_prompt_text msg ?w1")
    have l2: "load w2 = load ?w"
      by (rule load_core) (use core_of_build_prompt [of msg ?w1] in \<open>simp add: bp core_of_set_room\<close>)
    let ?run = "with_db (enqueue priority_user source_user p (reply_to_id msg)) w2"
    obtain res w3 where run: "?run = (res, w3)" by (cases ?run)
    have "load w3 \<le> Suc (load w2)"
      using load_enqueue [of priority_user source_user p "reply_to_id msg" w2] run by simp
    moreover have "load (handle_prompt msg ?w) = load w3"
      by (rule load_core) (simp add: handle_prompt_def bp run Let_def core_frame split: sum.splits)
    ultimately show ?thesis using l2 by simp
  qed
  moreover have "load (handle_compact msg ?w) \<le> Suc (load ?w)"
  proof (cases "is_active ?w \<and> compact_chan ?w = None")
    case False
    then have "load (handle_compact msg ?w) = load ?w"
      by (intro load_core) (auto simp: handle_compact_def compact_request_def core_frame)
    then show ?thesis by simp
  next
    case True
    let ?w1 = "?w\<lparr>next_chan := Suc (next_chan ?w), compact_chan := Some (next_chan ?w)\<rparr>"
    let ?run = "with_db (enqueue priority_user source_compact [] []) ?w1"
    obtain res w3 where run: "?run = (res, w3)" by (cases ?run)
    have "load w3 \<le> Suc (load ?w1)"
      using load_enqueue [of priority_user source_compact "[]" "[]" ?w1] run by simp
    moreover have "load (handle_compact msg ?w) = load w3"
      using True run by (cases res)
        (auto simp: handle_compact_def compact_request_def Let_def load_def notify_def
          compact_reply_def say_def send_message_def emit_def split: list.splits)
    ultimately show ?thesis by (simp add: load_def)
  qed
  ultimately show ?thesis
    using w by (simp add: handle_message_def Let_def)
qed

lemma load_env: "load (env a w) \<le> Suc (load w)"
proof (cases a)
  case (AMessage msg)
  then show ?thesis by (simp add: load_message)
next
  case (AResume ch)
  then show ?thesis
    by (intro load_frame) (auto simp: compact_resume_def core_frame split: option.splits)
next
  case (ATrigger line)
  show ?thesis
  proof (cases "trim_space line = [] \<or> root_cancelled w")
    case True
    with ATrigger show ?thesis by (auto simp: trigger_line_def Let_def)
  next
    case False
    let ?run = "with_db (enqueue priority_trigger source_trigger (trim_space line) []) w"
    obtain res w' where run: "?run = (res, w')" by (cases ?run)
    have "load w' \<le> Suc (load w)"
      using load_enqueue [of priority_trigger source_trigger "trim_space line" "[]" w] run by simp
    moreover have "load (env a w) = load w'"
      by (rule load_core)
         (use ATrigger False run in \<open>auto simp: trigger_line_def Let_def core_frame split: sum.splits\<close>)
    ultimately show ?thesis by simp
  qed
next
  case AHeartbeat
  then show ?thesis
    by (cases "next_fault (faults (wdb w))"; cases "fst (next_fault (faults (wdb w)))")
       (auto simp: heartbeat_tick_def with_db_def inbox_sql_defs load_def notify_def Let_def)
next
  case AReminders
  with load_dispatch [of w] show ?thesis by simp
next
  case AReapLook
  then show ?thesis by (simp add: reap_look_def load_def)
next
  case AReapStop
  have "load (stop_pi (w\<lparr>reap_due := False\<rparr>)) = load (w\<lparr>reap_due := False\<rparr>)" by simp
  with AReapStop show ?thesis by (simp add: reap_stop_def load_def)
qed (auto simp: load_def)

lemma pause_load: "length (fst (pause as w)) + load (snd (pause as w)) \<le> length as + load w"
proof (induction as w rule: pause.induct)
  case (2 a as w)
  show ?case
    using "2.IH" load_env [of a w] by (cases "a = PSync"; cases "is_pick a") auto
qed simp

declare env.simps [simp del]

end
