(* ===== verification/Pi_Rpc.thy ===== *)
theory Pi_Rpc
  imports Core_Machine
begin

text \<open>
  The conversation with the agent process (\<open>pi_rpc.go\<close>): sending a command and draining the
  process's events until the command's terminal event, with the abort on cancellation, the
  rescinding of provider errors by a retry or a compaction within the grace window, and the
  compact command.

  A waiter is a function from its state and an event; \<open>drain_events\<close> runs one. The locale
  \<open>event_waiter\<close> is its contract, and what follows for \<open>drain_events\<close> is proved there once; the
  waiters of a prompt and of a compact command are its interpretations.
\<close>

section \<open>One event\<close>

fun next_event :: "nat \<Rightarrow> act list \<Rightarrow> world \<Rightarrow> (pi_error + rpc_event) io" where
  "next_event p [] w = Blocked w"
| "next_event p (a # as) w =
     (case a of
        PEvent evt \<Rightarrow> Done (Inr evt) as w
      | PReadErr msg \<Rightarrow> Done (Inl (ReadFailed msg)) as w
      | PEof \<Rightarrow> Done (Inl ClosedStdout) as w
      | PDone \<Rightarrow> if is_alive p w then next_event p as w else Done (Inl Exited) as w
      | _ \<Rightarrow> next_event p as (env a w))"

definition auto_respond_extension_ui :: "nat \<Rightarrow> rpc_event \<Rightarrow> world \<Rightarrow> world" where
  "auto_respond_extension_ui p evt w =
     (if ev_method evt \<in> {''select'', ''confirm'', ''input'', ''editor''}
      then snd (send_command p (ui_cancel_command (ev_id evt)) w) else w)"

text \<open>
  \<open>onToolCall\<close> is set by \<open>ensurePi\<close> exactly when tool calls are to be shown; it sends the summary to
  the room.
\<close>

definition on_tool_call :: "rpc_event \<Rightarrow> world \<Rightarrow> world" where
  "on_tool_call evt w =
     (if show_tool_calls (cfg w)
      then case resolve_room_id w of
             (room, w) \<Rightarrow> say room (format_tool_call (ev_tool_name evt) (ev_args evt) (be_flavor w)) w
      else w)"

definition handle_side_effects :: "nat \<Rightarrow> rpc_event \<Rightarrow> world \<Rightarrow> pi_error option \<times> world" where
  "handle_side_effects p evt w =
     (if ev_type evt = rpc_ui_request then (None, auto_respond_extension_ui p evt w)
      else if ev_type evt = rpc_tool_start then (None, on_tool_call evt w)
      else if ev_type evt = rpc_response \<and> ev_success evt = Some False
      then (Some (Rejected (ev_command evt) (ev_error evt)), w)
      else (None, w))"

section \<open>Draining\<close>

type_synonym 's waiter = "'s \<Rightarrow> rpc_event \<Rightarrow> world \<Rightarrow> (pi_error + bool) \<times> 's \<times> world"

text \<open>The check for cancellation before an event is processed: at most one abort per command.\<close>

definition abort_if_done :: "nat \<Rightarrow> bool \<Rightarrow> world \<Rightarrow> bool \<times> world" where
  "abort_if_done p aborted w =
     (if \<not> aborted \<and> ctx_done w then (True, send_abort p w) else (aborted, w))"

lemma next_event_shorter: "next_event p as w = Done r as' w' \<Longrightarrow> length as' < length as"
  by (induction p as w rule: next_event.induct)
     (auto split: act.splits if_splits simp: less_Suc_eq)

function drain_events ::
  "nat \<Rightarrow> 's waiter \<Rightarrow> bool \<Rightarrow> 's \<Rightarrow> act list \<Rightarrow> world \<Rightarrow> (pi_error option \<times> 's) io" where
  "drain_events p h aborted st as w =
     (case next_event p as w of
        Blocked w \<Rightarrow> Blocked w
      | Done (Inl e) as' w \<Rightarrow> Done (Some e, st) as' w
      | Done (Inr evt) as' w \<Rightarrow>
          (case abort_if_done p aborted w of
             (aborted, w) \<Rightarrow>
               (case handle_side_effects p evt w of
                  (Some e, w) \<Rightarrow> Done (Some e, st) as' w
                | (None, w) \<Rightarrow>
                    (case h st evt w of
                       (Inl e, st, w) \<Rightarrow> Done (Some e, st) as' w
                     | (Inr fin, st, w) \<Rightarrow>
                         if fin then Done (None, st) as' w
                         else drain_events p h aborted st as' w))))"
  by pat_completeness auto
termination
  by (relation "measure (\<lambda>(p, h, ab, st, as, w). length as)") (auto dest: next_event_shorter)

declare drain_events.simps [simp del]

section \<open>The waiter of a prompt\<close>

record result_waiter =
  wt_reply :: string
  wt_final_err :: string

definition zero_waiter :: result_waiter where
  "zero_waiter = \<lparr>wt_reply = [], wt_final_err = []\<rparr>"

definition continues_turn :: "string \<Rightarrow> bool" where
  "continues_turn t \<longleftrightarrow> t = rpc_retry_start \<or> t = rpc_compaction_start"

definition handle_agent_end :: "rpc_event \<Rightarrow> result_waiter \<Rightarrow> result_waiter" where
  "handle_agent_end evt st =
     (let l = extract_last_assistant (ev_messages evt);
          st = st\<lparr>wt_reply := ar_text l\<rparr>
      in if ar_stop_reason l = ''error'' then st\<lparr>wt_final_err := ar_error_message l\<rparr> else st)"

text \<open>
  \<open>onDelta\<close>: the conversation and the stream a delta goes to, \<open>None\<close> when it is nil.
\<close>

definition result_handle :: "(string \<times> string) option \<Rightarrow> result_waiter waiter" where
  "result_handle od st evt w =
     (if ev_type evt = rpc_retry_end then
        (if ev_success evt \<noteq> Some True
         then (Inr True, st\<lparr>wt_final_err := ev_final_error evt\<rparr>, w)
         else (Inr False, st, w))
      else if ev_type evt = rpc_message_update then
        (case (od, ev_assistant evt) of
           (Some (conv, stream), Some a) \<Rightarrow>
             if ame_type a = ''text_delta'' \<and> ame_delta a \<noteq> []
             then (Inr False, st, emit (Delta conv stream (ame_delta a)) w)
             else (Inr False, st, w)
         | _ \<Rightarrow> (Inr False, st, w))
      else if ev_type evt = rpc_agent_end then (Inr True, handle_agent_end evt st, w)
      else (Inr False, st, w))"

text \<open>The grace window after an error: the second component is true if the error is rescinded.\<close>

fun grace_drain :: "nat \<Rightarrow> act list \<Rightarrow> world \<Rightarrow> bool io" where
  "grace_drain p [] w = Blocked w"
| "grace_drain p (a # as) w =
     (case a of
        PCtx \<Rightarrow> if ctx_done w then Done False as w else grace_drain p as w
      | PTimer \<Rightarrow> Done False as w
      | PDone \<Rightarrow> if is_alive p w then grace_drain p as w else Done False as w
      | PReadErr msg \<Rightarrow> Done False as w
      | PEof \<Rightarrow> Done False as w
      | PEvent evt \<Rightarrow> if continues_turn (ev_type evt) then Done True as w else grace_drain p as w
      | _ \<Rightarrow> grace_drain p as (env a w))"

lemma grace_drain_shorter: "grace_drain p as w = Done r as' w' \<Longrightarrow> length as' < length as"
  by (induction p as w rule: grace_drain.induct)
     (auto split: act.splits if_splits simp: less_Suc_eq)

lemma drain_events_shorter: "drain_events p h ab st as w = Done r as' w' \<Longrightarrow> length as' < length as"
proof (induction p h ab st as w rule: drain_events.induct)
  case (1 p h ab st as w)
  show ?case
  proof (cases "next_event p as w")
    case (Blocked w1)
    with "1.prems" show ?thesis by (simp add: drain_events.simps)
  next
    case (Done r1 as1 w1)
    have l: "length as1 < length as" using Done by (rule next_event_shorter)
    with "1.prems" Done "1.IH" [OF Done] show ?thesis
      by (subst (asm) drain_events.simps)
         (fastforce split: sum.splits prod.splits option.splits if_splits)
  qed
qed

definition cancelled_or :: "world \<Rightarrow> pi_error \<Rightarrow> pi_error" where
  "cancelled_or w e = (if ctx_done w then Cancelled ''context cancelled'' else e)"

text \<open>The loop of \<open>waitForResult\<close>.\<close>

function result_loop ::
  "nat \<Rightarrow> (string \<times> string) option \<Rightarrow> result_waiter \<Rightarrow> act list \<Rightarrow> world \<Rightarrow>
   (pi_error + result_waiter) io" where
  "result_loop p od st as w =
     (case drain_events p (result_handle od) False st as w of
        Blocked w \<Rightarrow> Blocked w
      | Done (Some e, st) as1 w \<Rightarrow> Done (Inl (cancelled_or w e)) as1 w
      | Done (None, st) as1 w \<Rightarrow>
          (if wt_final_err st = [] then Done (Inr st) as1 w
           else case grace_drain p as1 w of
                  Blocked w \<Rightarrow> Blocked w
                | Done rescinded as2 w \<Rightarrow>
                    (if \<not> rescinded then Done (Inr st) as2 w
                     else result_loop p od (st\<lparr>wt_final_err := []\<rparr>) as2 w)))"
  by pat_completeness auto
termination
  by (relation "measure (\<lambda>(p, od, st, as, w). length as)")
     (auto dest!: drain_events_shorter grace_drain_shorter)

declare result_loop.simps [simp del]

definition request_failed :: "string \<Rightarrow> string" where
  "request_failed e = ''Request failed: '' @ e @ [CHR 0x0A, CHR 0x0A] @
     ''Try `!compact` to shrink the context, or `!restart` for a clean session.''"

definition reply_of :: "result_waiter \<Rightarrow> string" where
  "reply_of st =
     (if wt_reply st = [] \<and> wt_final_err st \<noteq> [] then request_failed (wt_final_err st)
      else wt_reply st)"

definition wait_for_result ::
  "nat \<Rightarrow> (string \<times> string) option \<Rightarrow> act list \<Rightarrow> world \<Rightarrow> (pi_error + string) io" where
  "wait_for_result p od as w =
     and_io (result_loop p od zero_waiter as w) (\<lambda>res as w.
       Done (case res of Inl e \<Rightarrow> Inl e | Inr st \<Rightarrow> Inr (reply_of st)) as w)"

definition send_and_wait ::
  "nat \<Rightarrow> string \<Rightarrow> (string \<times> string) option \<Rightarrow> act list \<Rightarrow> world \<Rightarrow> (pi_error + string) io" where
  "send_and_wait p msg od as w =
     (if \<not> is_alive p w then Done (Inl NotAlive) as w
      else case send_prompt_command p msg w of
             (Some e, w) \<Rightarrow> Done (Inl e) as w
           | (None, w) \<Rightarrow> wait_for_result p od as w)"

section \<open>The compact command\<close>

definition compact_handle :: "compact_result option waiter" where
  "compact_handle st evt w =
     (if ev_type evt \<noteq> rpc_response \<or> ev_command evt \<noteq> ''compact'' then (Inr False, st, w)
      else case Option.bind (ev_data evt) (dec_compact zero_compact) of
             None \<Rightarrow> (Inl (BadCompact (ev_data evt)), st, w)
           | Some cr \<Rightarrow> (Inr True, Some cr, w))"

definition wait_for_compact_response ::
  "nat \<Rightarrow> act list \<Rightarrow> world \<Rightarrow> (pi_error + compact_result option) io" where
  "wait_for_compact_response p as w =
     and_io (drain_events p compact_handle False None as w) (\<lambda>(err, st) as w.
       Done (case err of Some e \<Rightarrow> Inl (cancelled_or w e) | None \<Rightarrow> Inr st) as w)"

definition pi_compact :: "nat \<Rightarrow> act list \<Rightarrow> world \<Rightarrow> (pi_error + compact_result option) io" where
  "pi_compact p as w =
     (if \<not> is_alive p w then Done (Inl NotAlive) as w
      else case send_command p compact_command w of
             (Some e, w) \<Rightarrow> Done (Inl e) as w
           | (None, w) \<Rightarrow> wait_for_compact_response p as w)"

end
