(* ===== verification/Pi_Turn.thy ===== *)
theory Pi_Turn
  imports Pi_Rpc
begin

text \<open>
  What holds of every turn with the agent: the contract of a waiter and its consequences for
  \<open>drain_events\<close>, then for the prompt and the compact command. Draining only takes steps of the
  surroundings on the abstract machine, writes at most one abort, uses up at most as much of
  the schedule as it adds to the load, and returns once its terminal event is delivered.
\<close>

section \<open>What is written to the agent\<close>

text \<open>The abort commands among the effects; the surroundings write none.\<close>

definition is_abort :: "effect \<Rightarrow> bool" where
  "is_abort e \<longleftrightarrow> (\<exists>p. e = Stdin p abort_command)"

definition aborts :: "world \<Rightarrow> nat" where
  "aborts w = length (filter is_abort (out w))"

named_theorems abort_frame

lemma aborts_emit: "aborts (emit e w) = aborts w + (if is_abort e then 1 else 0)"
  by (simp add: aborts_def emit_def)

lemma not_abort [simp]:
  "\<not> is_abort (SendMsg c t r)" "\<not> is_abort (SendFile c f)" "\<not> is_abort (Typing c on)"
  "\<not> is_abort (Delta c s t)" "\<not> is_abort (ResetConv c)" "\<not> is_abort (Killed p)"
  "\<not> is_abort (Spawn p bin args)" "is_abort (Stdin p abort_command)"
  "\<not> is_abort (Stdin p (ui_cancel_command i))" "\<not> is_abort (Stdin p (prompt_command m))"
  "\<not> is_abort (Stdin p compact_command)"
  by (auto simp: is_abort_def abort_command_def ui_cancel_command_def prompt_command_def
      compact_command_def)

lemma aborts_updates [abort_frame]:
  "aborts (w\<lparr>wdb := x0\<rparr>) = aborts w" "aborts (w\<lparr>room_id := x1\<rparr>) = aborts w"
  "aborts (w\<lparr>fresh_start := x2\<rparr>) = aborts w" "aborts (w\<lparr>pi_proc := x3\<rparr>) = aborts w"
  "aborts (w\<lparr>compact_chan := x4\<rparr>) = aborts w" "aborts (w\<lparr>next_chan := x5\<rparr>) = aborts w"
  "aborts (w\<lparr>item_cancelled := x6\<rparr>) = aborts w" "aborts (w\<lparr>root_cancelled := x7\<rparr>) = aborts w"
  "aborts (w\<lparr>wake := x8\<rparr>) = aborts w" "aborts (w\<lparr>closed := x9\<rparr>) = aborts w"
  "aborts (w\<lparr>dead := x10\<rparr>) = aborts w" "aborts (w\<lparr>waiters := x11\<rparr>) = aborts w"
  "aborts (w\<lparr>now_ns := x12\<rparr>) = aborts w" "aborts (w\<lparr>send_ids := x13\<rparr>) = aborts w"
  "aborts (w\<lparr>stdin_faults := x14\<rparr>) = aborts w" "aborts (w\<lparr>reap_due := x15\<rparr>) = aborts w"
  by (simp_all add: aborts_def)

lemma aborts_with_db [abort_frame]: "aborts (snd (with_db f w)) = aborts w"
  by (simp add: with_db_def aborts_updates split: prod.splits)

lemma aborts_say [abort_frame]: "aborts (say c t w) = aborts w"
  by (simp add: say_def send_message_def Let_def abort_frame aborts_emit split: list.splits)

lemma aborts_notify [abort_frame]: "aborts (notify p w) = aborts w"
  by (simp add: notify_def Let_def abort_frame)

lemma aborts_stop [abort_frame]: "aborts (stop_pi w) = aborts w"
  by (simp add: stop_pi_def kill_pi_def abort_frame aborts_emit split: option.splits)

lemma aborts_fire: "aborts (fire_reminders rs w) = aborts w"
proof (induction rs arbitrary: w)
  case (Cons r rs)
  let ?run = "with_db (enqueue priority_trigger source_trigger (reminder_content r) []) w"
  obtain res w' where run: "?run = (res, w')" by (cases ?run)
  then have "aborts w' = aborts w" by (metis aborts_with_db snd_conv)
  with run Cons.IH show ?case by (cases res) (simp_all add: abort_frame)
qed simp

lemma aborts_with_db_case [abort_frame]:
  "with_db f w = (r, w') \<Longrightarrow> aborts w' = aborts w"
  by (metis aborts_with_db snd_conv)

lemma aborts_handle_message: "aborts (handle_message msg w) = aborts w"
proof -
  let ?w = "put_outbox (conversation_id msg) (message_id msg) (msg_text msg) w"
  have w: "aborts ?w = aborts w" by (simp add: put_outbox_def abort_frame)
  have "aborts (handle_prompt msg ?w) = aborts ?w"
  proof -
    obtain fs where "snd (build_prompt_text msg (set_room_id (conversation_id msg) ?w)) =
        set_room_id (conversation_id msg) ?w\<lparr>wdb := wdb (set_room_id (conversation_id msg) ?w)
          \<lparr>faults := fs\<rparr>\<rparr>"
      using build_prompt_frame by blast
    then have "aborts (snd (build_prompt_text msg (set_room_id (conversation_id msg) ?w))) = aborts ?w"
      by (simp add: abort_frame set_room_id_def)
    then show ?thesis
      by (auto simp: handle_prompt_def Let_def abort_frame split: prod.splits sum.splits
          dest!: aborts_with_db_case)
  qed
  moreover have "aborts (handle_compact msg ?w) = aborts ?w"
    by (auto simp: handle_compact_def compact_request_def compact_reply_def Let_def abort_frame
        split: prod.splits sum.splits option.splits if_splits dest!: aborts_with_db_case)
  moreover have "aborts (handle_stop msg ?w) = aborts ?w"
    by (simp add: handle_stop_def abort_def abort_frame)
  ultimately show ?thesis
    using w by (simp add: handle_message_def Let_def handle_help_def handle_skills_def
        handle_restart_def restart_def abort_frame aborts_emit)
qed

lemma aborts_env: "aborts (env a w) = aborts w"
proof (cases a)
  case (AMessage msg)
  then show ?thesis by (simp add: env.simps aborts_handle_message)
next
  case (AResume ch)
  then show ?thesis
    by (auto simp: env.simps compact_resume_def compact_reply_def abort_frame split: option.splits sum.splits)
next
  case (ATrigger line)
  then show ?thesis
    by (auto simp: env.simps trigger_line_def Let_def abort_frame split: prod.splits sum.splits
        dest!: aborts_with_db_case)
next
  case AHeartbeat
  then show ?thesis
    by (auto simp: env.simps heartbeat_tick_def abort_frame split: prod.splits sum.splits
        dest!: aborts_with_db_case)
next
  case AReminders
  then show ?thesis
    by (auto simp: env.simps dispatch_due_reminders_def aborts_fire split: prod.splits sum.splits
        dest!: aborts_with_db_case)
next
  case AReapLook
  then show ?thesis by (simp add: env.simps reap_look_def abort_frame)
next
  case AReapStop
  then show ?thesis by (simp add: env.simps reap_stop_def abort_frame)
qed (auto simp: abort_frame env.simps)

lemma aborts_side_effects [abort_frame]: "aborts (snd (handle_side_effects p evt w)) = aborts w"
proof -
  have "aborts (snd (resolve_room_id w)) = aborts w"
    by (simp add: resolve_room_id_def Let_def abort_frame split: option.splits)
  then have "aborts (on_tool_call evt w) = aborts w"
    by (auto simp: on_tool_call_def abort_frame split: prod.splits)
  moreover have "aborts (auto_respond_extension_ui p evt w) = aborts w"
    by (auto simp: auto_respond_extension_ui_def send_command_def abort_frame aborts_emit
        split: prod.splits option.splits)
  ultimately show ?thesis by (simp add: handle_side_effects_def)
qed

lemma aborts_abort_if_done:
  "abort_if_done p ab w = (ab', w') \<Longrightarrow>
   aborts w' + (if ab' then 0 else 1) \<le> aborts w + (if ab then 0 else 1)"
  by (auto simp: abort_if_done_def send_abort_def send_command_def abort_frame aborts_emit
      split: if_splits prod.splits option.splits)

section \<open>Reading one event\<close>

lemma core_of_side_effects [core_frame]: "core_of (snd (handle_side_effects p evt w)) = core_of w"
proof -
  have "core_of (on_tool_call evt w) = core_of w"
    using core_of_resolve [of w]
    by (cases "resolve_room_id w") (auto simp: on_tool_call_def core_frame)
  then show ?thesis
    by (simp add: handle_side_effects_def auto_respond_extension_ui_def core_frame)
qed

lemma core_of_abort_if_done [core_frame]: "core_of (snd (abort_if_done p ab w)) = core_of w"
  by (simp add: abort_if_done_def send_abort_def core_frame)

lemma next_event_step:
  obtains (now) r where "next_event p (a # as) w = Done r as w"
  | (skip) "next_event p (a # as) w = next_event p as w"
  | (others) "next_event p (a # as) w = next_event p as (env a w)"
  by (cases a; cases "is_alive p w") auto

lemma next_event_esteps: "esteps (core_of w) (core_of (io_world (next_event p as w)))"
proof (induction as arbitrary: w)
  case (Cons a as)
  show ?case
    by (cases rule: next_event_step [of p a as w])
       (auto simp del: next_event.simps intro: Cons.IH rtranclp_trans [OF env_esteps])
qed simp

lemma next_event_aborts: "aborts (io_world (next_event p as w)) = aborts w"
proof (induction as arbitrary: w)
  case (Cons a as)
  show ?case
    by (cases rule: next_event_step [of p a as w])
       (auto simp del: next_event.simps simp: Cons.IH aborts_env)
qed simp

lemma next_event_load:
  "next_event p as w = Done r as' w' \<Longrightarrow> length as' + load w' < length as + load w"
proof (induction as arbitrary: w)
  case (Cons a as)
  from Cons.prems Cons.IH [of w] Cons.IH [of "env a w"] load_env [of a w] show ?case
    by (cases rule: next_event_step [of p a as w]) (auto simp del: next_event.simps)
qed simp

text \<open>What is read is the front of the schedule, and an event or an end of output is enough.\<close>

lemma next_event_reads:
  assumes "a = PEof \<or> (\<exists>evt. a = PEvent evt)"
  shows "\<exists>r w'. next_event p (pre @ a # post) w = Done r post w' \<and>
       r = (case a of PEvent evt \<Rightarrow> Inr evt | _ \<Rightarrow> Inl ClosedStdout) \<or>
     (\<exists>pre'. length pre' < length pre \<and>
       next_event p (pre @ a # post) w = Done r (pre' @ a # post) w')"
proof (induction pre arbitrary: w)
  case Nil
  with assms show ?case by auto
next
  case (Cons b pre)
  have step: ?case if "next_event p ((b # pre) @ a # post) w = next_event p (pre @ a # post) w1" for w1
    using Cons.IH [of w1] that by (auto intro: less_SucI)
  have now: ?case if "next_event p ((b # pre) @ a # post) w = Done r (pre @ a # post) w1" for r w1
    using that by auto
  show ?case
  proof (cases b)
    case PDone
    then show ?thesis using step now by (cases "is_alive p w") auto
  qed (use step now in auto)
qed

lemma next_event_cases:
  assumes "a = PEof \<or> (\<exists>evt. a = PEvent evt)"
  obtains (there) w' where
      "next_event p (pre @ a # post) w =
         Done (case a of PEvent evt \<Rightarrow> Inr evt | _ \<Rightarrow> Inl ClosedStdout) post w'"
    | (before) r pre' w' where "length pre' < length pre"
      "next_event p (pre @ a # post) w = Done r (pre' @ a # post) w'"
  using next_event_reads [OF assms, of p pre post w] by blast

section \<open>The contract of a waiter\<close>

text \<open>
  A waiter leaves the abstract machine alone, writes no abort, and asks to go on exactly when the
  event is not terminal.
\<close>

locale event_waiter =
  fixes h :: "'s waiter"
    and terminal :: "rpc_event \<Rightarrow> bool"
  assumes waiter_core: "core_of (snd (snd (h st evt w))) = core_of w"
    and waiter_aborts: "aborts (snd (snd (h st evt w))) = aborts w"
    and waiter_goes_on: "fst (h st evt w) = Inr False \<longleftrightarrow> \<not> terminal evt"
begin

text \<open>
  One round: an error before the waiter sees the event, an end, or another round with a state
  that is the same on the abstract machine.
\<close>

lemma drain_round:
  obtains (blocked) w1 where "next_event p as w = Blocked w1" "drain_events p h ab st as w = Blocked w1"
  | (ended) evt as1 w1 ab' r w2 where "next_event p as w = Done evt as1 w1"
      "drain_events p h ab st as w = Done r as1 w2" "core_of w2 = core_of w1"
      "aborts w2 + (if ab' then 0 else 1) \<le> aborts w1 + (if ab then 0 else 1)"
  | (again) evt as1 w1 ab' st' w2 where "next_event p as w = Done (Inr evt) as1 w1"
      "drain_events p h ab st as w = drain_events p h ab' st' as1 w2" "core_of w2 = core_of w1"
      "aborts w2 + (if ab' then 0 else 1) \<le> aborts w1 + (if ab then 0 else 1)" "\<not> terminal evt"
proof (cases "next_event p as w")
  case (Blocked w1)
  then show thesis by (intro blocked) (simp_all add: drain_events.simps)
next
  case (Done r as1 w1)
  show thesis
  proof (cases r)
    case (Inl e)
    with Done have "drain_events p h ab st as w = Done (Some e, st) as1 w1"
      by (simp add: drain_events.simps)
    then show thesis by (rule ended [OF Done _ refl order_refl])
  next
    case (Inr evt)
    obtain ab' w2 where ab: "abort_if_done p ab w1 = (ab', w2)" by (cases "abort_if_done p ab w1")
    have c2: "core_of w2 = core_of w1" using core_of_abort_if_done [of p ab w1] ab by simp
    note a2 = aborts_abort_if_done [OF ab]
    obtain e w3 where se: "handle_side_effects p evt w2 = (e, w3)"
      by (cases "handle_side_effects p evt w2")
    have c3: "core_of w3 = core_of w1" "aborts w3 = aborts w2"
      using core_of_side_effects [of p evt w2] aborts_side_effects [of p evt w2] se c2 by auto
    show thesis
    proof (cases e)
      case (Some err)
      have "drain_events p h ab st as w = Done (Some err, st) as1 w3"
        using Done Inr ab se Some by (simp add: drain_events.simps [of p h ab st as])
      then show thesis by (rule ended [OF Done]) (use c3 a2 in simp_all)
    next
      case None
      obtain v st' w4 where hh: "h st evt w3 = (v, st', w4)" by (cases "h st evt w3")
      have c4: "core_of w4 = core_of w1" "aborts w4 = aborts w2"
        using waiter_core [of st evt w3] waiter_aborts [of st evt w3] hh c3 by auto
      show thesis
      proof (cases "v = Inr False")
        case True
        then have "\<not> terminal evt" using waiter_goes_on [of st evt w3] hh by simp
        then show thesis
          using Done Inr ab se None hh c4 a2 True
          by (intro again [of evt as1 w1 ab' st' w4]) (simp_all add: drain_events.simps [of p h ab st as])
      next
        case False
        then obtain r' where "drain_events p h ab st as w = Done r' as1 w4"
          using Done Inr ab se None hh
          by (cases v) (auto simp add: drain_events.simps [of p h ab st as])
        then show thesis by (rule ended [OF Done]) (use c4 a2 in simp_all)
      qed
    qed
  qed
qed

lemma drain_esteps: "esteps (core_of w) (core_of (io_world (drain_events p h ab st as w)))"
proof (induction "length as" arbitrary: as ab st w rule: less_induct)
  case less
  have ne: "esteps (core_of w) (core_of (io_world (next_event p as w)))" by (rule next_event_esteps)
  show ?case
  proof (cases rule: drain_round [of p as w ab st])
    case (again evt as1 w1 ab' st' w2)
    then have "length as1 < length as" using next_event_shorter by blast
    from less(1) [OF this, of w2 ab' st'] ne again show ?thesis by (auto intro: rtranclp_trans)
  qed (use ne in auto)
qed

lemma drain_load:
  "drain_events p h ab st as w = Done r as' w' \<Longrightarrow> length as' + load w' < length as + load w"
proof (induction "length as" arbitrary: as ab st w rule: less_induct)
  case less
  show ?case
  proof (cases rule: drain_round [of p as w ab st])
    case (blocked w1)
    with less(2) show ?thesis by simp
  next
    case (ended evt as1 w1 ab' r' w2)
    then show ?thesis
      using less(2) next_event_load [of p as w] load_core [of w2 w1] by auto
  next
    case (again evt as1 w1 ab' st' w2)
    then have "length as1 < length as" using next_event_shorter by blast
    from less(1) [OF this, of ab' st' w2] less(2) again show ?thesis
      using next_event_load [of p as w] load_core [of w2 w1] by auto
  qed
qed

text \<open>Whatever the schedule, at most one abort is written while one command is awaited.\<close>

lemma drain_aborts:
  "aborts (io_world (drain_events p h ab st as w)) \<le> aborts w + (if ab then 0 else 1)"
proof (induction "length as" arbitrary: as ab st w rule: less_induct)
  case less
  have ne: "aborts (io_world (next_event p as w)) = aborts w" by (rule next_event_aborts)
  show ?case
  proof (cases rule: drain_round [of p as w ab st])
    case (again evt as1 w1 ab' st' w2)
    then have "length as1 < length as" using next_event_shorter by blast
    from less(1) [OF this, of ab' st' w2] ne again show ?thesis
      by (auto split: if_splits)
  qed (use ne in \<open>auto split: if_splits\<close>)
qed

text \<open>
  Once the end of the output or a terminal event is delivered, draining returns: either earlier,
  with that act still ahead, or with exactly what comes after it.
\<close>

lemma drain_returns:
  assumes "a = PEof \<or> (\<exists>evt. a = PEvent evt \<and> terminal evt)"
  shows "(\<exists>r w'. drain_events p h ab st (pre @ a # post) w = Done r post w') \<or>
    (\<exists>r pre' w'. length pre' < length pre \<and>
       drain_events p h ab st (pre @ a # post) w = Done r (pre' @ a # post) w')"
proof (induction "length pre" arbitrary: pre ab st w rule: less_induct)
  case less
  have ev: "a = PEof \<or> (\<exists>evt. a = PEvent evt)" using assms by auto
  from ev show ?case
  proof (cases rule: next_event_cases [of a p pre post w])
    case (there w')
    show ?thesis
    proof (cases rule: drain_round [of p "pre @ a # post" w ab st])
      case (again evt as1 w1 ab' st' w2)
      with there assms show ?thesis by auto
    qed (use there in auto)
  next
    case (before r pre' w')
    show ?thesis
    proof (cases rule: drain_round [of p "pre @ a # post" w ab st])
      case (again evt as1 w1 ab' st' w2)
      with before less(1) [of pre' ab' st' w2] show ?thesis by (auto intro: less_trans)
    qed (use before in auto)
  qed
qed

end

section \<open>The two waiters\<close>

definition prompt_terminal :: "rpc_event \<Rightarrow> bool" where
  "prompt_terminal evt \<longleftrightarrow> ev_type evt = rpc_agent_end \<or>
     (ev_type evt = rpc_retry_end \<and> ev_success evt \<noteq> Some True)"

definition compact_terminal :: "rpc_event \<Rightarrow> bool" where
  "compact_terminal evt \<longleftrightarrow> ev_type evt = rpc_response \<and> ev_command evt = ''compact''"

interpretation prompt_waiter: event_waiter "result_handle od" prompt_terminal for od
proof
  fix st evt w
  show "core_of (snd (snd (result_handle od st evt w))) = core_of w"
    by (simp add: result_handle_def core_frame split: option.splits prod.splits)
  show "aborts (snd (snd (result_handle od st evt w))) = aborts w"
    by (simp add: result_handle_def aborts_emit split: option.splits prod.splits)
  show "fst (result_handle od st evt w) = Inr False \<longleftrightarrow> \<not> prompt_terminal evt"
    by (simp add: result_handle_def prompt_terminal_def rpc_type_defs split: option.splits prod.splits)
qed

interpretation compact_waiter: event_waiter compact_handle compact_terminal
  by unfold_locales
     (auto simp: compact_handle_def compact_terminal_def split: option.splits)

section \<open>The grace window and the loop\<close>

lemma grace_drain_step:
  obtains (now) b where "grace_drain p (a # as) w = Done b as w"
  | (skip) "grace_drain p (a # as) w = grace_drain p as w"
  | (others) "grace_drain p (a # as) w = grace_drain p as (env a w)"
proof (cases a)
  case (PEvent evt)
  with that show thesis by (cases "continues_turn (ev_type evt)") auto
qed (use that in \<open>cases "is_alive p w"; cases "ctx_done w"; auto\<close>)+

lemma grace_drain_esteps: "esteps (core_of w) (core_of (io_world (grace_drain p as w)))"
proof (induction as arbitrary: w)
  case (Cons a as)
  show ?case
    by (cases rule: grace_drain_step [of p a as w])
       (auto simp del: grace_drain.simps intro: Cons.IH rtranclp_trans [OF env_esteps])
qed simp

lemma grace_drain_load:
  "grace_drain p as w = Done r as' w' \<Longrightarrow> length as' + load w' < length as + load w"
proof (induction as arbitrary: w)
  case (Cons a as)
  from Cons.prems Cons.IH [of w] Cons.IH [of "env a w"] load_env [of a w] show ?case
    by (cases rule: grace_drain_step [of p a as w]) (auto simp del: grace_drain.simps)
qed simp

text \<open>An event that does not continue the turn never rescinds an error.\<close>

lemma grace_drain_last:
  "grace_drain p (pre @ [PEvent evt] @ post) w = Done b post w' \<Longrightarrow>
   \<not> continues_turn (ev_type evt) \<Longrightarrow> \<not> b \<or> post = []"
proof (induction pre arbitrary: w)
  case Nil
  then have "grace_drain p post w = Done b post w'" by simp
  then show ?case using grace_drain_shorter by blast
next
  case (Cons a pre)
  show ?case
  proof (cases rule: grace_drain_step [of p a "pre @ [PEvent evt] @ post" w])
    case (now b')
    with Cons.prems show ?thesis by (simp del: grace_drain.simps)
  qed (use Cons in \<open>simp_all del: grace_drain.simps\<close>)
qed

text \<open>The timer ends the window, unless something earlier does.\<close>

lemma grace_drain_timer:
  "(\<exists>w'. grace_drain p (pre @ PTimer # post) w = Done False post w') \<or>
   (\<exists>r pre' w'. length pre' < length pre \<and>
      grace_drain p (pre @ PTimer # post) w = Done r (pre' @ PTimer # post) w' \<and>
      (\<exists>ys. pre = ys @ pre'))"
proof (induction pre arbitrary: w)
  case (Cons b pre)
  show ?case
  proof (cases rule: grace_drain_step [of p b "pre @ PTimer # post" w])
    case (now r)
    then show ?thesis by (intro disjI2 exI [of _ r] exI [of _ pre] exI [of _ w]) auto
  next
    case skip
    with Cons.IH [of w] show ?thesis
      by (auto simp del: grace_drain.simps intro: less_SucI)
  next
    case others
    with Cons.IH [of "env b w"] show ?thesis
      by (auto simp del: grace_drain.simps intro: less_SucI)
  qed
qed auto

lemma result_loop_esteps: "esteps (core_of w) (core_of (io_world (result_loop p od st as w)))"
proof (induction "length as" arbitrary: as st w rule: less_induct)
  case less
  have d: "esteps (core_of w) (core_of (io_world (drain_events p (result_handle od) False st as w)))"
    by (rule prompt_waiter.drain_esteps)
  show ?case
  proof (cases "drain_events p (result_handle od) False st as w")
    case (Blocked w1)
    with d show ?thesis by (simp add: result_loop.simps)
  next
    case (Done r as1 w1)
    obtain e st1 where r: "r = (e, st1)" by (cases r)
    have l1: "length as1 < length as" using drain_events_shorter [OF Done] .
    have d1: "esteps (core_of w) (core_of w1)" using d Done by simp
    have g: "esteps (core_of w1) (core_of (io_world (grace_drain p as1 w1)))"
      by (rule grace_drain_esteps)
    show ?thesis
    proof (cases "grace_drain p as1 w1")
      case (Blocked w2)
      with Done r d1 g show ?thesis
        by (cases e) (auto simp add: result_loop.simps [of p od st as] intro: rtranclp_trans)
    next
      case (Done b as2 w2)
      have "length as2 < length as" using grace_drain_shorter [OF Done] l1 by simp
      from less [OF this, of w2 "st1\<lparr>wt_final_err := []\<rparr>"] Done g d1 r
        \<open>drain_events p (result_handle od) False st as w = _\<close>
      show ?thesis
        by (cases e) (auto simp add: result_loop.simps [of p od st as] intro: rtranclp_trans)
    qed
  qed
qed

lemma result_loop_shorter: "result_loop p od st as w = Done r as' w' \<Longrightarrow> length as' < length as"
proof (induction p od st as w rule: result_loop.induct)
  case (1 p od st as w)
  show ?case
  proof (cases "drain_events p (result_handle od) False st as w")
    case (Blocked w1)
    with "1.prems" show ?thesis by (simp add: result_loop.simps)
  next
    case (Done r1 as1 w1)
    obtain e st1 where r: "r1 = (e, st1)" by (cases r1)
    note l1 = drain_events_shorter [OF Done]
    show ?thesis
    proof (cases "e = None \<and> wt_final_err st1 \<noteq> []")
      case False
      with "1.prems" Done r l1 show ?thesis
        by (cases e) (auto simp add: result_loop.simps [of p od st as])
    next
      case True
      show ?thesis
      proof (cases "grace_drain p as1 w1")
        case (Blocked w2)
        with "1.prems" Done r True show ?thesis by (simp add: result_loop.simps [of p od st as])
      next
        case g: (Done b as2 w2)
        note l2 = grace_drain_shorter [OF g]
        show ?thesis
        proof (cases b)
          case False
          with "1.prems" Done r True g l1 l2 show ?thesis
            by (simp add: result_loop.simps [of p od st as])
        next
          case b: True
          have "result_loop p od (st1\<lparr>wt_final_err := []\<rparr>) as2 w2 = Done r as' w'"
            using "1.prems" Done r True g b by (simp add: result_loop.simps [of p od st as])
          then have "length as' < length as2" using "1.IH" Done r True g b by blast
          with l1 l2 show ?thesis by simp
        qed
      qed
    qed
  qed
qed

lemma result_loop_load:
  "result_loop p od st as w = Done r as' w' \<Longrightarrow> length as' + load w' < length as + load w"
proof (induction "length as" arbitrary: as st w rule: less_induct)
  case less
  show ?case
  proof (cases "drain_events p (result_handle od) False st as w")
    case (Blocked w1)
    with less(2) show ?thesis by (simp add: result_loop.simps)
  next
    case (Done r1 as1 w1)
    obtain e st1 where r: "r1 = (e, st1)" by (cases r1)
    have l1: "length as1 < length as" "length as1 + load w1 < length as + load w"
      using drain_events_shorter [OF Done] prompt_waiter.drain_load [OF Done] .
    show ?thesis
    proof (cases "grace_drain p as1 w1")
      case (Blocked w2)
      with Done r l1 less(2) show ?thesis
        by (cases e) (auto simp add: result_loop.simps [of p od st as] split: if_splits)
    next
      case (Done b as2 w2)
      have "length as2 < length as" "length as2 + load w2 < length as + load w"
        using grace_drain_shorter [OF Done] grace_drain_load [OF Done] l1 by simp_all
      with less(1) [of as2 "st1\<lparr>wt_final_err := []\<rparr>" w2] Done r l1 less(2)
        \<open>drain_events p (result_handle od) False st as w = _\<close>
      show ?thesis
        by (cases e) (auto simp add: result_loop.simps [of p od st as] split: if_splits)
    qed
  qed
qed

text \<open>
  A turn returns once an \<open>agent_end\<close> is delivered and the grace window after it runs out.
\<close>

lemma result_loop_returns:
  assumes "ev_type evt = rpc_agent_end"
  shows "\<exists>r as' w'. result_loop p od st (pre @ PEvent evt # PTimer # post) w = Done r as' w'"
proof (induction "length pre" arbitrary: pre st w rule: less_induct)
  case less
  let ?as = "pre @ PEvent evt # PTimer # post"
  let ?drain = "drain_events p (result_handle od) False st ?as w"
  have ends: "PEvent evt = PEof \<or> (\<exists>e. PEvent evt = PEvent e \<and> prompt_terminal e)"
    using assms by (simp add: prompt_terminal_def)
  have "(\<exists>r w'. ?drain = Done r (PTimer # post) w') \<or>
      (\<exists>r pre' w'. length pre' < length pre \<and> ?drain = Done r (pre' @ PEvent evt # PTimer # post) w')"
    using prompt_waiter.drain_returns [OF ends, of p od False st pre "PTimer # post" w] by blast
  then show ?case
  proof (elim disjE exE conjE)
    fix r w' assume d: "?drain = Done r (PTimer # post) w'"
    obtain e st1 where "r = (e, st1)" by (cases r)
    with d show ?thesis
      by (cases e) (simp_all add: result_loop.simps [of p od st ?as])
  next
    fix r pre' w'
    assume l: "length pre' < length pre" and d: "?drain = Done r (pre' @ PEvent evt # PTimer # post) w'"
    obtain e st1 where r: "r = (e, st1)" by (cases r)
    have app: "(pre' @ [PEvent evt]) @ PTimer # post = pre' @ PEvent evt # PTimer # post" by simp
    consider
      (timer) w2 where "grace_drain p (pre' @ PEvent evt # PTimer # post) w' = Done False post w2"
      | (earlier) b pre2 w2 ys where "pre' @ [PEvent evt] = ys @ pre2"
        "length pre2 < length (pre' @ [PEvent evt])"
        "grace_drain p (pre' @ PEvent evt # PTimer # post) w' = Done b (pre2 @ PTimer # post) w2"
      using grace_drain_timer [of p "pre' @ [PEvent evt]" post w'] unfolding app by blast
    then show ?thesis
    proof cases
      case timer
      with d r show ?thesis by (cases e) (simp_all add: result_loop.simps [of p od st ?as])
    next
      case earlier
      show ?thesis
      proof (cases "pre2 = []")
        case True
        have "b = False"
        proof (rule ccontr)
          assume "b \<noteq> False"
          with earlier True have "grace_drain p (pre' @ [PEvent evt] @ PTimer # post) w' =
              Done True (PTimer # post) w2" by simp
          then show False
            using grace_drain_last [of p pre' evt "PTimer # post" w' True w2] assms
            by (simp add: continues_turn_def rpc_type_defs)
        qed
        with earlier d r show ?thesis
          by (cases e) (simp_all add: result_loop.simps [of p od st ?as])
      next
        case False
        then obtain pre3 where p3: "pre2 = pre3 @ [PEvent evt]"
          using earlier(1) by (metis append_butlast_last_id last_appendR last_snoc)
        then have "length pre3 < length pre" using earlier(2) l by simp
        from less(1) [OF this, of "st1\<lparr>wt_final_err := []\<rparr>" w2] earlier(3) d r p3 show ?thesis
          by (cases e; cases b) (simp_all add: result_loop.simps [of p od st ?as])
      qed
    qed
  qed
qed

section \<open>The compact command\<close>

text \<open>A compact command that ends without an error has a result.\<close>

lemma compact_handle_present:
  "fst (compact_handle st evt w) = Inr True \<Longrightarrow> fst (snd (compact_handle st evt w)) \<noteq> None"
  by (simp add: compact_handle_def split: option.splits if_splits)

lemma compact_drain_present:
  "drain_events p compact_handle ab st as w = Done (None, st') as' w' \<Longrightarrow> st' \<noteq> None"
proof (induction "length as" arbitrary: as ab st w rule: less_induct)
  case less
  show ?case
  proof (cases "next_event p as w")
    case (Blocked w1)
    with less(2) show ?thesis by (simp add: drain_events.simps)
  next
    case (Done r as1 w1)
    show ?thesis
    proof (cases r)
      case (Inl e)
      with Done less(2) show ?thesis by (simp add: drain_events.simps)
    next
      case (Inr evt)
      obtain ab' w2 where ab: "abort_if_done p ab w1 = (ab', w2)" by (cases "abort_if_done p ab w1")
      obtain e w3 where se: "handle_side_effects p evt w2 = (e, w3)"
        by (cases "handle_side_effects p evt w2")
      have "length as1 < length as" using Done by (rule next_event_shorter)
      obtain v st2 w4 where hh: "compact_handle st evt w3 = (v, st2, w4)"
        by (cases "compact_handle st evt w3")
      then have "v = Inr True \<Longrightarrow> st2 \<noteq> None"
        using compact_handle_present [of st evt w3] by simp
      with less(1) [OF \<open>length as1 < length as\<close>, of ab' st2 w4] less(2) Done Inr ab se hh
      show ?thesis
        by (cases e; cases v) (auto simp: drain_events.simps [of p compact_handle ab st as]
            split: if_splits)
    qed
  qed
qed

lemma compact_outcome_present: "pi_compact p as w = Done (Inr r) as' w' \<Longrightarrow> r \<noteq> None"
  by (auto simp: pi_compact_def wait_for_compact_response_def and_io_def
      split: if_splits prod.splits option.splits io.splits dest: compact_drain_present)

lemma pi_compact_esteps: "esteps (core_of w) (core_of (io_world (pi_compact p as w)))"
proof -
  have wait: "esteps (core_of w') (core_of (io_world (wait_for_compact_response p as w')))" for w'
    using compact_waiter.drain_esteps [of w' p False None as]
    by (cases "drain_events p compact_handle False None as w'")
       (auto simp: wait_for_compact_response_def)
  obtain e w' where run: "send_command p compact_command w = (e, w')"
    by (cases "send_command p compact_command w")
  then have "core_of w' = core_of w" using core_of_send_command [of p compact_command w] by simp
  with run wait [of w'] show ?thesis by (cases e) (auto simp: pi_compact_def)
qed

section \<open>What a turn returns\<close>

text \<open>
  A quiet event neither ends a turn nor has a side effect; it may carry text deltas, which are
  forwarded. An attempt is what the agent emits for one failed request that it retries: quiet
  events, an \<open>agent_end\<close> with a provider error, events that are swallowed in the grace window,
  and the event that announces the retry or the compaction.
\<close>

definition quiet :: "rpc_event \<Rightarrow> bool" where
  "quiet evt \<longleftrightarrow> ev_type evt \<notin>
     {rpc_ui_request, rpc_tool_start, rpc_response, rpc_retry_end, rpc_agent_end}"

fun deltas :: "(string \<times> string) option \<Rightarrow> rpc_event list \<Rightarrow> effect list" where
  "deltas None evts = []"
| "deltas (Some cs) [] = []"
| "deltas (Some cs) (evt # evts) =
     (case ev_assistant evt of
        Some a \<Rightarrow> if ev_type evt = rpc_message_update \<and> ame_type a = ''text_delta'' \<and> ame_delta a \<noteq> []
                  then Delta (fst cs) (snd cs) (ame_delta a) # deltas (Some cs) evts
                  else deltas (Some cs) evts
      | None \<Rightarrow> deltas (Some cs) evts)"

definition emits :: "effect list \<Rightarrow> world \<Rightarrow> world" where
  "emits es w = w\<lparr>out := out w @ es\<rparr>"

type_synonym attempt = "rpc_event list \<times> rpc_event \<times> rpc_event list \<times> rpc_event"

definition provider_error :: "rpc_event \<Rightarrow> bool" where
  "provider_error evt \<longleftrightarrow> ev_type evt = rpc_agent_end \<and>
     ar_stop_reason (extract_last_assistant (ev_messages evt)) = ''error'' \<and>
     ar_error_message (extract_last_assistant (ev_messages evt)) \<noteq> []"

fun attempt_ok :: "attempt \<Rightarrow> bool" where
  "attempt_ok (qs, e, sw, c) \<longleftrightarrow> (\<forall>q \<in> set qs. quiet q) \<and> provider_error e \<and>
     (\<forall>s \<in> set sw. \<not> continues_turn (ev_type s)) \<and> continues_turn (ev_type c)"

fun attempt_acts :: "attempt \<Rightarrow> act list" where
  "attempt_acts (qs, e, sw, c) = map PEvent qs @ [PEvent e] @ map PEvent sw @ [PEvent c]"

fun attempt_quiet :: "attempt \<Rightarrow> rpc_event list" where
  "attempt_quiet (qs, e, sw, c) = qs"

lemma emits_Nil [simp]: "emits [] w = w"
  by (simp add: emits_def)

lemma emits_emits [simp]: "emits fs (emits es w) = emits (es @ fs) w"
  by (simp add: emits_def)

lemma ctx_done_emits [simp]: "ctx_done (emits es w) = ctx_done w"
  by (simp add: ctx_done_def emits_def)

lemma deltas_append: "deltas od (xs @ ys) = deltas od xs @ deltas od ys"
  by (induction od xs rule: deltas.induct) (auto split: option.splits)

lemma quiet_handle:
  "quiet evt \<Longrightarrow> result_handle od st evt w = (Inr False, st, emits (deltas od [evt]) w)"
  by (cases od) (auto simp: quiet_def result_handle_def emit_def emits_def split: option.splits)

lemma drain_quiet:
  assumes "\<not> ctx_done w" "\<forall>q \<in> set qs. quiet q"
  shows "drain_events p (result_handle od) False st (map PEvent qs @ as) w =
    drain_events p (result_handle od) False st as (emits (deltas od qs) w)"
  using assms
proof (induction qs arbitrary: w)
  case Nil
  then show ?case by (cases od) simp_all
next
  case (Cons q qs)
  have "handle_side_effects p q w = (None, w)"
    using Cons.prems by (simp add: handle_side_effects_def quiet_def)
  then have "drain_events p (result_handle od) False st (map PEvent (q # qs) @ as) w =
      drain_events p (result_handle od) False st (map PEvent qs @ as) (emits (deltas od [q]) w)"
    using Cons.prems quiet_handle [of q od st w]
    by (subst drain_events.simps) (simp add: abort_if_done_def)
  also have "\<dots> = drain_events p (result_handle od) False st as (emits (deltas od (q # qs)) w)"
    using Cons.IH [of "emits (deltas od [q]) w"] Cons.prems deltas_append [of od "[q]" qs] by simp
  finally show ?case .
qed

lemma drain_agent_end:
  assumes "\<not> ctx_done w" "ev_type e = rpc_agent_end"
  shows "drain_events p (result_handle od) False st (PEvent e # as) w =
    Done (None, handle_agent_end e st) as w"
  using assms
  by (subst drain_events.simps)
     (simp add: abort_if_done_def handle_side_effects_def result_handle_def rpc_type_defs)

lemma grace_swallow:
  "\<forall>s \<in> set sw. \<not> continues_turn (ev_type s) \<Longrightarrow>
   grace_drain p (map PEvent sw @ as) w = grace_drain p as w"
  by (induction sw) auto

lemma loop_attempts:
  assumes "\<not> ctx_done w" "\<forall>a \<in> set attempts. attempt_ok a" "wt_final_err st = []"
  shows "\<exists>st'. wt_final_err st' = [] \<and>
    result_loop p od st (concat (map attempt_acts attempts) @ as) w =
    result_loop p od st' as (emits (deltas od (concat (map attempt_quiet attempts))) w)"
  using assms
proof (induction attempts arbitrary: st w)
  case Nil
  have "deltas od [] = []" by (cases od) simp_all
  with Nil show ?case by auto
next
  case (Cons a attempts)
  obtain qs e sw c where a: "a = (qs, e, sw, c)" by (cases a)
  have ok: "\<forall>q \<in> set qs. quiet q" "provider_error e"
    "\<forall>s \<in> set sw. \<not> continues_turn (ev_type s)" "continues_turn (ev_type c)"
    using Cons.prems(2) a by auto
  let ?as = "concat (map attempt_acts attempts) @ as"
  let ?w = "emits (deltas od qs) w"
  let ?st = "handle_agent_end e st"
  have d: "drain_events p (result_handle od) False st (attempt_acts a @ ?as) w =
      Done (None, ?st) (map PEvent sw @ PEvent c # ?as) ?w"
    using ok Cons.prems(1) a
    by (simp add: drain_quiet drain_agent_end provider_error_def)
  have err: "wt_final_err ?st \<noteq> []"
    using ok(2) by (simp add: handle_agent_end_def provider_error_def Let_def)
  have g: "grace_drain p (map PEvent sw @ PEvent c # ?as) ?w = Done True ?as ?w"
    using ok by (simp add: grace_swallow)
  have step: "result_loop p od st (attempt_acts a @ ?as) w =
      result_loop p od (?st\<lparr>wt_final_err := []\<rparr>) ?as ?w"
    using d err g by (subst result_loop.simps) simp
  obtain st' where "wt_final_err st' = []"
    "result_loop p od (?st\<lparr>wt_final_err := []\<rparr>) ?as ?w =
       result_loop p od st' as (emits (deltas od (concat (map attempt_quiet attempts))) ?w)"
    using Cons.IH [of ?w "?st\<lparr>wt_final_err := []\<rparr>"] Cons.prems by auto
  then show ?case
    using step a by (intro exI [of _ st']) (simp add: deltas_append)
qed

lemma loop_final:
  assumes "\<not> ctx_done w" "\<forall>q \<in> set qs. quiet q" "ev_type e = rpc_agent_end"
  shows "result_loop p od st (map PEvent qs @ PEvent e # as) w =
    (if wt_final_err (handle_agent_end e st) = []
     then Done (Inr (handle_agent_end e st)) as (emits (deltas od qs) w)
     else case grace_drain p as (emits (deltas od qs) w) of
            Blocked w \<Rightarrow> Blocked w
          | Done b as2 w \<Rightarrow>
              if \<not> b then Done (Inr (handle_agent_end e st)) as2 w
              else result_loop p od (handle_agent_end e st\<lparr>wt_final_err := []\<rparr>) as2 w)"
  using assms by (subst result_loop.simps) (simp add: drain_quiet drain_agent_end)

lemma retried_turn:
  assumes "\<not> ctx_done w" "\<forall>a \<in> set attempts. attempt_ok a" "\<forall>q \<in> set qs. quiet q"
    "ev_type fin = rpc_agent_end"
    "ar_stop_reason (extract_last_assistant (ev_messages fin)) \<noteq> ''error''"
  shows "wait_for_result p od
      (concat (map attempt_acts attempts) @ map PEvent qs @ PEvent fin # rest) w =
    Done (Inr (ar_text (extract_last_assistant (ev_messages fin)))) rest
      (emits (deltas od (concat (map attempt_quiet attempts) @ qs)) w)"
proof -
  obtain st' where st: "wt_final_err st' = []"
    "result_loop p od zero_waiter (concat (map attempt_acts attempts) @ map PEvent qs @ PEvent fin # rest) w =
     result_loop p od st' (map PEvent qs @ PEvent fin # rest)
       (emits (deltas od (concat (map attempt_quiet attempts))) w)"
    using loop_attempts [OF assms(1,2), of zero_waiter p od "map PEvent qs @ PEvent fin # rest"]
    by (auto simp: zero_waiter_def)
  have "handle_agent_end fin st' =
      st'\<lparr>wt_reply := ar_text (extract_last_assistant (ev_messages fin))\<rparr>"
    using assms(5) by (simp add: handle_agent_end_def Let_def)
  with st assms show ?thesis
    by (simp add: wait_for_result_def loop_final reply_of_def deltas_append)
qed

section \<open>Properties\<close>

text \<open>
  C10. A turn returns: whatever happens around it, once the agent has reported the end of a run and the
  grace window after it has passed, \<open>waitForResult\<close> is no longer waiting.
\<close>

theorem turn_returns:
  assumes "ev_type evt = rpc_agent_end"
  shows "\<exists>r as' w'. wait_for_result p od (pre @ PEvent evt # PTimer # post) w = Done r as' w'"
  using result_loop_returns [OF assms, of p od zero_waiter pre post w]
  by (auto simp: wait_for_result_def)

definition end_event :: "string \<Rightarrow> string \<Rightarrow> string \<Rightarrow> rpc_event" where
  "end_event txt stop err = zero_event\<lparr>ev_type := rpc_agent_end,
     ev_messages := Some (JArr [message_json ''assistant'' (JStr txt) stop err])\<rparr>"

theorem turn_returns_witness:
  "\<exists>r as' w'. wait_for_result 0 None
     [PEvent (end_event [] ''error'' ''429''), PEvent (end_event ''hi'' ''stop'' []), PTimer]
     sample_world = Done r as' w'"
  using turn_returns [of "end_event ''hi'' ''stop'' []" 0 None
      "[PEvent (end_event [] ''error'' ''429'')]" "[]" sample_world]
  by (simp add: end_event_def)


definition retry_attempt :: attempt where
  "retry_attempt = ([zero_event\<lparr>ev_type := ''agent_start''\<rparr>], end_event [] ''error'' ''overloaded'',
     [zero_event\<lparr>ev_type := ''turn_end''\<rparr>], zero_event\<lparr>ev_type := rpc_retry_start\<rparr>)"

lemma extract_end_event:
  "extract_last_assistant (ev_messages (end_event t stop err)) =
     \<lparr>ar_text = t, ar_stop_reason = stop, ar_error_message = err\<rparr>"
  by (simp add: end_event_def extract_last_assistant_def dec_message_json parse_assistant_content_def)




text \<open>
  One abort per command: while a compact command is awaited, at most one abort is written to the
  agent, however long the drain goes on after the cancellation.
\<close>

theorem compact_one_abort:
  "aborts (io_world (pi_compact p as w)) \<le> aborts w + 1"
proof -
  have send: "aborts (snd (send_command p compact_command w)) = aborts w"
    by (auto simp: send_command_def abort_frame aborts_emit split: prod.splits option.splits)
  have wait: "aborts (io_world (wait_for_compact_response p as w')) \<le> aborts w' + 1" for w'
  proof -
    have "io_world (wait_for_compact_response p as w') =
        io_world (drain_events p compact_handle False None as w')"
      by (cases "drain_events p compact_handle False None as w'")
         (auto simp: wait_for_compact_response_def)
    then show ?thesis using compact_waiter.drain_aborts [of p False None as w'] by simp
  qed
  obtain e w' where run: "send_command p compact_command w = (e, w')"
    by (cases "send_command p compact_command w")
  with send wait [of w'] show ?thesis by (cases e) (auto simp: pi_compact_def)
qed

end
