(* ===== verification/Worker.thy ===== *)
theory Worker
  imports Pi_Turn
begin

text \<open>
  The worker loop (\<open>worker.go\<close>): taking items from the inbox, running a turn for each, and what
  becomes of an item when its turn fails, is preempted, or has no room. The functions that
  block return an \<open>io\<close>; \<open>drain_once\<close> and \<open>run_loop\<close> are total: each round uses up the schedule or
  an item.
\<close>

section \<open>Prompts and items\<close>

definition merge_user_items :: "inbox_row \<Rightarrow> world \<Rightarrow> inbox_row \<times> world" where
  "merge_user_items item w =
     (case with_db dequeue_user_batch w of
        (Inl e, w) \<Rightarrow> (item, w)
      | (Inr extra, w) \<Rightarrow>
          (if extra = [] then (item, w)
           else (item\<lparr>content := content item @ concat (map (\<lambda>e. [CHR 0x0A] @ content e) extra),
                      reply_to := reply_to (last extra)\<rparr>, w)))"

definition build_prompt :: "inbox_row \<Rightarrow> world \<Rightarrow> string option" where
  "build_prompt item w =
     (if source item = source_user then Some (content item)
      else if source item = source_trigger
      then Some (build_trigger_prompt (trigger_prompt w) (content item))
      else if source item = source_heartbeat
      then (let items = parse_heartbeat_items (read_heartbeat_file w)
            in if items = [] then None else Some (build_heartbeat_prompt (hb_prompt w) items))
      else None)"

text \<open>The result tells \<open>drainOnce\<close> to stop and wait for the next wake-up.\<close>

definition handle_no_room_id :: "inbox_row \<Rightarrow> world \<Rightarrow> bool \<times> world" where
  "handle_no_room_id item w =
     (if source item = source_trigger then (True, snd (with_db (requeue item) w)) else (False, w))"

definition was_preempted :: "pi_error \<Rightarrow> world \<Rightarrow> bool" where
  "was_preempted e w \<longleftrightarrow> (\<exists>what. e = Cancelled what) \<or> ctx_done w"

lemma was_preempted_code [code]:
  "was_preempted e w = ((case e of Cancelled _ \<Rightarrow> True | _ \<Rightarrow> False) \<or> ctx_done w)"
  by (auto simp: was_preempted_def split: pi_error.splits)

definition requeue_preempted :: "inbox_row \<Rightarrow> world \<Rightarrow> bool \<times> world" where
  "requeue_preempted item w =
     (if source item = source_heartbeat then (True, w)
      else (True, snd (with_db (requeue item) w)))"

definition handle_pi_error :: "inbox_row \<Rightarrow> string \<Rightarrow> pi_error \<Rightarrow> bool \<Rightarrow> world \<Rightarrow> bool \<times> world" where
  "handle_pi_error item conv e kill w =
     (if was_preempted e w then requeue_preempted item w
      else let w = (if kill then stop_pi w else w);
               w = (if source item = source_user
                    then say conv (''Error: '' @ pi_error_text (wlib w) e) w else w)
           in (False, w))"

section \<open>Turns\<close>

definition send_with_retry ::
  "string \<Rightarrow> (string \<times> string) option \<Rightarrow> act list \<Rightarrow> world \<Rightarrow> (nat option \<times> (pi_error + string)) io"
where
  "send_with_retry prompt od as w =
     (case ensure_pi w of
        (Inl e, w) \<Rightarrow> Done (None, Inl e) as w
      | (Inr p, w) \<Rightarrow>
          and_io (send_and_wait p prompt od as w) (\<lambda>res as w.
            case res of
              Inr reply \<Rightarrow> Done (Some p, Inr reply) as w
            | Inl e \<Rightarrow>
                (if ctx_done w then Done (Some p, Inl e) as w
                 else case ensure_pi (stop_pi w) of
                        (Inl e, w) \<Rightarrow> Done (None, Inl e) as w
                      | (Inr p, w) \<Rightarrow>
                          and_io (send_and_wait p prompt od as w) (\<lambda>res as w.
                            Done (Some p, res) as w))))"

definition summary_prompt :: string where
  "summary_prompt = ''You just completed a task but your response contained no text for the user. '' @
     ''Please briefly summarize what you did or respond to the user'' @ [CHR 0x27] @ ''s message.''"

definition retry_empty_response :: "nat \<Rightarrow> act list \<Rightarrow> world \<Rightarrow> string io" where
  "retry_empty_response p as w =
     and_io (send_and_wait p summary_prompt None as w) (\<lambda>res as w.
       case res of
         Inl e \<Rightarrow> Done ''(I completed some actions but failed to generate a summary.)'' as w
       | Inr reply \<Rightarrow> Done (if reply \<noteq> [] then reply else ''(empty response)'') as w)"

text \<open>The stopwatch sign and the time a turn took.\<close>

definition timing_text :: "int \<Rightarrow> world \<Rightarrow> string" where
  "timing_text start w =
     [CHR 0x0A, CHR 0x0A, CHR 0xE2, CHR 0x8F, CHR 0xB1, CHR 0x20] @
     duration_text (round_ms (nat (now_ns w - start)))"

definition stream_of :: "string \<Rightarrow> world \<Rightarrow> (string \<times> string) option" where
  "stream_of conv w =
     (if be_streams w then Some (conv, ''stream-'' @ dec_int (now_ns w)) else None)"

text \<open>
  A turn that ended without an error resets the idle timer; an empty answer to a user is asked for
  again. The process is always there then (\<open>sendWithRetry\<close> returns it with every reply).
\<close>

definition accept_reply :: "inbox_row \<Rightarrow> nat option \<Rightarrow> string \<Rightarrow> act list \<Rightarrow> world \<Rightarrow> string io" where
  "accept_reply item p reply as w =
     (let w = w\<lparr>last_use := now_ns w\<rparr>
      in case p of
           Some p \<Rightarrow>
             if source item = source_user \<and> reply = [] then retry_empty_response p as w
             else Done reply as w
         | None \<Rightarrow> Done reply as w)"

text \<open>\<open>processPrompt\<close> between the two typing notifications.\<close>

definition prompt_turn :: "inbox_row \<Rightarrow> string \<Rightarrow> string \<Rightarrow> act list \<Rightarrow> world \<Rightarrow> bool io" where
  "prompt_turn item conv prompt as w =
     (let start = now_ns w
      in and_io (send_with_retry prompt (stream_of conv w) as w) (\<lambda>(p, res) as w.
           case res of
             Inl e \<Rightarrow> (case handle_pi_error item conv e (p \<noteq> None) w of (stop, w) \<Rightarrow> Done stop as w)
           | Inr reply \<Rightarrow>
               and_io (accept_reply item p reply as w) (\<lambda>reply as w.
                 (if should_suppress_reply reply (source item) then Done False as w
                  else let reply = (if debug_timing (cfg w) then reply @ timing_text start w else reply)
                       in Done False as (send_reply_with_files conv reply (reply_to item) w)))))"

definition process_prompt :: "inbox_row \<Rightarrow> act list \<Rightarrow> world \<Rightarrow> bool io" where
  "process_prompt item as w =
     (case build_prompt item w of
        None \<Rightarrow> Done False as w
      | Some prompt \<Rightarrow>
          (case resolve_room_id w of
             (conv, w) \<Rightarrow>
               (if conv = [] then (case handle_no_room_id item w of (stop, w) \<Rightarrow> Done stop as w)
                else and_io (prompt_turn item conv prompt as (set_typing conv True w)) (\<lambda>stop as w.
                       Done stop as (set_typing conv False w)))))"

definition answer :: "nat \<Rightarrow> compact_outcome \<Rightarrow> world \<Rightarrow> world" where
  "answer ch res w = w\<lparr>chans := chans w @ [(ch, res)]\<rparr>"

definition process_compact :: "act list \<Rightarrow> world \<Rightarrow> unit io" where
  "process_compact as w =
     (case compact_chan w of
        None \<Rightarrow> Done () as w
      | Some ch \<Rightarrow>
          (let w = w\<lparr>compact_chan := None\<rparr>
           in case (if is_active w then pi_proc w else None) of
                None \<Rightarrow> Done () as (answer ch (Inl ''no active session'') w)
              | Some p \<Rightarrow>
                  and_io (pi_compact p as w) (\<lambda>res as w.
                    Done () as (answer ch (case res of
                      Inl e \<Rightarrow> Inl (pi_error_text (wlib w) e) | Inr r \<Rightarrow> Inr r) w))))"

text \<open>An item's context is fresh; it is cleared from the worker on every way out.\<close>

definition begin_item :: "inbox_row \<Rightarrow> world \<Rightarrow> world" where
  "begin_item item w =
     w\<lparr>item_cancelled := False, cur_priority := priority item, cur_cancel := True\<rparr>"

definition end_item :: "world \<Rightarrow> world" where
  "end_item w = w\<lparr>cur_priority := - 1, cur_cancel := False\<rparr>"

definition process_item :: "inbox_row \<Rightarrow> act list \<Rightarrow> world \<Rightarrow> bool io" where
  "process_item item as w =
     and_io (if source item = source_compact
             then and_io (process_compact as (begin_item item w)) (\<lambda>_ as w. Done False as w)
             else process_prompt item as (begin_item item w)) (\<lambda>stop as w.
       Done stop as (end_item w))"

section \<open>What the steps do to the machine and the load\<close>

text \<open>
  \<open>tame\<close>: only steps of the abstract machine, and the schedule does not grow. \<open>lean P\<close>: when
  the result satisfies \<open>P\<close>, what is left of the schedule and the load together have not grown.
\<close>

definition tame :: "'a io \<Rightarrow> act list \<Rightarrow> world \<Rightarrow> bool" where
  "tame m as w \<longleftrightarrow> csteps (core_of w) (core_of (io_world m)) \<and>
     (\<forall>a as' w'. m = Done a as' w' \<longrightarrow> length as' \<le> length as)"

definition lean :: "('a \<Rightarrow> bool) \<Rightarrow> 'a io \<Rightarrow> act list \<Rightarrow> world \<Rightarrow> bool" where
  "lean P m as w \<longleftrightarrow>
     (\<forall>a as' w'. m = Done a as' w' \<longrightarrow> P a \<longrightarrow> length as' + load w' \<le> length as + load w)"

lemma tame_bind:
  assumes "tame m as w" "\<And>a as' w'. m = Done a as' w' \<Longrightarrow> tame (f a as' w') as' w'"
  shows "tame (and_io m f) as w"
proof (cases m)
  case (Blocked w1)
  with assms(1) show ?thesis by (simp add: tame_def)
next
  case (Done a as1 w1)
  with assms(1) have "csteps (core_of w) (core_of w1)" "length as1 \<le> length as"
    by (auto simp: tame_def)
  with assms(2) [OF Done] Done show ?thesis
    by (fastforce simp: tame_def intro: rtranclp_trans)
qed

lemma lean_bind:
  assumes "lean (\<lambda>_. True) m as w" "\<And>a as' w'. m = Done a as' w' \<Longrightarrow> lean P (f a as' w') as' w'"
  shows "lean P (and_io m f) as w"
proof (cases m)
  case (Done a as1 w1)
  with assms(1) have "length as1 + load w1 \<le> length as + load w" by (auto simp: lean_def)
  with assms(2) [OF Done] Done show ?thesis by (fastforce simp: lean_def)
qed (simp add: lean_def)

lemma tame_Done: "csteps (core_of w) (core_of w') \<Longrightarrow> tame (Done a as w') as w"
  by (simp add: tame_def)

lemma tame_same: "core_of w' = core_of w \<Longrightarrow> tame (Done a as w') as w"
  by (simp add: tame_def)

lemma lean_same: "load w' \<le> load w \<Longrightarrow> lean P (Done a as w') as w"
  by (simp add: lean_def)

lemma tame_from: "core_of w1 = core_of w \<Longrightarrow> tame m as w1 \<Longrightarrow> tame m as w"
  by (simp add: tame_def)

lemma lean_from: "core_of w1 = core_of w \<Longrightarrow> lean P m as w1 \<Longrightarrow> lean P m as w"
  using load_core [of w1 w] by (simp add: lean_def)

lemma lean_weaken: "lean (\<lambda>_. True) m as w \<Longrightarrow> lean P m as w"
  by (simp add: lean_def)

section \<open>The agent process\<close>

lemma start_step_core [core_frame]: "core_of (snd (start_step w)) = core_of w"
  by (simp add: start_step_def core_of_def split: prod.splits)

lemma start_step_fields: "start_step w = (f, w') \<Longrightarrow> core_of w' = core_of w \<and> next_pid w' = next_pid w
   \<and> cfg w' = cfg w"
  by (auto simp: start_step_def core_of_def split: prod.splits)

lemma ensure_fifo_fields: "ensure_fifo path w = (f, w') \<Longrightarrow>
   core_of w' = core_of w \<and> next_pid w' = next_pid w"
  by (auto simp: ensure_fifo_def core_frame split: prod.splits option.splits if_splits
      dest!: start_step_fields)

lemma start_steps_fields: "start_steps ss w = (f, w') \<Longrightarrow>
   core_of w' = core_of w \<and> next_pid w' = next_pid w"
proof (induction ss arbitrary: w)
  case (Cons s ss)
  then show ?case by (fastforce split: prod.splits option.splits dest: start_step_fields)
qed simp

lemma start_pi_process_core:
  "start_pi_process args w = (r, w') \<Longrightarrow>
   (case r of Inl e \<Rightarrow> core_of w' = core_of w
    | Inr p \<Rightarrow> p = next_pid w \<and> core_of w' = core_of w\<lparr>c_npid := Suc (next_pid w)\<rparr>)"
  by (fastforce simp: start_pi_process_def Let_def core_frame split: prod.splits option.splits
      dest: start_steps_fields simp: core_of_def emit_def)

lemma start_pi_core:
  assumes "start_pi room fresh w = (r, w')"
  shows "case r of Inl e \<Rightarrow> core_of w' = core_of w
    | Inr p \<Rightarrow> p = next_pid w \<and> core_of w' = core_of w\<lparr>c_npid := Suc (next_pid w)\<rparr>"
proof -
  obtain f1 w1 where s1: "start_step w = (f1, w1)" by (cases "start_step w")
  obtain f2 w2 where s2: "start_step w1 = (f2, w2)" by (cases "start_step w1")
  let ?w2 = "w2\<lparr>room_file := Some room\<rparr>"
  obtain f3 w3 where s3: "ensure_fifo (trigger_pipe_path (session_dir (cfg ?w2))) ?w2 = (f3, w3)"
    by (cases "ensure_fifo (trigger_pipe_path (session_dir (cfg ?w2))) ?w2")
  obtain f4 w4 where s4: "(if skills (cfg w3) = [] then (None, w3) else start_step w3) = (f4, w4)"
    by (cases "if skills (cfg w3) = [] then (None, w3) else start_step w3")
  have c2: "core_of w2 = core_of w" "next_pid w2 = next_pid w"
    using start_step_fields [OF s1] start_step_fields [OF s2] by auto
  have c3: "core_of w3 = core_of w" "next_pid w3 = next_pid w"
    using ensure_fifo_fields [OF s3] c2 by (auto simp: core_frame)
  have c4: "core_of w4 = core_of w" "next_pid w4 = next_pid w"
    using s4 c3 start_step_fields [of w3 f4 w4] by (auto split: if_splits)
  show ?thesis
  proof (cases "f1 = None \<and> f2 = None \<and> f3 = None \<and> (\<exists>x. write_skills_config f4 (cfg w4) = Inr x)")
    case True
    then obtain path x where x: "write_skills_config f4 (cfg w4) = Inr (path, x)" by auto
    have "start_pi_process (build_pi_args (cfg w4) fresh path) w4 = (r, w')"
      using assms True x s1 s2 s3 s4 by (simp add: start_pi_def)
    from start_pi_process_core [OF this] c4 show ?thesis by (cases r) simp_all
  next
    case False
    then have "(\<exists>e. r = Inl e) \<and> core_of w' = core_of w"
      using assms s1 s2 s3 s4 c2 c3 c4 start_step_fields [OF s1]
      by (auto simp: start_pi_def split: option.splits sum.splits)
    then show ?thesis by auto
  qed
qed

text \<open>The process is the running one, or a new one started while none was alive.\<close>

lemma ensure_pi_core:
  assumes "ensure_pi w = (r, w')"
  shows "core_of w' = core_of w \<or>
    (\<not> is_active w \<and>
     core_of w' = core_of w\<lparr>c_pi := Some (next_pid w), c_npid := Suc (next_pid w)\<rparr>)"
proof (cases "is_active w")
  case True
  with assms show ?thesis by (auto simp: ensure_pi_def is_active_def split: option.splits)
next
  case False
  obtain room w1 where rr: "resolve_room_id (w\<lparr>fresh_start := False\<rparr>) = (room, w1)"
    by (cases "resolve_room_id (w\<lparr>fresh_start := False\<rparr>)")
  have c1: "core_of w1 = core_of w" "next_pid w1 = next_pid w"
    using core_of_resolve [of "w\<lparr>fresh_start := False\<rparr>"] rr
    by (auto simp: core_frame) (simp add: core_of_def)
  show ?thesis
  proof (cases "ctx_done w1")
    case True
    with assms False rr c1 show ?thesis by (simp add: ensure_pi_def Let_def)
  next
    case nd: False
    obtain x w2 where st: "start_pi room (fresh_start w) w1 = (x, w2)"
      by (cases "start_pi room (fresh_start w) w1")
    with start_pi_core [OF st] assms False rr c1 nd show ?thesis
      by (cases x) (auto simp: ensure_pi_def Let_def core_of_def)
  qed
qed

lemma ensure_pi_csteps: "ensure_pi w = (r, w') \<Longrightarrow> csteps (core_of w) (core_of w')"
proof -
  assume e: "ensure_pi w = (r, w')"
  have "cstep (core_of w) (core_of w\<lparr>c_pi := Some (next_pid w), c_npid := Suc (next_pid w)\<rparr>)"
    if "\<not> is_active w"
    using cstep.s_spawn [of "core_of w"] that
    by (auto simp: is_active_def is_alive_def core_of_def split: option.splits)
  with ensure_pi_core [OF e] show ?thesis by auto
qed

lemma ensure_pi_load: "ensure_pi w = (r, w') \<Longrightarrow> load w' = load w"
proof -
  assume e: "ensure_pi w = (r, w')"
  have "c_rows (core_of w') = c_rows (core_of w) \<and> c_rem (core_of w') = c_rem (core_of w)"
    using ensure_pi_core [OF e] by auto
  then show ?thesis by (simp add: core_of_def load_def)
qed

section \<open>Turns are tame and lean\<close>

lemma wait_for_result_esteps: "esteps (core_of w) (core_of (io_world (wait_for_result p od as w)))"
  using result_loop_esteps [of w p od zero_waiter as]
  by (cases "result_loop p od zero_waiter as w") (simp_all add: wait_for_result_def)

lemma send_and_wait_tame: "tame (send_and_wait p msg od as w) as w"
proof -
  have wait: "tame (wait_for_result p od as w') as w'" for w'
  proof -
    have "length as2 \<le> length as" if "wait_for_result p od as w' = Done a as2 w2" for a as2 w2
      using that result_loop_shorter [of p od zero_waiter as w']
      by (cases "result_loop p od zero_waiter as w'") (auto simp: wait_for_result_def less_imp_le)
    then show ?thesis
      using esteps_csteps [OF wait_for_result_esteps [of w' p od as]] by (simp add: tame_def)
  qed
  obtain e w' where run: "send_prompt_command p msg w = (e, w')" by (cases "send_prompt_command p msg w")
  have "core_of w' = core_of w"
    using core_of_send_command [of p "prompt_command msg" w] run by (simp add: send_prompt_command_def)
  with run wait [of w'] show ?thesis
    by (cases e) (auto simp: send_and_wait_def tame_def)
qed

lemma send_and_wait_lean: "lean P (send_and_wait p msg od as w) as w"
proof -
  have wait: "lean P (wait_for_result p od as w') as w'" for w'
    using result_loop_load [of p od zero_waiter as w']
    by (cases "result_loop p od zero_waiter as w'")
       (auto simp: lean_def wait_for_result_def less_imp_le)
  obtain e w' where run: "send_prompt_command p msg w = (e, w')" by (cases "send_prompt_command p msg w")
  have "core_of w' = core_of w"
    using core_of_send_command [of p "prompt_command msg" w] run by (simp add: send_prompt_command_def)
  then have "load w' = load w" by (rule load_core)
  with run wait [of w'] show ?thesis
    by (cases e) (auto simp: send_and_wait_def lean_def)
qed

lemma send_with_retry_tame: "tame (send_with_retry prompt od as w) as w"
proof -
  obtain r w1 where e: "ensure_pi w = (r, w1)" by (cases "ensure_pi w")
  have again: "tame (case ensure_pi (stop_pi w') of
        (Inl e, w) \<Rightarrow> Done (None, Inl e) as' w
      | (Inr p, w) \<Rightarrow> and_io (send_and_wait p prompt od as' w) (\<lambda>res as w. Done (Some p, res) as w))
      as' w'" for as' w'
  proof -
    obtain x w2 where e2: "ensure_pi (stop_pi w') = (x, w2)" by (cases "ensure_pi (stop_pi w')")
    have st: "csteps (core_of w') (core_of w2)"
      using ensure_pi_csteps [OF e2] esteps_csteps [OF stop_pi_esteps [of w']]
      by (rule rtranclp_trans [rotated])
    show ?thesis
    proof (cases x)
      case (Inl err)
      with e2 st show ?thesis by (simp add: tame_def)
    next
      case (Inr p)
      have "tame (and_io (send_and_wait p prompt od as' w2) (\<lambda>res as w. Done (Some p, res) as w)) as' w2"
        by (rule tame_bind [OF send_and_wait_tame]) (simp add: tame_same)
      with e2 st Inr show ?thesis by (auto simp: tame_def intro: rtranclp_trans)
    qed
  qed
  show ?thesis
  proof (cases r)
    case (Inl err)
    with e ensure_pi_csteps [OF e] show ?thesis by (simp add: send_with_retry_def tame_def)
  next
    case (Inr p)
    have "tame (send_with_retry prompt od as w) as w1"
      using e Inr
      by (simp add: send_with_retry_def)
         (rule tame_bind [OF send_and_wait_tame], auto simp: again tame_same split: sum.splits)
    with ensure_pi_csteps [OF e] show ?thesis by (auto simp: tame_def intro: rtranclp_trans)
  qed
qed

lemma send_with_retry_lean: "lean P (send_with_retry prompt od as w) as w"
proof -
  obtain r w1 where e: "ensure_pi w = (r, w1)" by (cases "ensure_pi w")
  have again: "lean P (case ensure_pi (stop_pi w') of
        (Inl e, w) \<Rightarrow> Done (None, Inl e) as' w
      | (Inr p, w) \<Rightarrow> and_io (send_and_wait p prompt od as' w) (\<lambda>res as w. Done (Some p, res) as w))
      as' w'" for as' w'
  proof -
    obtain x w2 where e2: "ensure_pi (stop_pi w') = (x, w2)" by (cases "ensure_pi (stop_pi w')")
    have l: "load w2 = load w'" using ensure_pi_load [OF e2] by simp
    show ?thesis
    proof (cases x)
      case (Inl err)
      with e2 l show ?thesis by (simp add: lean_def)
    next
      case (Inr p)
      have "lean P (and_io (send_and_wait p prompt od as' w2) (\<lambda>res as w. Done (Some p, res) as w)) as' w2"
        by (rule lean_bind [OF send_and_wait_lean]) (simp add: lean_same)
      with e2 l Inr show ?thesis by (auto simp: lean_def)
    qed
  qed
  show ?thesis
  proof (cases r)
    case (Inl err)
    with e ensure_pi_load [OF e] show ?thesis by (simp add: send_with_retry_def lean_def)
  next
    case (Inr p)
    have "lean P (send_with_retry prompt od as w) as w1"
      using e Inr
      by (simp add: send_with_retry_def)
         (rule lean_bind [OF send_and_wait_lean], auto simp: again lean_same split: sum.splits)
    with ensure_pi_load [OF e] show ?thesis by (auto simp: lean_def)
  qed
qed

section \<open>Items are tame and lean\<close>

lemma requeue_esteps: "esteps (core_of w) (core_of (snd (with_db (requeue item) w)))"
proof (cases "source item = source_heartbeat")
  case True
  then show ?thesis by (simp add: with_db_def requeue_def core_of_def)
next
  case False
  obtain f fs where nf: "next_fault (faults (wdb w)) = (f, fs)"
    by (cases "next_fault (faults (wdb w))")
  have "core_of (snd (with_db (requeue item) w)) = core_of (snd (with_db
      (enqueue (priority item) (source item) (content item) (reply_to item)) w))"
    using nf False by (cases f) (simp_all add: with_db_def inbox_sql_defs core_of_def)
  then show ?thesis
    using enqueue_esteps [OF False, of w "priority item" "content item" "reply_to item"] by simp
qed

lemma requeue_csteps: "csteps (core_of w) (core_of (snd (with_db (requeue item) w)))"
  by (rule esteps_csteps [OF requeue_esteps])

lemma handle_pi_error_csteps:
  "handle_pi_error item conv e kill w = (stop, w') \<Longrightarrow> csteps (core_of w) (core_of w')"
  using requeue_csteps [of w item] esteps_csteps [OF stop_pi_esteps [of w]]
  by (auto simp: handle_pi_error_def requeue_preempted_def Let_def core_frame split: if_splits)

lemma handle_pi_error_load:
  "handle_pi_error item conv e kill w = (False, w') \<Longrightarrow> load w' = load w"
proof -
  assume h: "handle_pi_error item conv e kill w = (False, w')"
  then have "w' = (if source item = source_user
      then say conv (''Error: '' @ pi_error_text (wlib (if kill then stop_pi w else w)) e)
             (if kill then stop_pi w else w)
      else if kill then stop_pi w else w)"
    by (auto simp: handle_pi_error_def requeue_preempted_def Let_def split: if_splits)
  then show "load w' = load w"
    using load_core [OF core_of_say(2), of conv _ "if kill then stop_pi w else w"] by auto
qed

lemma retry_empty_tame: "tame (retry_empty_response p as w) as w"
  unfolding retry_empty_response_def
  by (rule tame_bind [OF send_and_wait_tame]) (simp add: tame_same split: sum.splits)

lemma retry_empty_lean: "lean P (retry_empty_response p as w) as w"
  unfolding retry_empty_response_def
  by (rule lean_bind [OF send_and_wait_lean]) (simp add: lean_same split: sum.splits)

lemma accept_reply_tame: "tame (accept_reply item p reply as w) as w"
  unfolding accept_reply_def Let_def
  by (rule tame_from [of "w\<lparr>last_use := now_ns w\<rparr>"])
     (simp_all add: core_frame retry_empty_tame tame_same split: option.splits)

lemma accept_reply_lean: "lean P (accept_reply item p reply as w) as w"
  unfolding accept_reply_def Let_def
  by (rule lean_from [of "w\<lparr>last_use := now_ns w\<rparr>"])
     (simp_all add: core_frame retry_empty_lean lean_same split: option.splits)

lemma prompt_turn_tame: "tame (prompt_turn item conv prompt as w) as w"
  unfolding prompt_turn_def Let_def
proof (rule tame_bind [OF send_with_retry_tame], clarify)
  fix p res as' w'
  show "tame (case res of
      Inl e \<Rightarrow> (case handle_pi_error item conv e (p \<noteq> None) w' of (stop, w) \<Rightarrow> Done stop as' w)
    | Inr reply \<Rightarrow>
        and_io (accept_reply item p reply as' w') (\<lambda>reply as w2.
          if should_suppress_reply reply (source item) then Done False as w2
          else Done False as (send_reply_with_files conv
            (if debug_timing (cfg w2) then reply @ timing_text (now_ns w) w2 else reply)
            (reply_to item) w2))) as' w'"
  proof (cases res)
    case (Inl e)
    obtain stop w2 where "handle_pi_error item conv e (p \<noteq> None) w' = (stop, w2)"
      by (cases "handle_pi_error item conv e (p \<noteq> None) w'")
    with handle_pi_error_csteps [OF this] Inl show ?thesis by (simp add: tame_Done)
  next
    case (Inr reply)
    show ?thesis unfolding Inr sum.case
      by (rule tame_bind [OF accept_reply_tame]) (simp add: tame_same core_frame)
  qed
qed

lemma prompt_turn_lean: "lean (\<lambda>stop. \<not> stop) (prompt_turn item conv prompt as w) as w"
  unfolding prompt_turn_def Let_def
proof (rule lean_bind [OF send_with_retry_lean], clarify)
  fix p res as' w'
  show "lean (\<lambda>stop. \<not> stop) (case res of
      Inl e \<Rightarrow> (case handle_pi_error item conv e (p \<noteq> None) w' of (stop, w) \<Rightarrow> Done stop as' w)
    | Inr reply \<Rightarrow>
        and_io (accept_reply item p reply as' w') (\<lambda>reply as w2.
          if should_suppress_reply reply (source item) then Done False as w2
          else Done False as (send_reply_with_files conv
            (if debug_timing (cfg w2) then reply @ timing_text (now_ns w) w2 else reply)
            (reply_to item) w2))) as' w'"
  proof (cases res)
    case (Inl e)
    obtain stop w2 where h: "handle_pi_error item conv e (p \<noteq> None) w' = (stop, w2)"
      by (cases "handle_pi_error item conv e (p \<noteq> None) w'")
    show ?thesis
    proof (cases stop)
      case True
      with h Inl show ?thesis by (simp add: lean_def)
    next
      case False
      with h Inl handle_pi_error_load [of item conv e "p \<noteq> None" w' w2] show ?thesis
        by (simp add: lean_def)
    qed
  next
    case (Inr reply)
    have "load (send_reply_with_files conv t (reply_to item) w2) \<le> load w2" for t w2
      using load_core [OF core_of_reply] by simp
    then show ?thesis unfolding Inr sum.case
      by (intro lean_bind [OF accept_reply_lean]) (simp add: lean_same)
  qed
qed

lemma core_of_typing [core_frame]: "core_of (set_typing c b w) = core_of w"
  by (simp add: set_typing_def core_frame)

lemma process_prompt_tame: "tame (process_prompt item as w) as w"
proof (cases "build_prompt item w")
  case None
  then show ?thesis by (simp add: process_prompt_def tame_same)
next
  case (Some prompt)
  obtain conv w1 where rr: "resolve_room_id w = (conv, w1)" by (cases "resolve_room_id w")
  have c1: "core_of w1 = core_of w" using core_of_resolve [of w] rr by simp
  show ?thesis
  proof (cases "conv = []")
    case True
    then show ?thesis
      using Some rr requeue_csteps [of w1 item] c1
      by (simp add: process_prompt_def handle_no_room_id_def tame_Done tame_same)
  next
    case False
    have "tame (and_io (prompt_turn item conv prompt as (set_typing conv True w1)) (\<lambda>stop as w.
        Done stop as (set_typing conv False w))) as (set_typing conv True w1)"
      by (rule tame_bind [OF prompt_turn_tame]) (simp add: tame_same core_frame)
    then have "tame (and_io (prompt_turn item conv prompt as (set_typing conv True w1)) (\<lambda>stop as w.
        Done stop as (set_typing conv False w))) as w"
      by (rule tame_from [rotated]) (simp add: core_frame c1)
    with Some rr False show ?thesis by (simp add: process_prompt_def)
  qed
qed

lemma process_prompt_lean: "lean (\<lambda>stop. \<not> stop) (process_prompt item as w) as w"
proof (cases "build_prompt item w")
  case None
  then show ?thesis by (simp add: process_prompt_def lean_same)
next
  case (Some prompt)
  obtain conv w1 where rr: "resolve_room_id w = (conv, w1)" by (cases "resolve_room_id w")
  have c1: "core_of w1 = core_of w" using core_of_resolve [of w] rr by simp
  show ?thesis
  proof (cases "conv = []")
    case True
    then show ?thesis
      using Some rr load_core [OF c1]
      by (simp add: process_prompt_def handle_no_room_id_def lean_def)
  next
    case False
    have "lean (\<lambda>stop. \<not> stop) (and_io (prompt_turn item conv prompt as (set_typing conv True w1))
        (\<lambda>stop as w. Done stop as (set_typing conv False w))) as (set_typing conv True w1)"
    proof (cases "prompt_turn item conv prompt as (set_typing conv True w1)")
      case (Done stop as2 w2)
      have "load (set_typing conv False w2) = load w2" by (rule load_core) (simp add: core_frame)
      with prompt_turn_lean [of item conv prompt as "set_typing conv True w1"] Done show ?thesis
        by (simp add: lean_def)
    qed (simp add: lean_def)
    then have "lean (\<lambda>stop. \<not> stop) (and_io (prompt_turn item conv prompt as (set_typing conv True w1))
        (\<lambda>stop as w. Done stop as (set_typing conv False w))) as w"
      by (rule lean_from [rotated]) (simp add: core_frame c1)
    with Some rr False show ?thesis by (simp add: process_prompt_def)
  qed
qed

section \<open>The compact item\<close>

lemma take_owed:
  "chan_ok (core_of w) \<Longrightarrow> compact_chan w = Some ch \<Longrightarrow> owed ch (core_of (w\<lparr>compact_chan := None\<rparr>))"
  by (auto simp: chan_ok_def owed_def core_of_def)

lemma take_csteps: "csteps (core_of w) (core_of (w\<lparr>compact_chan := None\<rparr>))"
  using cstep.s_take [of "core_of w"] by (auto simp: core_of_def)

lemma answer_csteps: "owed ch (core_of w) \<Longrightarrow> csteps (core_of w) (core_of (answer ch res w))"
  using cstep.s_answer [of ch "core_of w" res] by (auto simp: owed_def answer_def core_of_def)

lemma pi_compact_shorter: "pi_compact p as w = Done r as' w' \<Longrightarrow> length as' \<le> length as"
  by (auto simp: pi_compact_def wait_for_compact_response_def and_io_def less_imp_le
      split: if_splits prod.splits option.splits io.splits dest: drain_events_shorter)

lemma pi_compact_load:
  assumes "pi_compact p as w = Done r as' w'"
  shows "length as' + load w' \<le> length as + load w"
proof -
  obtain e w1 where run: "send_command p compact_command w = (e, w1)"
    by (cases "send_command p compact_command w")
  then have l: "load w1 = load w"
    using load_core [OF core_of_send_command [of p compact_command w]] by simp
  show ?thesis
  proof (cases "is_alive p w \<and> e = None")
    case True
    then have wait: "wait_for_compact_response p as w1 = Done r as' w'"
      using assms run by (simp add: pi_compact_def)
    show ?thesis
    proof (cases "drain_events p compact_handle False None as w1")
      case (Blocked w2)
      with wait show ?thesis by (simp add: wait_for_compact_response_def)
    next
      case (Done x as2 w2)
      with wait l compact_waiter.drain_load [OF Done] show ?thesis
        by (cases x) (simp add: wait_for_compact_response_def)
    qed
  next
    case False
    with assms run l show ?thesis by (auto simp: pi_compact_def split: if_splits option.splits)
  qed
qed

lemma process_compact_tame:
  assumes ok: "chan_ok (core_of w)"
  shows "tame (process_compact as w) as w"
proof (cases "compact_chan w")
  case None
  then show ?thesis by (simp add: process_compact_def tame_same)
next
  case (Some ch)
  let ?w = "w\<lparr>compact_chan := None\<rparr>"
  have o: "owed ch (core_of ?w)" by (rule take_owed [OF ok Some])
  show ?thesis
  proof (cases "if is_active ?w then pi_proc ?w else None")
    case None
    have "csteps (core_of w) (core_of (answer ch (Inl ''no active session'') ?w))"
      using take_csteps answer_csteps [OF o] by (rule rtranclp_trans)
    with Some None show ?thesis by (simp add: process_compact_def Let_def tame_Done)
  next
    case p: (Some p)
    show ?thesis
    proof (cases "pi_compact p as ?w")
      case (Blocked w1)
      have "csteps (core_of w) (core_of w1)"
        using take_csteps [of w] esteps_csteps [OF pi_compact_esteps [of ?w p as]] Blocked
        by (auto intro: rtranclp_trans)
      with Some p Blocked show ?thesis by (simp add: process_compact_def Let_def tame_def)
    next
      case (Done r as1 w1)
      have e: "esteps (core_of ?w) (core_of w1)" using pi_compact_esteps [of ?w p as] Done by simp
      have "owed ch (core_of w1)" by (rule owed_esteps [OF e o])
      then have "csteps (core_of w) (core_of (answer ch res w1))" for res
        using take_csteps [of w] esteps_csteps [OF e] answer_csteps [of ch w1 res]
        by (meson rtranclp_trans)
      with Some p Done pi_compact_shorter [OF Done] show ?thesis
        by (simp add: process_compact_def Let_def tame_def)
    qed
  qed
qed

lemma process_compact_lean: "lean P (process_compact as w) as w"
proof -
  have a: "load (answer ch res w') = load w'" for ch res w' by (simp add: answer_def load_def)
  have t: "load (w\<lparr>compact_chan := None\<rparr>) = load w" by (simp add: load_def)
  show ?thesis
  proof (cases "compact_chan w")
    case None
    then show ?thesis by (simp add: process_compact_def lean_same)
  next
    case (Some ch)
    let ?w = "w\<lparr>compact_chan := None\<rparr>"
    show ?thesis
    proof (cases "if is_active ?w then pi_proc ?w else None")
      case None
      with Some a t show ?thesis by (simp add: process_compact_def Let_def lean_def)
    next
      case p: (Some p)
      show ?thesis
      proof (cases "pi_compact p as ?w")
        case (Blocked w1)
        with Some p show ?thesis by (simp add: process_compact_def Let_def lean_def)
      next
        case (Done r as1 w1)
        with Some p a t pi_compact_load [OF Done] show ?thesis
          by (simp add: process_compact_def Let_def lean_def)
      qed
    qed
  qed
qed

lemma core_of_begin_end [core_frame]:
  "core_of (begin_item item w) = core_of w" "core_of (end_item w) = core_of w"
  by (simp_all add: begin_item_def end_item_def core_of_def)

lemma process_item_tame:
  assumes "chan_ok (core_of w)"
  shows "tame (process_item item as w) as w"
proof -
  let ?w = "begin_item item w"
  have ok: "chan_ok (core_of ?w)" using assms by (simp add: core_frame)
  have "tame (and_io (process_compact as ?w) (\<lambda>_ as w. Done False as w)) as ?w"
    by (rule tame_bind [OF process_compact_tame [OF ok]]) (simp add: tame_same)
  then have "tame (if source item = source_compact
      then and_io (process_compact as ?w) (\<lambda>_ as w. Done False as w)
      else process_prompt item as ?w) as ?w"
    by (simp add: process_prompt_tame)
  then have "tame (process_item item as w) as ?w" unfolding process_item_def
    by (rule tame_bind) (simp add: tame_same core_frame)
  then show ?thesis by (rule tame_from [rotated]) (simp add: core_frame)
qed

lemma process_item_lean: "lean (\<lambda>stop. \<not> stop) (process_item item as w) as w"
proof -
  let ?w = "begin_item item w"
  let ?body = "if source item = source_compact
    then and_io (process_compact as ?w) (\<lambda>_ as w. Done False as w) else process_prompt item as ?w"
  have "lean (\<lambda>stop. \<not> stop) (and_io (process_compact as ?w) (\<lambda>_ as w. Done False as w)) as ?w"
    by (rule lean_bind [OF process_compact_lean]) (simp add: lean_same)
  then have b: "lean (\<lambda>stop. \<not> stop) ?body as ?w"
    by (simp add: process_prompt_lean)
  have l: "load ?w = load w" by (rule load_core) (simp add: core_frame)
  show ?thesis
  proof (cases ?body)
    case (Blocked w1)
    then show ?thesis unfolding process_item_def by (simp only: and_io_Blocked) (simp add: lean_def)
  next
    case (Done stop as1 w1)
    have "load (end_item w1) = load w1" by (rule load_core) (simp add: core_frame)
    with b l show ?thesis unfolding process_item_def Done and_io_Done by (simp add: lean_def)
  qed
qed

end
