(* ===== verification/Worker_Loop.thy ===== *)
theory Worker_Loop
  imports Worker
begin

text \<open>
  The loops of the worker, \<open>drainOnce\<close> and \<open>Run\<close> (\<open>worker.go\<close>), over every schedule, and the
  properties of whole runs. Both loops are total functions: a round of \<open>drain_once\<close> takes an item
  and either stops or leaves less schedule and load together, a round of \<open>run_loop\<close> uses up the
  schedule.
\<close>

section \<open>Taking an item\<close>

text \<open>The start of a round of \<open>drainOnce\<close>; others may run before the dequeue and after the merge.\<close>

definition take_item :: "act list \<Rightarrow> world \<Rightarrow> inbox_row option \<times> act list \<times> world" where
  "take_item as w =
     (case pause as w of
        (as, w) \<Rightarrow>
          (if root_cancelled w then (None, as, w)
           else case with_db dequeue w of
                  (Inl e, w) \<Rightarrow> (None, as, w)
                | (Inr item, w) \<Rightarrow>
                    (case (if source item = source_user then merge_user_items item w else (item, w)) of
                       (item, w) \<Rightarrow> (case pause as w of (as, w) \<Rightarrow> (Some item, as, w)))))"

lemma dequeue_load: "with_db dequeue w = (Inr item, w') \<Longrightarrow> load w' < load w"
proof -
  assume h: "with_db dequeue w = (Inr item, w')"
  then obtain d where d: "dequeue (wdb w) = (Inr item, d)" "w' = w\<lparr>wdb := d\<rparr>"
    by (auto simp: with_db_def split: prod.splits)
  have "length (inbox d) < length (inbox (wdb w))" using dequeue_shrinks [OF d(1)] .
  moreover have "reminders d = reminders (wdb w)"
    using d(1) by (cases "wdb w" rule: dequeue_cases) auto
  ultimately show "load w' < load w" using d by (simp add: load_def)
qed

lemma dequeue_csteps: "with_db dequeue w = (r, w') \<Longrightarrow> csteps (core_of w) (core_of w')"
proof -
  assume h: "with_db dequeue w = (r, w')"
  then obtain d where d: "dequeue (wdb w) = (r, d)" "w' = w\<lparr>wdb := d\<rparr>"
    by (auto simp: with_db_def split: prod.splits)
  show "csteps (core_of w) (core_of w')"
  proof (cases "wdb w" rule: dequeue_cases)
    case (row x fs)
    with d have "core_of w' =
        core_of w\<lparr>c_rows := filter (\<lambda>y. row_id y \<noteq> row_id x) (c_rows (core_of w))\<rparr>"
      by (auto simp: core_of_def delete_row_def)
    then show ?thesis using cstep.s_remove [of "core_of w"] by auto
  qed (use d in \<open>auto simp: core_of_def\<close>)
qed

lemma merge_db:
  "merge_user_items item w = (item', w') \<Longrightarrow>
   csteps (core_of w) (core_of w') \<and> load w' \<le> load w"
proof -
  assume h: "merge_user_items item w = (item', w')"
  obtain res d where b: "dequeue_user_batch (wdb w) = (res, d)" by (cases "dequeue_user_batch (wdb w)")
  have w': "w' = w\<lparr>wdb := d\<rparr>"
    using h b by (auto simp: merge_user_items_def with_db_def split: sum.splits if_splits)
  obtain f fs where nf: "next_fault (faults (wdb w)) = (f, fs)"
    by (cases "next_fault (faults (wdb w))")
  show ?thesis
  proof (cases f)
    case None
    with nf b w' have "core_of w' =
        core_of w\<lparr>c_rows := filter (\<lambda>r. source r \<noteq> ''user'') (c_rows (core_of w))\<rparr>"
      by (auto simp: inbox_sql_defs core_of_def)
    moreover have "load w' \<le> load w"
      using nf b w' None by (auto simp: inbox_sql_defs load_def)
    ultimately show ?thesis using cstep.s_remove [of "core_of w"] by auto
  next
    case (Some m)
    with nf b w' show ?thesis by (auto simp: inbox_sql_defs core_of_def load_def)
  qed
qed

lemma take_item_facts:
  assumes "take_item as w = (r, as', w')"
  shows "csteps (core_of w) (core_of w')" "length as' \<le> length as"
    "r \<noteq> None \<Longrightarrow> length as' + load w' < length as + load w"
proof -
  obtain as1 w1 where p1: "pause as w = (as1, w1)" by (cases "pause as w")
  have s1: "csteps (core_of w) (core_of w1)" "length as1 \<le> length as"
    "length as1 + load w1 \<le> length as + load w"
    using esteps_csteps [OF pause_esteps [of w as]] pause_length [of as w] pause_load [of as w] p1
    by auto
  obtain x w2 where dq: "with_db dequeue w1 = (x, w2)" by (cases "with_db dequeue w1")
  have s2: "csteps (core_of w) (core_of w2)"
    using s1(1) dequeue_csteps [OF dq] by (rule rtranclp_trans)
  show "csteps (core_of w) (core_of w')" "length as' \<le> length as"
    "r \<noteq> None \<Longrightarrow> length as' + load w' < length as + load w"
  proof -
    consider "r = None" "as' = as1" "w' = w1 \<or> w' = w2"
      | item item2 w3 where "x = Inr item"
        "(if source item = source_user then merge_user_items item w2 else (item, w2)) = (item2, w3)"
        "r = Some item2" "pause as1 w3 = (as', w')"
      using assms p1 dq
      by (auto simp: take_item_def split: if_splits sum.splits prod.splits)
    then have "csteps (core_of w) (core_of w') \<and> length as' \<le> length as \<and>
        (r \<noteq> None \<longrightarrow> length as' + load w' < length as + load w)"
    proof cases
      case 1
      with s1 s2 show ?thesis by auto
    next
      case (2 item item2 w3)
      have s3: "csteps (core_of w2) (core_of w3)" "load w3 \<le> load w2"
        using 2(2) merge_db [of item w2 item2 w3] by (auto split: if_splits)
      have "csteps (core_of w) (core_of w')"
        using s2 s3(1) esteps_csteps [OF pause_esteps [of w3 as1]] 2(4)
        by (metis rtranclp_trans snd_conv)
      moreover have "length as' + load w' \<le> length as1 + load w3" "length as' \<le> length as1"
        using pause_load [of as1 w3] pause_length [of as1 w3] 2(4) by auto
      moreover have "load w2 < load w1" using dequeue_load dq 2(1) by simp
      ultimately show ?thesis using s1 s3(2) by auto
    qed
    then show "csteps (core_of w) (core_of w')" "length as' \<le> length as"
      "r \<noteq> None \<Longrightarrow> length as' + load w' < length as + load w" by auto
  qed
qed

lemma round_less:
  "process_item item as1 w1 = Done False as2 w2 \<Longrightarrow>
   take_item as w = (Some item, as1, w1) \<Longrightarrow> length as2 + load w2 < length as + load w"
  using take_item_facts(3) [of as w "Some item" as1 w1] process_item_lean [of item as1 w1]
  by (auto simp: lean_def)

section \<open>The loops\<close>

function drain_once :: "act list \<Rightarrow> world \<Rightarrow> unit io" where
  "drain_once as w =
     (case take_item as w of
        (None, as, w) \<Rightarrow> Done () as w
      | (Some item, as, w) \<Rightarrow>
          (case process_item item as w of
             Blocked w \<Rightarrow> Blocked w
           | Done stop as w \<Rightarrow> if stop then Done () as w else drain_once as w))"
  by pat_completeness auto
termination
  by (relation "measure (\<lambda>(as, w). length as + load w)") (auto dest!: round_less)

declare drain_once.simps [simp del]

lemma process_compact_shorter: "process_compact as w = Done u as' w' \<Longrightarrow> length as' \<le> length as"
  by (auto simp: process_compact_def Let_def and_io_def split: option.splits if_splits io.splits
      dest: pi_compact_shorter)

lemma process_item_shorter: "process_item item as w = Done stop as' w' \<Longrightarrow> length as' \<le> length as"
proof -
  assume h: "process_item item as w = Done stop as' w'"
  show ?thesis
  proof (cases "source item = source_compact")
    case True
    with h show ?thesis
      by (auto simp: process_item_def and_io_def split: io.splits dest: process_compact_shorter)
  next
    case False
    with h obtain w1 where "process_prompt item as (begin_item item w) = Done stop as' w1"
      by (auto simp: process_item_def and_io_def split: io.splits)
    then show ?thesis using process_prompt_tame [of item as "begin_item item w"]
      by (auto simp: tame_def)
  qed
qed

lemma drain_once_shorter: "drain_once as w = Done u as' w' \<Longrightarrow> length as' \<le> length as"
proof (induction "length as + load w" arbitrary: as w rule: less_induct)
  case less
  obtain r as1 w1 where t: "take_item as w = (r, as1, w1)" by (cases "take_item as w")
  note l1 = take_item_facts(2) [OF t]
  show ?case
  proof (cases r)
    case None
    with less(2) t l1 show ?thesis by (simp add: drain_once.simps)
  next
    case (Some item)
    show ?thesis
    proof (cases "process_item item as1 w1")
      case (Blocked w2)
      with less(2) t Some show ?thesis by (simp add: drain_once.simps)
    next
      case (Done stop as2 w2)
      note l2 = process_item_shorter [OF Done]
      show ?thesis
      proof (cases stop)
        case True
        with less(2) t Some Done l1 l2 show ?thesis by (simp add: drain_once.simps)
      next
        case False
        then have "length as2 + load w2 < length as + load w"
          using round_less Done t Some by simp
        moreover have "drain_once as2 w2 = Done u as' w'"
          using less(2) t Some Done False by (simp add: drain_once.simps)
        ultimately have "length as' \<le> length as2" by (rule less(1))
        with l1 l2 show ?thesis by simp
      qed
    qed
  qed
qed

text \<open>The loop of \<open>Run\<close>: \<open>Done\<close> when it has returned after the shutdown.\<close>

function run_loop :: "act list \<Rightarrow> world \<Rightarrow> unit io" where
  "run_loop [] w = Blocked w"
| "run_loop (a # as) w =
     (if a = PCtx \<and> root_cancelled w then Done () as (stop_pi w)
      else if a = PWake \<and> wake w then
        (case drain_once as (w\<lparr>wake := False\<rparr>) of
           Blocked w \<Rightarrow> Blocked w
         | Done _ as w \<Rightarrow> run_loop as w)
      else run_loop as (env a w))"
  by pat_completeness auto
termination
  by (relation "measure (\<lambda>(as, w). length as)") (auto dest!: drain_once_shorter)

definition run_worker :: "act list \<Rightarrow> world \<Rightarrow> unit io" where
  "run_worker as w = and_io (drain_once as w) (\<lambda>_ as w. run_loop as w)"

section \<open>Runs are runs of the abstract machine\<close>

lemma drain_once_csteps:
  "chan_ok (core_of w) \<Longrightarrow> csteps (core_of w) (core_of (io_world (drain_once as w)))"
proof (induction "length as + load w" arbitrary: as w rule: less_induct)
  case less
  obtain r as1 w1 where t: "take_item as w = (r, as1, w1)" by (cases "take_item as w")
  note s1 = take_item_facts(1) [OF t]
  show ?case
  proof (cases r)
    case None
    with t s1 show ?thesis by (simp add: drain_once.simps)
  next
    case (Some item)
    have ok: "chan_ok (core_of w1)" using core_ok_csteps(3) [OF s1 less(2)] .
    have s2: "csteps (core_of w) (core_of (io_world (process_item item as1 w1)))"
      using s1 process_item_tame [OF ok, of item as1] by (auto simp: tame_def intro: rtranclp_trans)
    show ?thesis
    proof (cases "process_item item as1 w1")
      case (Blocked w2)
      with t Some s2 show ?thesis by (simp add: drain_once.simps)
    next
      case (Done stop as2 w2)
      show ?thesis
      proof (cases stop)
        case True
        with t Some Done s2 show ?thesis by (simp add: drain_once.simps)
      next
        case False
        then have l: "length as2 + load w2 < length as + load w" using round_less Done t Some by simp
        have s3: "csteps (core_of w) (core_of w2)" using s2 Done by simp
        have "csteps (core_of w2) (core_of (io_world (drain_once as2 w2)))"
          using l core_ok_csteps(3) [OF s3 less(2)] by (rule less(1))
        with s3 t Some Done False show ?thesis
          by (simp add: drain_once.simps [of as w])
      qed
    qed
  qed
qed

lemma run_loop_csteps:
  "chan_ok (core_of w) \<Longrightarrow> csteps (core_of w) (core_of (io_world (run_loop as w)))"
proof (induction as w rule: run_loop.induct)
  case (2 a as w)
  show ?case
  proof (cases "a = PCtx \<and> root_cancelled w")
    case True
    then show ?thesis using esteps_csteps [OF stop_pi_esteps [of w]] by simp
  next
    case c1: False
    show ?thesis
    proof (cases "a = PWake \<and> wake w")
      case True
      let ?w = "w\<lparr>wake := False\<rparr>"
      have c: "core_of ?w = core_of w" by (simp add: core_frame)
      have d: "csteps (core_of w) (core_of (io_world (drain_once as ?w)))"
        using drain_once_csteps [of ?w as] "2.prems" c by simp
      show ?thesis
      proof (cases "drain_once as ?w")
        case (Blocked w1)
        with True d show ?thesis by simp
      next
        case (Done u as1 w1)
        with d have s: "csteps (core_of w) (core_of w1)" by simp
        have "csteps (core_of w1) (core_of (io_world (run_loop as1 w1)))"
          using "2.IH"(1) [OF c1 True Done] core_ok_csteps(3) [OF s "2.prems"] by simp
        with s True Done show ?thesis by (auto intro: rtranclp_trans)
      qed
    next
      case False
      have e: "csteps (core_of w) (core_of (env a w))" by (rule esteps_csteps [OF env_esteps])
      have "csteps (core_of (env a w)) (core_of (io_world (run_loop as (env a w))))"
        using "2.IH"(2) [OF c1 False] core_ok_csteps(3) [OF e "2.prems"] by simp
      with e c1 False show ?thesis by (auto intro: rtranclp_trans)
    qed
  qed
qed simp

lemma run_worker_csteps:
  assumes "chan_ok (core_of w)"
  shows "csteps (core_of w) (core_of (io_world (run_worker as w)))"
proof (cases "drain_once as w")
  case (Blocked w1)
  with drain_once_csteps [OF assms, of as] show ?thesis by (simp add: run_worker_def)
next
  case (Done u as1 w1)
  with drain_once_csteps [OF assms, of as] have s: "csteps (core_of w) (core_of w1)" by simp
  from run_loop_csteps [OF core_ok_csteps(3) [OF s assms], of as1] s Done show ?thesis
    by (auto simp: run_worker_def)
qed

lemma new_worker_ok:
  "inbox_ok d \<Longrightarrow> length (filter (\<lambda>r. source r = source_heartbeat) (inbox d)) \<le> 1 \<Longrightarrow>
   proc_ok (core_of (new_worker d l c hb tr t)) \<and> box_ok (core_of (new_worker d l c hb tr t)) \<and>
   chan_ok (core_of (new_worker d l c hb tr t))"
  by (simp add: proc_ok_def box_ok_def chan_ok_def core_of_def new_worker_def inbox_ok_def)

section \<open>A whole turn\<close>

lemma send_reply_plain:
  assumes "CHR ''<'' \<notin> set reply" "reply \<noteq> []"
  shows "out (send_reply_with_files conv reply rto w) = out w @ [SendMsg conv reply rto]"
    "inbox (wdb (send_reply_with_files conv reply rto w)) = inbox (wdb w)"
proof -
  have "send_file_matches reply = ([], reply)"
    using matches_text [OF assms(1), of "[]"] by (simp add: send_file_matches.simps [of "[]"])
  then have e: "extract_send_files reply = (reply, [])" by (simp add: extract_send_files_def)
  then show "out (send_reply_with_files conv reply rto w) = out w @ [SendMsg conv reply rto]"
    using assms(2)
    by (simp add: send_reply_with_files_def send_message_def emit_def put_outbox_def Let_def
        split: list.splits)
  show "inbox (wdb (send_reply_with_files conv reply rto w)) = inbox (wdb w)"
    using e assms(2)
    by (simp add: send_reply_with_files_def send_message_def emit_def put_outbox_def Let_def
        frame_simps split: list.splits)
qed

text \<open>The turn of a process that is alive and takes its input.\<close>

lemma live_turn:
  assumes "pi_proc w = Some p" "is_alive p w" "p \<notin> set (closed w)"
    "next_fault (stdin_faults w) = (None, fs)"
  shows "send_with_retry prompt od as w =
    (case wait_for_result p od as (emit (Stdin p (prompt_command prompt)) (w\<lparr>stdin_faults := fs\<rparr>)) of
       Blocked w \<Rightarrow> Blocked w
     | Done (Inr reply) as w \<Rightarrow> Done (Some p, Inr reply) as w
     | Done (Inl e) as w \<Rightarrow>
         (if ctx_done w then Done (Some p, Inl e) as w
          else case ensure_pi (stop_pi w) of
                 (Inl e, w) \<Rightarrow> Done (None, Inl e) as w
               | (Inr p, w) \<Rightarrow> and_io (send_and_wait p prompt od as w) (\<lambda>res as w.
                   Done (Some p, res) as w)))"
proof -
  have "ensure_pi w = (Inr p, w)" using assms by (simp add: ensure_pi_def is_active_def)
  then show ?thesis
    using assms
    by (simp add: send_with_retry_def send_and_wait_def send_prompt_command_def send_command_def
        and_io_def split: io.splits sum.splits)
qed

section \<open>Properties\<close>

text \<open>The state in which a worker is created: no process was ever started, nothing was answered.\<close>

definition started :: "world \<Rightarrow> bool" where
  "started w \<longleftrightarrow> pi_proc w = None \<and> next_pid w = 0 \<and> compact_chan w = None \<and> chans w = []"

lemma started_ok: "started w \<Longrightarrow> proc_ok (core_of w) \<and> chan_ok (core_of w)"
  by (simp add: started_def proc_ok_def chan_ok_def core_of_def)

lemma started_csteps: "started w \<Longrightarrow> csteps (core_of w) (core_of (io_world (run_worker as w)))"
  by (rule run_worker_csteps) (simp add: started_ok)


lemma started_sample: "started sample_world"
  by (simp add: started_def sample_world_def new_worker_def)


text \<open>
  C4. At most one heartbeat is pending at any time of any run, and the inbox stays well-formed: requeueing,
  preemption and failing statements included.
\<close>

theorem one_heartbeat_pending:
  assumes "started w" "inbox_ok (wdb w)"
    "length (filter (\<lambda>r. source r = source_heartbeat) (inbox (wdb w))) \<le> 1"
  shows "inbox_ok (wdb (io_world (run_worker as w))) \<and>
    length (filter (\<lambda>r. source r = source_heartbeat) (inbox (wdb (io_world (run_worker as w))))) \<le> 1"
proof -
  have "box_ok (core_of w)" using assms by (simp add: box_ok_def core_of_def inbox_ok_def)
  from core_ok_csteps(2) [OF started_csteps [OF assms(1), of as] this] show ?thesis
    by (simp add: box_ok_def core_of_def inbox_ok_def)
qed

theorem one_heartbeat_pending_witness:
  "length (filter (\<lambda>r. source r = source_heartbeat) (inbox (wdb (io_world
     (run_worker [AHeartbeat, AHeartbeat, PWake] (sample_world\<lparr>hb_interval := 5\<rparr>)))))) \<le> 1"
  using one_heartbeat_pending [of "sample_world\<lparr>hb_interval := 5\<rparr>" "[AHeartbeat, AHeartbeat, PWake]"]
  by (simp add: started_def sample_defs inbox_ok_def rows_ok_def)




definition busy_world :: world where
  "busy_world = sample_world\<lparr>pi_proc := Some 0, next_pid := 1, room_id := ''room'',
     cur_cancel := True, cur_priority := 1\<rparr>"

definition trigger_item :: inbox_row where
  "trigger_item = \<lparr>row_id = 1, priority = 1, source = ''trigger'', content = ''disk full'',
     reply_to = []\<rparr>"

text \<open>Here the agent ends its output after the preemption.\<close>

lemma busy_turn:
  "send_with_retry ''p'' None [AShutdown, PEof] busy_world =
     Done (Some 0, Inl (Cancelled ''context cancelled'')) []
       (busy_world\<lparr>root_cancelled := True, out := [Stdin 0 (prompt_command ''p'')]\<rparr>)"
proof -
  have "wait_for_result 0 None [AShutdown, PEof] w =
      Done (Inl (Cancelled ''context cancelled'')) [] (w\<lparr>root_cancelled := True\<rparr>)" for w
    by (simp add: wait_for_result_def result_loop.simps drain_events.simps env.simps
        cancelled_or_def ctx_done_def)
  then show ?thesis
    using live_turn [of busy_world 0 "[]" "''p''" None "[AShutdown, PEof]"]
    by (simp add: busy_world_def sample_defs is_alive_def emit_def ctx_done_def)
qed


text \<open>
  C9. A turn that fails for any other reason is reported and given up: the item is not pending again, a
  process that failed is stopped, and the user, if there is one, is told the error.
\<close>

theorem failed_turn_reported:
  assumes "send_with_retry prompt (stream_of conv w) as w = Done (p, Inl e) as' w'"
    "\<not> ctx_done w'" "\<forall>what. e \<noteq> Cancelled what"
  shows "\<exists>w''. prompt_turn item conv prompt as w = Done False as' w'' \<and>
    inbox (wdb w'') = inbox (wdb w') \<and> (p \<noteq> None \<longrightarrow> pi_proc w'' = None) \<and>
    (source item = source_user \<longrightarrow>
       last (out w'') = SendMsg conv (''Error: '' @ pi_error_text (wlib w'') e) [])"
proof -
  let ?w1 = "if p \<noteq> None then stop_pi w' else w'"
  let ?w2 = "if source item = source_user then say conv (''Error: '' @ pi_error_text (wlib ?w1) e) ?w1
    else ?w1"
  have "prompt_turn item conv prompt as w = Done False as' ?w2"
    using assms by (auto simp: prompt_turn_def Let_def handle_pi_error_def was_preempted_def)
  moreover have "inbox (wdb ?w2) = inbox (wdb w') \<and> (p \<noteq> None \<longrightarrow> pi_proc ?w2 = None) \<and>
      (source item = source_user \<longrightarrow>
         last (out ?w2) = SendMsg conv (''Error: '' @ pi_error_text (wlib ?w2) e) [])"
    by (simp add: say_def send_message_def emit_def stop_pi_def kill_pi_def Let_def
        split: option.splits list.splits)
  ultimately show ?thesis by blast
qed

lemma start_failure:
  "send_with_retry ''p'' None [] (sample_world\<lparr>room_id := ''room'', start_faults := [Some ''disk full'']\<rparr>) =
   Done (None, Inl (StartFailed ''creating session dir: disk full'')) []
     (sample_world\<lparr>room_id := ''room'', start_faults := []\<rparr>)"
  by (simp add: send_with_retry_def ensure_pi_def start_pi_def start_step_def is_active_def
      resolve_room_id_def ctx_done_def sample_defs)

theorem failed_turn_reported_witness:
  "\<exists>w''. prompt_turn (trigger_item\<lparr>source := ''user''\<rparr>) ''room'' ''p'' []
     (sample_world\<lparr>room_id := ''room'', start_faults := [Some ''disk full'']\<rparr>) = Done False [] w'' \<and>
   last (out w'') = SendMsg ''room'' (''Error: creating session dir: disk full'') []"
  using failed_turn_reported [of "''p''" "''room''"
      "sample_world\<lparr>room_id := ''room'', start_faults := [Some ''disk full'']\<rparr>" "[]" None
      "StartFailed ''creating session dir: disk full''" "[]"
      "sample_world\<lparr>room_id := ''room'', start_faults := []\<rparr>" "trigger_item\<lparr>source := ''user''\<rparr>"]
    start_failure
  by (auto simp: stream_of_def sample_defs ctx_done_def source_defs)



section \<open>Two runs that deviate from the stated intent\<close>

text \<open>
  \<open>handlePiError\<close> requeues preempted items, but only when the turn ends with an error. Here a user's
  message preempts a trigger, the agent acknowledges the abort with an \<open>agent_end\<close> without text,
  and the trigger is gone: it is not pending, and nothing about it was sent.
\<close>

definition lost_turn :: "bool io" where
  "lost_turn = process_item trigger_item
     [AMessage (sample_msg\<lparr>reply_to_id := []\<rparr>), PEvent (end_event [] ''aborted'' [])] busy_world"

theorem acknowledged_abort_loses_trigger:
  "case lost_turn of
     Blocked w \<Rightarrow> False
   | Done stop as w \<Rightarrow> \<not> stop \<and> as = [] \<and> map source (inbox (wdb w)) = [''user''] \<and>
       out w = [Typing ''room'' True,
         Stdin 0 (prompt_command (build_trigger_prompt ''trigger'' ''disk full'')),
         Stdin 0 abort_command, Typing ''room'' False]"
  by code_simp

text \<open>
  The command \<open>!restart\<close> announces that the next message starts a fresh session. Given during a turn it
  kills the agent, the retry of \<open>sendWithRetry\<close> starts the fresh session at once and sends the
  interrupted prompt again.
\<close>

definition restarted_turn :: "bool io" where
  "restarted_turn = process_item (trigger_item\<lparr>source := ''user''\<rparr>)
     [AMessage (sample_msg\<lparr>msg_text := ''!restart'', reply_to_id := []\<rparr>), PDone,
      PEvent (end_event ''done'' ''stop'' [])] busy_world"

theorem restart_resends_prompt:
  "case restarted_turn of
     Blocked w \<Rightarrow> False
   | Done stop as w \<Rightarrow>
       filter (\<lambda>e. case e of Stdin _ _ \<Rightarrow> True | Killed _ \<Rightarrow> True | _ \<Rightarrow> False) (out w) =
         [Stdin 0 (prompt_command ''disk full''), Killed 0, Stdin 1 (prompt_command ''disk full'')]"
  by code_simp

end
