(* ===== verification/Publish_Queue.thy ===== *)
theory Publish_Queue
  imports Prelude
begin

text \<open>
  The Nostr outbox (\<open>nostr/publish_queue.go\<close>): the queue of events still to be published, the
  circuit breaker of each relay, and the table \<open>publish_queue\<close> that makes undelivered events
  survive a restart. Times and durations are nanoseconds.

  An event is represented by its JSON text; whether a text is an event is decided by the Nostr
  library, the parameter \<open>event_ok\<close>. The maps keyed by a relay are functions, the set \<open>Pending\<close>
  is a list without duplicates. The order in which Go visits the relays of a pass is an argument.
  The surroundings are lists in the state: the outcomes of statements, connections and publish
  calls, what each look at the context says, how far the clock moves between two readings, and
  the events other goroutines enqueue while the network is used.
\<close>

section \<open>Durations\<close>

definition second :: int where "second = 1000000000"
definition ttl_undelivered :: int where "ttl_undelivered = 24 * 3600 * second"
definition ttl_delivered :: int where "ttl_delivered = 10 * 60 * second"
definition breaker_threshold :: nat where "breaker_threshold = 3"
definition reject_threshold :: nat where "reject_threshold = 3"
definition base_cooldown :: int where "base_cooldown = 30 * second"
definition max_cooldown :: int where "max_cooldown = 30 * 60 * second"

lemmas duration_defs = second_def ttl_undelivered_def ttl_delivered_def base_cooldown_def
  max_cooldown_def

section \<open>The circuit breaker\<close>

datatype breaker_state = Closed | Open | HalfOpen

datatype allow_result = Deny | AllowProbe | AllowAll

text \<open>\<open>br_next_probe\<close> has a meaning only once the breaker has been open.\<close>

record relay_breaker =
  br_state :: breaker_state
  br_failures :: nat
  br_cooldown :: int
  br_next_probe :: int

definition new_breaker :: relay_breaker where
  "new_breaker = \<lparr>br_state = Closed, br_failures = 0, br_cooldown = 0, br_next_probe = 0\<rparr>"

definition allow :: "int \<Rightarrow> relay_breaker \<Rightarrow> allow_result \<times> relay_breaker" where
  "allow now b =
     (case br_state b of
        Closed \<Rightarrow> (AllowAll, b)
      | Open \<Rightarrow> if \<not> now < br_next_probe b then (AllowProbe, b\<lparr>br_state := HalfOpen\<rparr>) else (Deny, b)
      | HalfOpen \<Rightarrow> (Deny, b))"

definition on_success :: "relay_breaker \<Rightarrow> relay_breaker" where
  "on_success b = b\<lparr>br_state := Closed, br_failures := 0, br_cooldown := base_cooldown\<rparr>"

definition on_failure :: "int \<Rightarrow> relay_breaker \<Rightarrow> relay_breaker" where
  "on_failure now b =
     (let b' = b\<lparr>br_failures := Suc (br_failures b)\<rparr>;
          was_open = (br_state b = Open \<or> br_state b = HalfOpen)
      in if br_state b = HalfOpen \<or> breaker_threshold \<le> br_failures b'
         then let cd = (if was_open then min (br_cooldown b * 2) max_cooldown else base_cooldown)
              in b'\<lparr>br_cooldown := cd, br_state := Open, br_next_probe := now + cd\<rparr>
         else b')"

section \<open>The queue\<close>

record publish_item =
  item_key :: nat
  db_id :: nat
  event :: string
  pending :: "string list"
  delivered :: bool
  created_at :: int
  rejects :: "string \<Rightarrow> nat"

record publish_row =
  pr_id :: nat
  pr_event :: string
  pr_relays :: string
  pr_created :: int

record queue =
  q_items :: "publish_item list"
  q_next_key :: nat
  q_breakers :: "string \<Rightarrow> relay_breaker option"
  q_gen :: nat
  q_waiters :: "nat list"
  q_wake :: bool
  q_rows :: "publish_row list"
  q_row_seq :: nat
  q_faults :: outcomes
  q_connects :: outcomes
  q_publishes :: outcomes
  q_polls :: "bool list"
  q_clock :: int
  q_ticks :: "nat list"
  q_arrivals :: "(string \<times> string list) list list"

text \<open>\<open>time.Now\<close> and \<open>ctx.Err\<close>.\<close>

definition read_clock :: "queue \<Rightarrow> int \<times> queue" where
  "read_clock q =
     (case q_ticks q of
        [] \<Rightarrow> (q_clock q, q)
      | t # ts \<Rightarrow> (q_clock q + int t, q\<lparr>q_clock := q_clock q + int t, q_ticks := ts\<rparr>))"

definition poll_ctx :: "queue \<Rightarrow> bool \<times> queue" where
  "poll_ctx q = (case q_polls q of [] \<Rightarrow> (False, q) | c # cs \<Rightarrow> (c, q\<lparr>q_polls := cs\<rparr>))"

definition q_len :: "queue \<Rightarrow> nat" where "q_len q = length (q_items q)"

definition q_signal :: "queue \<Rightarrow> queue" where "q_signal q = q\<lparr>q_wake := True\<rparr>"

section \<open>Persistence\<close>

definition q_statement :: "queue \<Rightarrow> string option \<times> queue" where
  "q_statement q = (case next_fault (q_faults q) of (f, fs) \<Rightarrow> (f, q\<lparr>q_faults := fs\<rparr>))"

definition q_delete_publish_item :: "nat \<Rightarrow> queue \<Rightarrow> string option \<times> queue" where
  "q_delete_publish_item i q =
     (case q_statement q of
        (Some e, q) \<Rightarrow> (Some e, q)
      | (None, q) \<Rightarrow> (None, q\<lparr>q_rows := filter (\<lambda>r. pr_id r \<noteq> i) (q_rows q)\<rparr>))"

definition q_insert_publish_item ::
    "string \<Rightarrow> string \<Rightarrow> int \<Rightarrow> queue \<Rightarrow> (string + nat) \<times> queue" where
  "q_insert_publish_item evt relays created q =
     (case q_statement q of
        (Some e, q) \<Rightarrow> (Inl e, q)
      | (None, q) \<Rightarrow>
          (Inr (Suc (q_row_seq q)), q\<lparr>
             q_rows := q_rows q @ [\<lparr>pr_id = Suc (q_row_seq q), pr_event = evt,
               pr_relays = relays, pr_created = created\<rparr>],
             q_row_seq := Suc (q_row_seq q)\<rparr>))"

text \<open>\<open>ORDER BY created_at, id\<close>: rows are stored in the order of their ids.\<close>

definition q_list_publish_queue :: "queue \<Rightarrow> (string + publish_row list) \<times> queue" where
  "q_list_publish_queue q =
     (case q_statement q of
        (Some e, q) \<Rightarrow> (Inl e, q)
      | (None, q) \<Rightarrow> (Inr (sort_key pr_created (q_rows q)), q))"

definition delete_item :: "nat \<Rightarrow> queue \<Rightarrow> string option \<times> queue" where
  "delete_item i q =
     (case q_delete_publish_item i q of
        (Some e, q) \<Rightarrow> (Some (''deleting publish queue item '' @ dec_nat i @ '': '' @ e), q)
      | (None, q) \<Rightarrow> (None, q))"

text \<open>The new row's id, or the error; an event always marshals to its text.\<close>

definition insert_item :: "string \<Rightarrow> string list \<Rightarrow> int \<Rightarrow> queue \<Rightarrow> (string + nat) \<times> queue" where
  "insert_item evt relays created q =
     (case q_insert_publish_item evt (join [CHR 0x0A] relays) (created div second) q of
        (Inl e, q) \<Rightarrow> (Inl (''inserting publish queue item: '' @ e), q)
      | (Inr i, q) \<Rightarrow> (Inr i, q))"

definition row_relays :: "publish_row \<Rightarrow> string list" where
  "row_relays r = remdups (filter (\<lambda>u. u \<noteq> []) (map trim_space (split_on CHR 0x0A (pr_relays r))))"

fun load_rows :: "(string \<Rightarrow> bool) \<Rightarrow> publish_row list \<Rightarrow> queue \<Rightarrow> queue" where
  "load_rows event_ok [] q = q"
| "load_rows event_ok (r # rs) q =
     (if \<not> event_ok (pr_event r) \<or> row_relays r = []
      then load_rows event_ok rs (snd (q_delete_publish_item (pr_id r) q))
      else load_rows event_ok rs (q\<lparr>
        q_items := q_items q @ [\<lparr>item_key = q_next_key q, db_id = pr_id r, event = pr_event r,
          pending = row_relays r, delivered = False, created_at = pr_created r * second,
          rejects = (\<lambda>_. 0)\<rparr>],
        q_next_key := Suc (q_next_key q)\<rparr>))"

definition load_queue :: "(string \<Rightarrow> bool) \<Rightarrow> queue \<Rightarrow> string option \<times> queue" where
  "load_queue event_ok q =
     (case q_list_publish_queue q of
        (Inl e, q) \<Rightarrow> (Some (''reading publish queue: '' @ e), q)
      | (Inr rows, q) \<Rightarrow> (None, load_rows event_ok rows q))"

text \<open>A new process over the table: everything in memory starts empty.\<close>

definition new_publish_queue :: "(string \<Rightarrow> bool) \<Rightarrow> queue \<Rightarrow> string option \<times> queue" where
  "new_publish_queue event_ok q =
     load_queue event_ok (q\<lparr>q_items := [], q_next_key := 0, q_breakers := (\<lambda>_. None), q_gen := 0,
       q_waiters := [], q_wake := False\<rparr>)"

definition q_enqueue :: "string \<Rightarrow> string list \<Rightarrow> queue \<Rightarrow> queue" where
  "q_enqueue evt relays q =
     (if relays = [] then q
      else case read_clock q of (now, q) \<Rightarrow>
        (case insert_item evt relays now q of
           (res, q) \<Rightarrow>
             q_signal (q\<lparr>
               q_items := q_items q @ [\<lparr>item_key = q_next_key q,
                 db_id = (case res of Inl e \<Rightarrow> 0 | Inr i \<Rightarrow> i), event = evt, pending = remdups relays,
                 delivered = False, created_at = now, rejects = (\<lambda>_. 0)\<rparr>],
               q_next_key := Suc (q_next_key q)\<rparr>)))"

fun arrive_all :: "(string \<times> string list) list \<Rightarrow> queue \<Rightarrow> queue" where
  "arrive_all [] q = q"
| "arrive_all ((evt, relays) # es) q = arrive_all es (q_enqueue evt relays q)"

text \<open>A network call, during which the mutex is free.\<close>

definition network :: "queue \<Rightarrow> queue" where
  "network q =
     (case q_arrivals q of [] \<Rightarrow> q | es # ess \<Rightarrow> arrive_all es (q\<lparr>q_arrivals := ess\<rparr>))"

section \<open>One pass\<close>

definition breaker_of :: "string \<Rightarrow> queue \<Rightarrow> relay_breaker" where
  "breaker_of r q = (case q_breakers q r of None \<Rightarrow> new_breaker | Some b \<Rightarrow> b)"

definition set_breaker :: "string \<Rightarrow> relay_breaker \<Rightarrow> queue \<Rightarrow> queue" where
  "set_breaker r b q = q\<lparr>q_breakers := (q_breakers q)(r := Some b)\<rparr>"

text \<open>The work of a pass: the items for each relay, and the relays that are probed.\<close>

record work =
  wk_items :: "string \<Rightarrow> nat list"
  wk_probes :: "string list"

definition collect_one :: "int \<Rightarrow> nat \<Rightarrow> string \<Rightarrow> queue \<times> work \<Rightarrow> queue \<times> work" where
  "collect_one now k r qw =
     (case qw of (q, wk) \<Rightarrow>
        (case allow now (breaker_of r q) of
           (res, b) \<Rightarrow>
             (let q = set_breaker r b q;
                  add = wk\<lparr>wk_items := (wk_items wk)(r := wk_items wk r @ [k])\<rparr>
              in case res of
                   AllowAll \<Rightarrow> (q, add)
                 | AllowProbe \<Rightarrow>
                     if r \<in> set (wk_probes wk) then (q, wk)
                     else (q, add\<lparr>wk_probes := r # wk_probes wk\<rparr>)
                 | Deny \<Rightarrow> (q, wk))))"

definition collect_item :: "int \<Rightarrow> publish_item \<Rightarrow> queue \<times> work \<Rightarrow> queue \<times> work" where
  "collect_item now it qw = fold (collect_one now (item_key it)) (pending it) qw"

definition collect_work :: "int \<Rightarrow> queue \<Rightarrow> queue \<times> work" where
  "collect_work now q =
     fold (collect_item now) (q_items q) (q, \<lparr>wk_items = (\<lambda>_. []), wk_probes = []\<rparr>)"

definition update_item :: "nat \<Rightarrow> (publish_item \<Rightarrow> publish_item) \<Rightarrow> queue \<Rightarrow> queue" where
  "update_item k f q = q\<lparr>q_items := map (\<lambda>it. if item_key it = k then f it else it) (q_items q)\<rparr>"

definition find_item :: "nat \<Rightarrow> queue \<Rightarrow> publish_item option" where
  "find_item k q = find (\<lambda>it. item_key it = k) (q_items q)"

definition record_reject :: "nat \<Rightarrow> string \<Rightarrow> queue \<Rightarrow> queue" where
  "record_reject k r q = update_item k (\<lambda>it.
     let n = Suc (rejects it r)
     in if reject_threshold \<le> n
        then it\<lparr>pending := removeAll r (pending it), rejects := (rejects it)(r := 0)\<rparr>
        else it\<lparr>rejects := (rejects it)(r := n)\<rparr>) q"

text \<open>The relay accepted the event; the first relay to do so ends its persistence.\<close>

definition confirm :: "nat \<Rightarrow> string \<Rightarrow> queue \<Rightarrow> queue" where
  "confirm k r q =
     (let q' = update_item k (\<lambda>it. it\<lparr>pending := removeAll r (pending it), delivered := True\<rparr>) q
      in case find_item k q of
           None \<Rightarrow> q'
         | Some it \<Rightarrow>
             (if delivered it \<or> db_id it = 0 then q'
              else case delete_item (db_id it) q' of
                     (Some e, q) \<Rightarrow> q
                   | (None, q) \<Rightarrow> update_item k (\<lambda>it. it\<lparr>db_id := 0\<rparr>) q))"

text \<open>The loop of \<open>publishBatch\<close>: false when the context was cancelled in between.\<close>

fun publish_items :: "string \<Rightarrow> nat list \<Rightarrow> queue \<Rightarrow> bool \<times> queue" where
  "publish_items r [] q = (True, q)"
| "publish_items r (k # ks) q =
     (case poll_ctx q of
        (cancelled, q) \<Rightarrow>
          (if cancelled then (False, q)
           else case next_fault (q_publishes q) of
                  (Some e, fs) \<Rightarrow> publish_items r ks (record_reject k r (network (q\<lparr>q_publishes := fs\<rparr>)))
                | (None, fs) \<Rightarrow> publish_items r ks (confirm k r (network (q\<lparr>q_publishes := fs\<rparr>)))))"

definition publish_batch :: "string \<Rightarrow> nat list \<Rightarrow> queue \<Rightarrow> bool \<times> queue" where
  "publish_batch r ks q =
     (case next_fault (q_connects q) of
        (f, fs) \<Rightarrow>
          (let q = network (q\<lparr>q_connects := fs\<rparr>)
           in case f of
                Some e \<Rightarrow>
                  (case read_clock q of (now, q) \<Rightarrow>
                     (True, set_breaker r (on_failure now (breaker_of r q)) q))
              | None \<Rightarrow>
                  (case publish_items r ks q of
                     (False, q) \<Rightarrow> (False, q)
                   | (True, q) \<Rightarrow> (True, set_breaker r (on_success (breaker_of r q)) q))))"

text \<open>The loop over the relays; the probes whose breaker was not resolved are returned.\<close>

fun publish_all :: "string list \<Rightarrow> work \<Rightarrow> queue \<Rightarrow> string list \<times> queue" where
  "publish_all [] wk q = (wk_probes wk, q)"
| "publish_all (r # rs) wk q =
     (if wk_items wk r = [] then publish_all rs wk q
      else case poll_ctx q of
             (cancelled, q) \<Rightarrow>
               (if cancelled then (wk_probes wk, q)
                else case publish_batch r (wk_items wk r) q of
                       (resolved, q) \<Rightarrow>
                         publish_all rs
                           (if resolved then wk\<lparr>wk_probes := removeAll r (wk_probes wk)\<rparr> else wk) q))"

definition roll_back :: "string list \<Rightarrow> queue \<Rightarrow> queue" where
  "roll_back probes q =
     q\<lparr>q_breakers := (\<lambda>r. case q_breakers q r of
         Some b \<Rightarrow> if r \<in> set probes \<and> br_state b = HalfOpen then Some (b\<lparr>br_state := Open\<rparr>) else Some b
       | None \<Rightarrow> None)\<rparr>"

fun evict_items :: "int \<Rightarrow> publish_item list \<Rightarrow> queue \<Rightarrow> publish_item list \<times> queue" where
  "evict_items now [] q = ([], q)"
| "evict_items now (it # its) q =
     (let age = now - created_at it
      in if pending it = [] then
           evict_items now its (if db_id it \<noteq> 0 then snd (delete_item (db_id it) q) else q)
         else if delivered it \<and> ttl_delivered < age then evict_items now its q
         else if \<not> delivered it \<and> ttl_undelivered < age then
           (case (if db_id it \<noteq> 0 then delete_item (db_id it) q else (None, q)) of
              (None, q) \<Rightarrow> evict_items now its q
            | (Some e, q) \<Rightarrow> (case evict_items now its q of (kept, q) \<Rightarrow> (it # kept, q)))
         else (case evict_items now its q of (kept, q) \<Rightarrow> (it # kept, q)))"

definition evict :: "int \<Rightarrow> queue \<Rightarrow> queue" where
  "evict now q = (case evict_items now (q_items q) q of (kept, q) \<Rightarrow> q\<lparr>q_items := kept\<rparr>)"

definition wanted :: "queue \<Rightarrow> string set" where
  "wanted q = (\<Union>it \<in> set (q_items q). set (pending it))"

definition gc_breakers :: "int \<Rightarrow> queue \<Rightarrow> queue" where
  "gc_breakers now q =
     q\<lparr>q_breakers := (\<lambda>r. case q_breakers q r of
         Some b \<Rightarrow>
           if r \<notin> wanted q \<and> (br_state b = Closed \<or> max_cooldown < now - br_next_probe b)
           then None else Some b
       | None \<Rightarrow> None)\<rparr>"

text \<open>
  \<open>nextWakeLocked\<close> over the wanted relays: it returns early at one whose breaker is not open, and
  otherwise takes the earliest probe. (Creating the missing breakers on the way does not change
  any later answer, since a missing breaker reads as a new one.)
\<close>

fun earliest_probe :: "string list \<Rightarrow> queue \<Rightarrow> int option \<Rightarrow> (unit + int option)" where
  "earliest_probe [] q e = Inr e"
| "earliest_probe (r # rs) q e =
     (let b = breaker_of r q
      in if br_state b \<noteq> Open then Inl ()
         else earliest_probe rs q
                (case e of None \<Rightarrow> Some (br_next_probe b) | Some t \<Rightarrow> Some (min t (br_next_probe b))))"

definition next_wake :: "int \<Rightarrow> queue \<Rightarrow> int" where
  "next_wake now q =
     (if q_items q = [] then 0
      else case earliest_probe (concat (map pending (q_items q))) q None of
             Inl _ \<Rightarrow> base_cooldown
           | Inr None \<Rightarrow> 0
           | Inr (Some t) \<Rightarrow> max (t - now) 0)"

definition notify_flush :: "queue \<Rightarrow> queue" where
  "notify_flush q = q\<lparr>q_waiters := filter (\<lambda>g. \<not> g < q_gen q) (q_waiters q)\<rparr>"

definition q_flush :: "queue \<Rightarrow> queue" where
  "q_flush q = q_signal (q\<lparr>q_waiters := q_waiters q @ [q_gen q]\<rparr>)"

definition q_drain_once :: "string list \<Rightarrow> queue \<Rightarrow> int \<times> queue" where
  "q_drain_once order q =
     (case read_clock q of (now, q) \<Rightarrow>
     (case collect_work now (evict now q) of (q, wk) \<Rightarrow>
     (case publish_all order wk q of (probes, q) \<Rightarrow>
     (let q = (roll_back probes q)\<lparr>q_gen := Suc (q_gen q)\<rparr>
      in case read_clock q of (now, q) \<Rightarrow>
         (let q = evict now q
          in case read_clock q of (now, q) \<Rightarrow>
             (let q = gc_breakers now q
              in case read_clock q of (now, q) \<Rightarrow> (next_wake now q, notify_flush q)))))))"

text \<open>What \<open>run\<close> does after a pass: return, sleep until a time or a signal, wait for a signal, go on.\<close>

datatype run_next = Return | SleepFor int | AwaitSignal | GoOn

definition q_run_next :: "int \<Rightarrow> bool \<Rightarrow> queue \<Rightarrow> run_next" where
  "q_run_next nxt cancelled q =
     (if cancelled then Return
      else if 0 < nxt then SleepFor nxt
      else if q_len q = 0 then AwaitSignal
      else GoOn)"

section \<open>The breaker of a failing relay\<close>

text \<open>Attempts that all fail to connect, at the given times; \<open>None\<close> if one is not permitted.\<close>

fun failing :: "int list \<Rightarrow> relay_breaker \<Rightarrow> relay_breaker option" where
  "failing [] b = Some b"
| "failing (t # ts) b =
     (case allow t b of (Deny, _) \<Rightarrow> None | (_, b') \<Rightarrow> failing ts (on_failure t b'))"

lemma failing_snoc:
  "failing (ts @ [t]) b =
     (case failing ts b of None \<Rightarrow> None
      | Some b' \<Rightarrow> (case allow t b' of (Deny, _) \<Rightarrow> None | (_, b2) \<Rightarrow> Some (on_failure t b2)))"
  by (induction ts b rule: failing.induct) (auto split: prod.splits allow_result.splits)

lemma failing_closed:
  "length ts < breaker_threshold \<Longrightarrow> failing ts (on_success b) = Some b' \<Longrightarrow>
   br_state b' = Closed \<and> br_failures b' = length ts"
proof (induction ts arbitrary: b' rule: rev_induct)
  case (snoc t ts)
  then obtain b1 where b1: "failing ts (on_success b) = Some b1"
    by (auto simp: failing_snoc split: option.splits)
  have lt: "Suc (length ts) < breaker_threshold" using snoc.prems(1) by simp
  have ih: "br_state b1 = Closed" "br_failures b1 = length ts"
    using snoc.IH [OF _ b1] lt by simp_all
  have "b' = on_failure t b1" using snoc.prems(2) b1 ih by (simp add: failing_snoc allow_def)
  then show ?case using ih lt by (simp add: on_failure_def Let_def)
qed (auto simp: on_success_def)

lemma double_min: "min (min (base_cooldown * 2 ^ k) max_cooldown * 2) max_cooldown =
   min (base_cooldown * 2 ^ Suc k) max_cooldown"
  by (auto simp: min_def duration_defs)

lemma failing_open:
  "failing ts (on_success b) = Some b' \<Longrightarrow> length ts = breaker_threshold + k \<Longrightarrow>
   br_state b' = Open \<and> br_cooldown b' = min (base_cooldown * 2 ^ k) max_cooldown \<and>
   br_next_probe b' = last ts + br_cooldown b'"
proof (induction k arbitrary: ts b')
  case 0
  then obtain us t where ts: "ts = us @ [t]"
    by (cases ts rule: rev_cases) (auto simp: breaker_threshold_def)
  with 0 obtain b1 where b1: "failing us (on_success b) = Some b1"
    by (auto simp: failing_snoc split: option.splits)
  have "br_state b1 = Closed \<and> br_failures b1 = length us"
    by (rule failing_closed [OF _ b1]) (use 0 ts in \<open>simp add: breaker_threshold_def\<close>)
  with 0 ts b1 show ?case
    by (auto simp: failing_snoc allow_def on_failure_def breaker_threshold_def duration_defs)
next
  case (Suc k)
  then obtain us t where ts: "ts = us @ [t]"
    by (cases ts rule: rev_cases) (auto simp: breaker_threshold_def)
  with Suc.prems obtain b1 where b1: "failing us (on_success b) = Some b1"
    by (auto simp: failing_snoc split: option.splits)
  have ih: "br_state b1 = Open" "br_cooldown b1 = min (base_cooldown * 2 ^ k) max_cooldown"
    using Suc.IH [OF b1] Suc.prems ts by auto
  have "b' = on_failure t (b1\<lparr>br_state := HalfOpen\<rparr>)"
    using Suc.prems ts b1 ih by (auto simp: failing_snoc allow_def split: if_splits)
  with ih ts show ?case
    by (simp add: on_failure_def Let_def double_min del: power_Suc)
qed

section \<open>Frames\<close>

lemma read_clock_frame:
  "read_clock q = (now, q') \<Longrightarrow> q_breakers q' = q_breakers q \<and> q_items q' = q_items q \<and>
     q_rows q' = q_rows q \<and> q_row_seq q' = q_row_seq q \<and> q_next_key q' = q_next_key q"
  by (auto simp: read_clock_def split: list.splits)

lemma poll_frame:
  "poll_ctx q = (c, q') \<Longrightarrow> q_breakers q' = q_breakers q \<and> q_items q' = q_items q \<and>
     q_rows q' = q_rows q \<and> q_row_seq q' = q_row_seq q \<and> q_next_key q' = q_next_key q"
  by (auto simp: poll_ctx_def split: list.splits)

lemma delete_breakers: "q_breakers (snd (delete_item i q)) = q_breakers q"
  by (auto simp: delete_item_def q_delete_publish_item_def q_statement_def
      split: prod.splits option.splits)

lemma enqueue_breakers: "q_breakers (q_enqueue e rs q) = q_breakers q"
  by (auto simp: q_enqueue_def insert_item_def q_insert_publish_item_def q_statement_def
      q_signal_def split: prod.splits option.splits sum.splits dest!: read_clock_frame)

lemma arrive_breakers: "q_breakers (arrive_all es q) = q_breakers q"
  by (induction es q rule: arrive_all.induct) (auto simp: enqueue_breakers)

lemma network_breakers: "q_breakers (network q) = q_breakers q"
  by (simp add: network_def arrive_breakers split: list.splits)

lemma update_breakers: "q_breakers (update_item k f q) = q_breakers q"
  by (simp add: update_item_def)

lemma confirm_breakers: "q_breakers (confirm k r q) = q_breakers q"
proof (cases "find_item k q")
  case None
  then show ?thesis by (simp add: confirm_def update_breakers)
next
  case (Some it)
  let ?q = "update_item k (\<lambda>it. it\<lparr>pending := removeAll r (pending it), delivered := True\<rparr>) q"
  obtain e q1 where d: "delete_item (db_id it) ?q = (e, q1)" by (cases "delete_item (db_id it) ?q")
  then have "q_breakers q1 = q_breakers q"
    using delete_breakers [of "db_id it" ?q] by (simp add: update_breakers)
  with Some d show ?thesis by (cases e) (simp_all add: confirm_def Let_def update_breakers)
qed

lemma publish_items_breakers: "q_breakers (snd (publish_items r ks q)) = q_breakers q"
proof (induction ks arbitrary: q)
  case (Cons k ks)
  show ?case
    using Cons
    by (auto simp: confirm_breakers record_reject_def update_breakers network_breakers
        split: prod.splits option.splits dest!: poll_frame)
qed simp

lemma evict_breakers: "q_breakers (evict now q) = q_breakers q"
proof -
  have "q_breakers (snd (evict_items now its q)) = q_breakers q" for its
  proof (induction its arbitrary: q)
    case (Cons it its)
    have d: "q_breakers (snd (evict_items now its (snd (delete_item i q)))) = q_breakers q" for i
      using Cons.IH delete_breakers by simp
    show ?case
      using Cons.IH d
      by (auto simp: Let_def split: prod.splits option.splits) (metis snd_conv d)+
  qed simp
  then show ?thesis by (simp add: evict_def split: prod.splits) (metis snd_conv)
qed

section \<open>No breaker stays half-open\<close>

definition half_open_in :: "string set \<Rightarrow> queue \<Rightarrow> bool" where
  "half_open_in S q \<longleftrightarrow> (\<forall>r b. q_breakers q r = Some b \<longrightarrow> br_state b = HalfOpen \<longrightarrow> r \<in> S)"

lemma half_open_cong: "q_breakers q' = q_breakers q \<Longrightarrow> half_open_in S q' = half_open_in S q"
  by (simp add: half_open_in_def)

lemma collect_one_half_open:
  assumes "half_open_in (set (wk_probes wk)) q" "collect_one now k r (q, wk) = (q', wk')"
  shows "half_open_in (set (wk_probes wk')) q' \<and> q_items q' = q_items q"
proof -
  obtain res b where al: "allow now (breaker_of r q) = (res, b)" by (cases "allow now (breaker_of r q)")
  have b: "br_state b = HalfOpen \<Longrightarrow> res = AllowProbe \<or> br_state (breaker_of r q) = HalfOpen"
    using al by (auto simp: allow_def split: breaker_state.splits if_splits)
  have old: "br_state (breaker_of r q) = HalfOpen \<Longrightarrow> r \<in> set (wk_probes wk)"
    using assms(1) by (auto simp: half_open_in_def breaker_of_def new_breaker_def split: option.splits)
  show ?thesis
    using assms al b old
    by (cases res) (auto simp: collect_one_def Let_def half_open_in_def set_breaker_def split: if_splits)
qed

lemma collect_item_half_open:
  "half_open_in (set (wk_probes wk)) q \<Longrightarrow> fold (collect_one now k) rs (q, wk) = (q', wk') \<Longrightarrow>
   half_open_in (set (wk_probes wk')) q' \<and> q_items q' = q_items q"
proof (induction rs arbitrary: q wk)
  case (Cons r rs)
  obtain q1 wk1 where c: "collect_one now k r (q, wk) = (q1, wk1)" by (cases "collect_one now k r (q, wk)")
  with collect_one_half_open [OF Cons.prems(1) c] Cons show ?case by auto
qed simp

lemma collect_half_open:
  assumes "half_open_in {} q" "collect_work now q = (q', wk)"
  shows "half_open_in (set (wk_probes wk)) q' \<and> q_items q' = q_items q"
proof -
  have "half_open_in (set (wk_probes wk0)) q0 \<Longrightarrow> fold (collect_item now) its (q0, wk0) = (q', wk) \<Longrightarrow>
      half_open_in (set (wk_probes wk)) q' \<and> q_items q' = q_items q0" for its q0 wk0
  proof (induction its arbitrary: q0 wk0)
    case (Cons it its)
    obtain q1 wk1 where c: "collect_item now it (q0, wk0) = (q1, wk1)"
      by (cases "collect_item now it (q0, wk0)")
    have "half_open_in (set (wk_probes wk1)) q1 \<and> q_items q1 = q_items q0"
      using collect_item_half_open [OF Cons.prems(1)] c by (simp add: collect_item_def)
    with Cons c show ?case by auto
  qed simp
  from this [of "\<lparr>wk_items = \<lambda>_. [], wk_probes = []\<rparr>" q "q_items q"] assms show ?thesis
    by (simp add: collect_work_def)
qed

lemma publish_batch_half_open:
  assumes "half_open_in S q" "publish_batch r ks q = (resolved, q')"
  shows "half_open_in (if resolved then S - {r} else S) q'"
proof -
  obtain f fs where f: "next_fault (q_connects q) = (f, fs)" by (cases "next_fault (q_connects q)")
  let ?q = "network (q\<lparr>q_connects := fs\<rparr>)"
  have b: "q_breakers ?q = q_breakers q" by (simp add: network_breakers)
  show ?thesis
  proof (cases f)
    case (Some e)
    obtain now q1 where c: "read_clock ?q = (now, q1)" by (cases "read_clock ?q")
    have "br_state (on_failure now bb) \<noteq> HalfOpen" for bb
      by (cases "br_state bb") (auto simp: on_failure_def Let_def)
    then show ?thesis
      using assms f Some c read_clock_frame [OF c] b
      by (auto simp: publish_batch_def half_open_in_def set_breaker_def split: if_splits)
  next
    case None
    obtain fin q1 where p: "publish_items r ks ?q = (fin, q1)" by (cases "publish_items r ks ?q")
    have b1: "q_breakers q1 = q_breakers q"
      using publish_items_breakers [of r ks ?q] p b by simp
    show ?thesis
      using assms f None p b1
      by (cases fin)
         (auto simp: publish_batch_def half_open_in_def set_breaker_def on_success_def split: if_splits)
  qed
qed

lemma publish_all_half_open:
  "half_open_in (set (wk_probes wk)) q \<Longrightarrow> publish_all rs wk q = (probes, q') \<Longrightarrow>
   half_open_in (set probes) q'"
proof (induction rs arbitrary: wk q)
  case (Cons r rs)
  show ?case
  proof (cases "wk_items wk r = []")
    case True
    with Cons show ?thesis by simp
  next
    case False
    obtain c q1 where p: "poll_ctx q = (c, q1)" by (cases "poll_ctx q")
    have h1: "half_open_in (set (wk_probes wk)) q1"
      using Cons.prems(1) poll_frame [OF p] half_open_cong by blast
    show ?thesis
    proof (cases c)
      case True
      with Cons.prems False p h1 show ?thesis by simp
    next
      case nc: False
      obtain resolved q2 where b: "publish_batch r (wk_items wk r) q1 = (resolved, q2)"
        by (cases "publish_batch r (wk_items wk r) q1")
      let ?wk = "if resolved then wk\<lparr>wk_probes := removeAll r (wk_probes wk)\<rparr> else wk"
      have "half_open_in (set (wk_probes ?wk)) q2"
        using publish_batch_half_open [OF h1 b] by (auto split: if_splits)
      with Cons.IH [of ?wk q2] Cons.prems False p nc b show ?thesis by simp
    qed
  qed
qed simp

lemma roll_back_half_open: "half_open_in (set probes) q \<Longrightarrow> half_open_in {} (roll_back probes q)"
  by (auto simp: half_open_in_def roll_back_def split: option.splits if_splits)

lemma gc_half_open: "half_open_in {} q \<Longrightarrow> half_open_in {} (gc_breakers now q)"
  by (auto simp: half_open_in_def gc_breakers_def split: option.splits if_splits)

section \<open>One probe\<close>

text \<open>While work is collected, a relay whose breaker was not closed has no item, or is half-open with one.\<close>

definition probing :: "string \<Rightarrow> queue \<times> work \<Rightarrow> bool" where
  "probing r qw \<longleftrightarrow> (case q_breakers (fst qw) r of
      None \<Rightarrow> False
    | Some b \<Rightarrow> br_state b = Open \<and> wk_items (snd qw) r = [] \<or>
        br_state b = HalfOpen \<and> length (wk_items (snd qw) r) \<le> 1)"

lemma probing_one: "probing r qw \<Longrightarrow> probing r (collect_one now k u qw)"
  by (cases qw) (auto simp: probing_def collect_one_def set_breaker_def Let_def breaker_of_def allow_def
      split: option.splits breaker_state.splits allow_result.splits if_splits)

lemma probing_collect: "probing r qw \<Longrightarrow> probing r (fold (collect_item now) its qw)"
proof (induction its arbitrary: qw)
  case (Cons it its)
  have "probing r qw \<Longrightarrow> probing r (fold (collect_one now k) us qw)" for k us qw
    by (induction us arbitrary: qw) (simp_all add: probing_one)
  with Cons show ?case by (simp add: collect_item_def)
qed simp

definition empty_queue :: queue where
  "empty_queue = \<lparr>q_items = [], q_next_key = 0, q_breakers = (\<lambda>_. None), q_gen = 0, q_waiters = [],
     q_wake = False, q_rows = [], q_row_seq = 0, q_faults = [], q_connects = [], q_publishes = [],
     q_polls = [], q_clock = 0, q_ticks = [], q_arrivals = []\<rparr>"

section \<open>Properties of the breaker\<close>



text \<open>
  C35. No relay is starved: a pass leaves no breaker half-open, whether its probe succeeded, failed, or was
  cut off by a cancelled context in the middle of the pass.
\<close>

theorem no_breaker_left_half_open:
  assumes "\<forall>r b. q_breakers q r = Some b \<longrightarrow> br_state b \<noteq> HalfOpen"
    "q_breakers (snd (q_drain_once order q)) r = Some b"
  shows "br_state b \<noteq> HalfOpen"
proof -
  obtain n1 q1 where c1: "read_clock q = (n1, q1)" by (cases "read_clock q")
  obtain q2 wk where w: "collect_work n1 (evict n1 q1) = (q2, wk)" by (cases "collect_work n1 (evict n1 q1)")
  obtain probes q3 where p: "publish_all order wk q2 = (probes, q3)" by (cases "publish_all order wk q2")
  let ?q4 = "(roll_back probes q3)\<lparr>q_gen := Suc (q_gen q3)\<rparr>"
  obtain n2 q5 where c2: "read_clock ?q4 = (n2, q5)" by (cases "read_clock ?q4")
  obtain n3 q6 where c3: "read_clock (evict n2 q5) = (n3, q6)" by (cases "read_clock (evict n2 q5)")
  obtain n4 q7 where c4: "read_clock (gc_breakers n3 q6) = (n4, q7)" by (cases "read_clock (gc_breakers n3 q6)")
  have "half_open_in {} (evict n1 q1)"
    using assms(1) read_clock_frame [OF c1] by (simp add: half_open_in_def evict_breakers)
  then have "half_open_in (set (wk_probes wk)) q2" using collect_half_open w by blast
  then have "half_open_in (set probes) q3" using publish_all_half_open p by blast
  then have "half_open_in {} ?q4" using roll_back_half_open by (simp add: half_open_in_def)
  then have "half_open_in {} q6"
    using read_clock_frame [OF c2] read_clock_frame [OF c3]
    by (simp add: half_open_in_def evict_breakers)
  then have "half_open_in {} q7"
    using gc_half_open read_clock_frame [OF c4] half_open_cong by blast
  moreover have "q_breakers (snd (q_drain_once order q)) = q_breakers q7"
    using c1 w p c2 c3 c4 by (simp add: q_drain_once_def Let_def notify_flush_def)
  ultimately show ?thesis using assms(2) by (auto simp: half_open_in_def)
qed

definition probe_queue :: queue where
  "probe_queue = empty_queue\<lparr>q_items := [\<lparr>item_key = 0, db_id = 0, event = ''e'',
       pending = [''wss://r''], delivered = False, created_at = 0, rejects = (\<lambda>_. 0)\<rparr>],
     q_next_key := 1, q_clock := 5,
     q_breakers := [''wss://r'' \<mapsto>
       \<lparr>br_state = Open, br_failures = 3, br_cooldown = base_cooldown, br_next_probe = 0\<rparr>],
     q_polls := [True]\<rparr>"

theorem no_breaker_left_half_open_witness:
  "\<exists>b. q_breakers (snd (q_drain_once [''wss://r''] probe_queue)) ''wss://r'' = Some b \<and>
     br_state b \<noteq> HalfOpen"
proof -
  have start: "\<forall>r b. q_breakers probe_queue r = Some b \<longrightarrow> br_state b \<noteq> HalfOpen"
    by (simp add: probe_queue_def)
  have run: "q_breakers (snd (q_drain_once [''wss://r''] probe_queue)) ''wss://r'' =
      Some \<lparr>br_state = Open, br_failures = 3, br_cooldown = base_cooldown, br_next_probe = 0\<rparr>"
    by (simp add: q_drain_once_def probe_queue_def empty_queue_def read_clock_def evict_def
        collect_work_def collect_item_def collect_one_def breaker_of_def set_breaker_def allow_def
        poll_ctx_def roll_back_def gc_breakers_def wanted_def notify_flush_def duration_defs Let_def)
  from no_breaker_left_half_open [OF start run] run show ?thesis by blast
qed

text \<open>
  C33. A relay that failed is offered one event to probe it, however many are waiting for it.
\<close>

theorem one_event_probes:
  assumes "q_breakers q r = Some b" "br_state b \<noteq> Closed" "collect_work now q = (q', wk)"
  shows "length (wk_items wk r) \<le> 1"
proof -
  have "probing r (q, \<lparr>wk_items = \<lambda>_. [], wk_probes = []\<rparr>)"
    using assms(1,2) by (cases "br_state b") (simp_all add: probing_def)
  from probing_collect [OF this, of now "q_items q"] assms(3)
  show ?thesis by (auto simp: probing_def collect_work_def split: option.splits)
qed

theorem one_event_probes_witness:
  "length (wk_items (snd (collect_work 5
      (probe_queue\<lparr>q_items := q_items probe_queue @ q_items probe_queue\<rparr>))) ''wss://r'') \<le> 1"
  by (rule one_event_probes [OF _ _ surjective_pairing,
        where b = "\<lparr>br_state = Open, br_failures = 3, br_cooldown = base_cooldown, br_next_probe = 0\<rparr>"])
     (simp_all add: probe_queue_def)

end
