(* ===== verification/Publish_Store.thy ===== *)
theory Publish_Store
  imports Publish_Queue
begin

text \<open>
  What the table \<open>publish_queue\<close> promises (\<open>nostr/publish_queue.go\<close>): every undelivered event that
  was written to it is there with its relays as long as the queue holds it, through enqueues,
  passes with any failures of statements, connections and relays, and restarts; so a crash at any
  moment between two steps loses none of them.
\<close>

section \<open>Events and their rows\<close>

definition has_row :: "publish_row list \<Rightarrow> publish_item \<Rightarrow> bool" where
  "has_row rows it \<longleftrightarrow> (\<exists>r \<in> set rows. pr_id r = db_id it \<and> pr_event r = event it \<and>
     set (pending it) \<subseteq> set (row_relays r))"

definition stored_in :: "publish_item list \<Rightarrow> publish_row list \<Rightarrow> nat \<Rightarrow> bool" where
  "stored_in its rows n \<longleftrightarrow>
     distinct (map pr_id rows) \<and> (\<forall>r \<in> set rows. 0 < pr_id r \<and> pr_id r \<le> n) \<and>
     distinct (filter (\<lambda>i. 0 < i) (map db_id its)) \<and> (\<forall>it \<in> set its. db_id it \<le> n) \<and>
     (\<forall>it \<in> set its. \<not> delivered it \<longrightarrow> 0 < db_id it \<longrightarrow> has_row rows it)"

definition clean_relay :: "string \<Rightarrow> bool" where
  "clean_relay u \<longleftrightarrow> u \<noteq> [] \<and> trim_space u = u \<and> CHR 0x0A \<notin> set u"

definition clean_arrivals :: "queue \<Rightarrow> bool" where
  "clean_arrivals q \<longleftrightarrow> (\<forall>es \<in> set (q_arrivals q). \<forall>e \<in> set es. list_all clean_relay (snd e))"

definition queue_ok :: "queue \<Rightarrow> bool" where
  "queue_ok q \<longleftrightarrow> stored_in (q_items q) (q_rows q) (q_row_seq q) \<and> clean_arrivals q"

lemma row_relays_clean:
  assumes "list_all clean_relay us" "us \<noteq> []" "pr_relays r = join [CHR 0x0A] us"
  shows "row_relays r = remdups us"
proof -
  have "split_on CHR 0x0A (pr_relays r) = us"
    using assms by (simp add: split_on_join list_all_iff clean_relay_def)
  moreover have "map trim_space us = us"
    using assms(1) by (induction us) (auto simp: clean_relay_def)
  moreover have "filter (\<lambda>u. u \<noteq> []) us = us"
    using assms(1) by (induction us) (auto simp: clean_relay_def)
  ultimately show ?thesis by (simp add: row_relays_def)
qed

lemma distinct_filter_map_inj:
  "distinct (filter P (map f xs)) \<Longrightarrow> x \<in> set xs \<Longrightarrow> y \<in> set xs \<Longrightarrow> f x = f y \<Longrightarrow> P (f x) \<Longrightarrow> x = y"
  by (induction xs) (auto split: if_splits simp: image_iff)

lemma distinct_filter_zero:
  "distinct (filter (\<lambda>i. 0 < i) (map f xs)) \<Longrightarrow>
   distinct (filter (\<lambda>i. 0 < (i::nat)) (map (\<lambda>x. if c x then 0 else f x) xs))"
proof (induction xs)
  case (Cons x xs)
  have sub: "set (map (\<lambda>x. if c x then 0 else f x) xs) \<subseteq> insert 0 (set (map f xs))" by auto
  with Cons show ?case by (auto split: if_splits)
qed simp

lemma distinct_filter_map_filter:
  "distinct (filter P (map f xs)) \<Longrightarrow> distinct (filter P (map f (filter R xs)))"
  by (induction xs) auto

section \<open>The operations on the list and the table\<close>

lemma stored_append:
  assumes "stored_in its rows n" "db_id it = 0"
  shows "stored_in (its @ [it]) rows n"
  using assms by (auto simp: stored_in_def)

lemma stored_insert:
  assumes "stored_in its rows n" "pr_id r = Suc n" "db_id it = Suc n" "pr_event r = event it"
    "set (pending it) \<subseteq> set (row_relays r)"
  shows "stored_in (its @ [it]) (rows @ [r]) (Suc n)"
proof -
  have "Suc n \<notin> pr_id ` set rows" "Suc n \<notin> db_id ` set its"
    using assms(1) by (auto simp: stored_in_def)
  then show ?thesis
    using assms by (force simp: stored_in_def has_row_def le_Suc_eq)
qed

text \<open>Items may lose relays and become delivered.\<close>

lemma stored_shrink:
  assumes "stored_in its rows n"
    "\<And>it. db_id (f it) = db_id it \<and> event (f it) = event it \<and>
       set (pending (f it)) \<subseteq> set (pending it) \<and> (delivered it \<longrightarrow> delivered (f it))"
  shows "stored_in (map f its) rows n"
proof -
  have "map db_id (map f its) = map db_id its" using assms(2) by simp
  then show ?thesis
    using assms unfolding stored_in_def has_row_def by (fastforce simp del: map_map)
qed

text \<open>Rows may go that belong to no undelivered item.\<close>

lemma stored_delete:
  assumes "stored_in its rows n" "\<And>it. it \<in> set its \<Longrightarrow> \<not> delivered it \<Longrightarrow> db_id it \<noteq> i"
  shows "stored_in its (filter (\<lambda>r. pr_id r \<noteq> i) rows) n"
  using assms by (fastforce simp: stored_in_def has_row_def distinct_map_filter)

lemma stored_forget:
  assumes "stored_in its rows n"
  shows "stored_in (map (\<lambda>it. if c it then it\<lparr>db_id := 0\<rparr> else it) its) rows n"
proof -
  have "map db_id (map (\<lambda>it. if c it then it\<lparr>db_id := 0\<rparr> else it) its) =
      map (\<lambda>it. if c it then 0 else db_id it) its" by simp
  then show ?thesis
    using assms distinct_filter_zero [of db_id its c]
    by (auto simp: stored_in_def has_row_def simp del: map_map)
qed

lemma stored_drop:
  "stored_in its rows n \<Longrightarrow> stored_in (filter P its) rows n"
  by (simp add: stored_in_def distinct_filter_map_filter)

lemma stored_Cons:
  "stored_in (it # its) rows n \<longleftrightarrow> stored_in its rows n \<and> db_id it \<le> n \<and>
     (0 < db_id it \<longrightarrow> db_id it \<notin> db_id ` set its) \<and>
     (\<not> delivered it \<longrightarrow> 0 < db_id it \<longrightarrow> has_row rows it)"
  by (auto simp: stored_in_def)


section \<open>The operations of the queue\<close>

text \<open>What a statement, a reading of the clock or a look at the context leaves alone.\<close>

definition same_store :: "queue \<Rightarrow> queue \<Rightarrow> bool" where
  "same_store q q' \<longleftrightarrow> q_items q' = q_items q \<and> q_rows q' = q_rows q \<and> q_row_seq q' = q_row_seq q \<and>
     q_arrivals q' = q_arrivals q"

lemma same_store_ok: "same_store q q' \<Longrightarrow> queue_ok q' = queue_ok q"
  by (simp add: same_store_def queue_ok_def clean_arrivals_def)

lemma same_store_frames:
  "read_clock q = (now, q') \<Longrightarrow> same_store q q'"
  "poll_ctx q = (c, q') \<Longrightarrow> same_store q q'"
  "q_statement q = (f, q') \<Longrightarrow> same_store q q'"
  "same_store q (q_signal q)"
  "same_store q (set_breaker r b q)"
  "same_store q (roll_back rs q)"
  "same_store q (gc_breakers t q)"
  "same_store q (notify_flush q)"
  "same_store q (q_flush q)"
  by (auto simp: read_clock_def poll_ctx_def q_statement_def q_signal_def set_breaker_def
      roll_back_def gc_breakers_def notify_flush_def q_flush_def same_store_def
      split: list.splits prod.splits)

lemma delete_item_run:
  "delete_item i q = (e, q') \<Longrightarrow> q_items q' = q_items q \<and> q_row_seq q' = q_row_seq q \<and>
     q_arrivals q' = q_arrivals q \<and>
     q_rows q' = (if e = None then filter (\<lambda>r. pr_id r \<noteq> i) (q_rows q) else q_rows q)"
  by (auto simp: delete_item_def q_delete_publish_item_def q_statement_def
      split: prod.splits option.splits)

lemma q_enqueue_ok:
  assumes "queue_ok q" "list_all clean_relay us"
  shows "queue_ok (q_enqueue evt us q)"
proof (cases "us = []")
  case True
  with assms(1) show ?thesis by (simp add: q_enqueue_def)
next
  case False
  obtain now q1 where c: "read_clock q = (now, q1)" by (cases "read_clock q")
  obtain f q2 where s: "q_statement q1 = (f, q2)" by (cases "q_statement q1")
  have q2: "queue_ok q2" using assms(1) same_store_frames(1) [OF c] same_store_frames(3) [OF s]
    by (simp add: same_store_ok)
  let ?it = "\<lambda>i q. \<lparr>item_key = q_next_key q, db_id = i, event = evt, pending = remdups us,
    delivered = False, created_at = now, rejects = \<lambda>_. 0\<rparr>"
  show ?thesis
  proof (cases f)
    case (Some e)
    have "stored_in (q_items q2 @ [?it 0 q2]) (q_rows q2) (q_row_seq q2)"
      using q2 by (intro stored_append) (simp_all add: queue_ok_def)
    then show ?thesis
      using q2 c s Some False
      by (simp add: q_enqueue_def insert_item_def q_insert_publish_item_def q_signal_def queue_ok_def
          clean_arrivals_def)
  next
    case None
    let ?r = "\<lparr>pr_id = Suc (q_row_seq q2), pr_event = evt, pr_relays = join [CHR 0x0A] us,
      pr_created = now div second\<rparr>"
    have "row_relays ?r = remdups us" using row_relays_clean [OF assms(2) False] by simp
    then have "stored_in (q_items q2 @ [?it (Suc (q_row_seq q2)) q2]) (q_rows q2 @ [?r])
        (Suc (q_row_seq q2))"
      using q2 by (intro stored_insert) (simp_all add: queue_ok_def)
    then show ?thesis
      using q2 c s None False
      by (simp add: q_enqueue_def insert_item_def q_insert_publish_item_def q_signal_def queue_ok_def
          clean_arrivals_def)
  qed
qed

lemma arrive_all_ok:
  "queue_ok q \<Longrightarrow> \<forall>e \<in> set es. list_all clean_relay (snd e) \<Longrightarrow> queue_ok (arrive_all es q)"
  by (induction es q rule: arrive_all.induct) (auto simp: q_enqueue_ok)

lemma network_ok: "queue_ok q \<Longrightarrow> queue_ok (network q)"
  by (auto simp: network_def queue_ok_def clean_arrivals_def split: list.splits
      intro!: arrive_all_ok [unfolded queue_ok_def clean_arrivals_def])

lemma update_item_ok:
  assumes "queue_ok q"
    "\<And>it. db_id (f it) = db_id it \<and> event (f it) = event it \<and>
       set (pending (f it)) \<subseteq> set (pending it) \<and> (delivered it \<longrightarrow> delivered (f it))"
  shows "queue_ok (update_item k f q)"
  using assms stored_shrink [of "q_items q" "q_rows q" "q_row_seq q" "\<lambda>it. if item_key it = k then f it else it"]
  by (simp add: queue_ok_def update_item_def clean_arrivals_def)

lemma record_reject_ok: "queue_ok q \<Longrightarrow> queue_ok (record_reject k r q)"
  unfolding record_reject_def by (rule update_item_ok) (auto simp: Let_def)

lemma publish_batch_fault_ok:
  "queue_ok q \<Longrightarrow> queue_ok (q\<lparr>q_publishes := fs\<rparr>)" "queue_ok q \<Longrightarrow> queue_ok (q\<lparr>q_connects := fs\<rparr>)"
  by (simp_all add: queue_ok_def clean_arrivals_def)


lemma confirm_ok:
  assumes "queue_ok q"
  shows "queue_ok (confirm k r q)"
proof -
  let ?f = "\<lambda>it. it\<lparr>pending := removeAll r (pending it), delivered := True\<rparr>"
  let ?q = "update_item k ?f q"
  have q': "queue_ok ?q" by (rule update_item_ok [OF assms]) auto
  show ?thesis
  proof (cases "find_item k q")
    case None
    with q' show ?thesis by (simp add: confirm_def)
  next
    case (Some it)
    then have it: "it \<in> set (q_items q)" "item_key it = k"
      by (auto simp: find_item_def find_Some_iff)
    obtain e q1 where d: "delete_item (db_id it) ?q = (e, q1)" by (cases "delete_item (db_id it) ?q")
    note run = delete_item_run [OF d]
    show ?thesis
    proof (cases "delivered it \<or> db_id it = 0 \<or> e \<noteq> None")
      case True
      with Some d q' run show ?thesis
        by (auto simp: confirm_def Let_def queue_ok_def clean_arrivals_def split: option.splits)
    next
      case False
      have other: "db_id x \<noteq> db_id it" if "x \<in> set (q_items ?q)" "\<not> delivered x" for x
      proof
        assume same: "db_id x = db_id it"
        from that obtain y where y: "y \<in> set (q_items q)" "x = (if item_key y = k then ?f y else y)"
          by (auto simp: update_item_def)
        with that(2) have "item_key y \<noteq> k" by auto
        with y have x: "x \<in> set (q_items q)" "item_key x \<noteq> k" by simp_all
        have "distinct (filter (\<lambda>i. 0 < i) (map db_id (q_items q)))"
          using assms by (simp add: queue_ok_def stored_in_def)
        from distinct_filter_map_inj [OF this x(1) it(1) same] False same it(2) x(2)
        show False by simp
      qed
      have "stored_in (q_items ?q) (filter (\<lambda>r. pr_id r \<noteq> db_id it) (q_rows ?q)) (q_row_seq ?q)"
        using q' other by (intro stored_delete) (auto simp: queue_ok_def)
      from stored_forget [OF this, of "\<lambda>it. item_key it = k"] run q' False Some d
      show ?thesis
        by (auto simp: confirm_def Let_def update_item_def queue_ok_def clean_arrivals_def)
    qed
  qed
qed

lemma publish_items_ok: "queue_ok q \<Longrightarrow> queue_ok (snd (publish_items r ks q))"
proof (induction ks arbitrary: q)
  case (Cons k ks)
  obtain c q1 where p: "poll_ctx q = (c, q1)" by (cases "poll_ctx q")
  then have q1: "queue_ok q1" using Cons.prems same_store_frames(2) same_store_ok by blast
  obtain f fs where f: "next_fault (q_publishes q1) = (f, fs)" by (cases "next_fault (q_publishes q1)")
  have n: "queue_ok (network (q1\<lparr>q_publishes := fs\<rparr>))" by (simp add: network_ok publish_batch_fault_ok q1)
  show ?case
    using Cons.IH [OF confirm_ok [OF n, of k r]] Cons.IH [OF record_reject_ok [OF n, of k r]] q1 p f
    by (cases c; cases f) simp_all
qed simp

lemma publish_batch_ok:
  assumes "queue_ok q"
  shows "queue_ok (snd (publish_batch r ks q))"
proof -
  obtain f fs where f: "next_fault (q_connects q) = (f, fs)" by (cases "next_fault (q_connects q)")
  let ?q = "network (q\<lparr>q_connects := fs\<rparr>)"
  have n: "queue_ok ?q" by (simp add: network_ok publish_batch_fault_ok assms)
  obtain now q1 where c: "read_clock ?q = (now, q1)" by (cases "read_clock ?q")
  have q1: "queue_ok q1" using n same_store_frames(1) [OF c] same_store_ok by blast
  obtain ok q2 where p: "publish_items r ks ?q = (ok, q2)" by (cases "publish_items r ks ?q")
  have q2: "queue_ok q2" using publish_items_ok [OF n, of r ks] p by simp
  show ?thesis
    using f c p q1 q2 same_store_ok [OF same_store_frames(5)]
    by (cases f; cases ok) (simp_all add: publish_batch_def Let_def)
qed

lemma publish_all_ok: "queue_ok q \<Longrightarrow> queue_ok (snd (publish_all rs wk q))"
proof (induction rs arbitrary: wk q)
  case (Cons r rs)
  obtain c q1 where p: "poll_ctx q = (c, q1)" by (cases "poll_ctx q")
  then have q1: "queue_ok q1" using Cons.prems same_store_frames(2) same_store_ok by blast
  obtain res q2 where b: "publish_batch r (wk_items wk r) q1 = (res, q2)"
    by (cases "publish_batch r (wk_items wk r) q1")
  with publish_batch_ok [OF q1, of r "wk_items wk r"] have q2: "queue_ok q2" by simp
  show ?case
    using Cons.IH [OF q2] Cons.IH [OF Cons.prems] q1 p b by (cases c) simp_all
qed simp

lemma collect_same: "collect_work now q = (q', wk) \<Longrightarrow> same_store q q'"
proof -
  have one: "same_store q0 (fst qw) \<Longrightarrow> same_store q0 (fst (collect_one now k r qw))" for q0 k r qw
    by (cases qw) (auto simp: collect_one_def same_store_def set_breaker_def Let_def
        split: prod.splits allow_result.splits)
  have item: "same_store q0 (fst qw) \<Longrightarrow> same_store q0 (fst (fold (collect_one now k) rs qw))" for q0 k rs qw
    by (induction rs arbitrary: qw) (simp_all add: one)
  have "same_store q0 (fst qw) \<Longrightarrow> same_store q0 (fst (fold (collect_item now) its qw))" for q0 its qw
    by (induction its arbitrary: qw) (simp_all add: item collect_item_def)
  from this [of q "(q, \<lparr>wk_items = \<lambda>_. [], wk_probes = []\<rparr>)" "q_items q"]
  show "collect_work now q = (q', wk) \<Longrightarrow> same_store q q'"
    by (simp add: collect_work_def same_store_def)
qed

text \<open>Eviction walks over the items; those passed are done with, those ahead still stored.\<close>

lemma evict_items_ok:
  "stored_in (pre @ its) (q_rows q) (q_row_seq q) \<Longrightarrow> evict_items now its q = (kept, q') \<Longrightarrow>
   stored_in (pre @ kept) (q_rows q') (q_row_seq q') \<and> q_items q' = q_items q \<and>
   q_arrivals q' = q_arrivals q"
proof (induction its arbitrary: pre q kept q')
  case (Cons it its)
  have drop: "stored_in (pre @ its) (q_rows q) (q_row_seq q)"
    using Cons.prems(1) unfolding stored_in_def by (auto split: if_splits)
  have keep: "stored_in ((pre @ [it]) @ its) (q_rows q) (q_row_seq q)" using Cons.prems(1) by simp
  obtain e q1 where d: "delete_item (db_id it) q = (e, q1)" by (cases "delete_item (db_id it) q")
  note run = delete_item_run [OF d]
  have gone: "stored_in (pre @ its) (q_rows q1) (q_row_seq q1)" if "0 < db_id it"
  proof -
    have "db_id it \<notin> db_id ` set (pre @ its)"
      using Cons.prems(1) that by (simp add: stored_in_def) blast
    then have "db_id x \<noteq> db_id it" if "x \<in> set (pre @ its)" for x
      using that by (metis image_eqI)
    with stored_delete [OF drop, of "db_id it"] drop run show ?thesis by simp
  qed
  have keep1: "stored_in ((pre @ [it]) @ its) (q_rows q1) (q_row_seq q1)" if "e \<noteq> None"
    using keep run that by simp
  obtain kept1 q2 where k1: "evict_items now its q = (kept1, q2)" by (cases "evict_items now its q")
  obtain kept2 q3 where k2: "evict_items now its q1 = (kept2, q3)" by (cases "evict_items now its q1")
  let ?drop = "stored_in (pre @ kept1) (q_rows q2) (q_row_seq q2) \<and> q_items q2 = q_items q \<and>
    q_arrivals q2 = q_arrivals q"
  have plain: ?drop by (rule Cons.IH [OF drop k1])
  have kept: "stored_in (pre @ it # kept1) (q_rows q2) (q_row_seq q2)"
    using Cons.IH [OF keep k1] by simp
  have gone2: "stored_in (pre @ kept2) (q_rows q3) (q_row_seq q3) \<and> q_items q3 = q_items q \<and>
      q_arrivals q3 = q_arrivals q" if "0 < db_id it"
    using Cons.IH [OF gone k2] run that by simp
  have kept2: "stored_in (pre @ it # kept2) (q_rows q3) (q_row_seq q3) \<and> q_items q3 = q_items q \<and>
      q_arrivals q3 = q_arrivals q" if "e \<noteq> None"
    using Cons.IH [OF keep1 k2] run that by simp
  let ?age = "now - created_at it"
  consider "pending it = []" | "pending it \<noteq> []" "delivered it \<and> ttl_delivered < ?age"
    | "pending it \<noteq> []" "\<not> delivered it \<and> ttl_undelivered < ?age"
    | "pending it \<noteq> []" "\<not> (delivered it \<and> ttl_delivered < ?age)"
        "\<not> (\<not> delivered it \<and> ttl_undelivered < ?age)" by blast
  then show ?case
  proof cases
    case 1
    with Cons.prems(2) d k1 k2 plain gone2 show ?thesis by (cases "db_id it = 0") simp_all
  next
    case 2
    with Cons.prems(2) k1 plain show ?thesis by simp
  next
    case 3
    with Cons.prems(2) d k1 k2 plain gone2 kept2 show ?thesis
      by (cases "db_id it = 0"; cases e) auto
  next
    case 4
    with Cons.prems(2) k1 plain kept show ?thesis by auto
  qed
qed simp

lemma evict_ok: "queue_ok q \<Longrightarrow> queue_ok (evict now q)"
proof -
  assume a: "queue_ok q"
  obtain kept q1 where e: "evict_items now (q_items q) q = (kept, q1)"
    by (cases "evict_items now (q_items q) q")
  from evict_items_ok [of "[]", OF _ e] a e show ?thesis
    by (simp add: evict_def queue_ok_def clean_arrivals_def)
qed

lemma drain_ok:
  assumes "queue_ok q"
  shows "queue_ok (snd (q_drain_once order q))"
proof -
  have clock: "queue_ok q0 \<Longrightarrow> read_clock q0 = (n, q0') \<Longrightarrow> queue_ok q0'" for q0 n q0'
    using same_store_frames(1) same_store_ok by blast
  obtain n1 q1 where c1: "read_clock q = (n1, q1)" by (cases "read_clock q")
  obtain q2 wk where w: "collect_work n1 (evict n1 q1) = (q2, wk)" by (cases "collect_work n1 (evict n1 q1)")
  obtain probes q3 where p: "publish_all order wk q2 = (probes, q3)" by (cases "publish_all order wk q2")
  let ?q4 = "(roll_back probes q3)\<lparr>q_gen := Suc (q_gen q3)\<rparr>"
  obtain n2 q5 where c2: "read_clock ?q4 = (n2, q5)" by (cases "read_clock ?q4")
  obtain n3 q6 where c3: "read_clock (evict n2 q5) = (n3, q6)" by (cases "read_clock (evict n2 q5)")
  obtain n4 q7 where c4: "read_clock (gc_breakers n3 q6) = (n4, q7)" by (cases "read_clock (gc_breakers n3 q6)")
  have "queue_ok (evict n1 q1)" by (rule evict_ok [OF clock [OF assms c1]])
  then have "queue_ok q2" using same_store_ok [OF collect_same [OF w]] by simp
  then have "queue_ok q3" using publish_all_ok [of q2 order wk] p by simp
  then have "queue_ok ?q4" by (simp add: queue_ok_def roll_back_def clean_arrivals_def)
  then have "queue_ok (evict n2 q5)" by (intro evict_ok clock [OF _ c2])
  then have "queue_ok (gc_breakers n3 q6)" using clock [OF _ c3] same_store_ok [OF same_store_frames(7)] by blast
  then have "queue_ok (notify_flush q7)" using clock [OF _ c4] same_store_ok [OF same_store_frames(8)] by blast
  then show ?thesis using c1 w p c2 c3 c4 by (simp add: q_drain_once_def Let_def)
qed


section \<open>Restart\<close>

lemma q_delete_run:
  "snd (q_delete_publish_item i q) = q' \<Longrightarrow> q_items q' = q_items q \<and> q_row_seq q' = q_row_seq q \<and>
     q_arrivals q' = q_arrivals q \<and>
     (q_rows q' = q_rows q \<or> q_rows q' = filter (\<lambda>r. pr_id r \<noteq> i) (q_rows q))"
  by (auto simp: q_delete_publish_item_def q_statement_def split: prod.splits option.splits)

definition revived :: "publish_row \<Rightarrow> publish_item \<Rightarrow> bool" where
  "revived r it \<longleftrightarrow> event it = pr_event r \<and> pending it = row_relays r \<and> \<not> delivered it \<and>
     db_id it = pr_id r \<and> created_at it = pr_created r * second"

lemma load_rows_ok:
  assumes "stored_in (q_items q) (q_rows q) (q_row_seq q)" "distinct (map pr_id rs)"
    "\<forall>r \<in> set rs. pr_id r \<notin> db_id ` set (q_items q)" "set rs \<subseteq> set (q_rows q)"
    "load_rows event_ok rs q = q'"
  shows "stored_in (q_items q') (q_rows q') (q_row_seq q') \<and> q_arrivals q' = q_arrivals q \<and>
    set (q_items q) \<subseteq> set (q_items q') \<and>
    (\<forall>r \<in> set rs. event_ok (pr_event r) \<longrightarrow> row_relays r \<noteq> [] \<longrightarrow> (\<exists>it \<in> set (q_items q'). revived r it))"
  using assms
proof (induction rs arbitrary: q)
  case (Cons r rs)
  note st = Cons.prems(1)
  show ?case
  proof (cases "event_ok (pr_event r) \<and> row_relays r \<noteq> []")
    case False
    define q1 where "q1 = snd (q_delete_publish_item (pr_id r) q)"
    note run = q_delete_run [OF q1_def [symmetric]]
    have other: "pr_id r \<notin> pr_id ` set rs" using Cons.prems(2) by simp
    have "db_id x \<noteq> pr_id r" if "x \<in> set (q_items q)" for x
      using Cons.prems(3) that by (metis image_eqI list.set_intros(1))
    with stored_delete [OF st, of "pr_id r"] st run
    have st1: "stored_in (q_items q1) (q_rows q1) (q_row_seq q1)" by auto
    have sub: "set rs \<subseteq> set (q_rows q1)"
      using Cons.prems(4) run other by (fastforce simp: image_iff)
    show ?thesis
      using Cons.IH [OF st1 _ _ sub] Cons.prems False run q1_def by auto
  next
    case True
    let ?it = "\<lparr>item_key = q_next_key q, db_id = pr_id r, event = pr_event r,
      pending = row_relays r, delivered = False, created_at = pr_created r * second, rejects = \<lambda>_. 0\<rparr>"
    let ?q = "q\<lparr>q_items := q_items q @ [?it], q_next_key := Suc (q_next_key q)\<rparr>"
    have row: "r \<in> set (q_rows q)" using Cons.prems(4) by simp
    then have "has_row (q_rows q) ?it" by (auto simp: has_row_def)
    with st row Cons.prems(3) have st1: "stored_in (q_items ?q) (q_rows ?q) (q_row_seq ?q)"
      by (auto simp: stored_in_def)
    have new: "\<forall>r \<in> set rs. pr_id r \<notin> db_id ` set (q_items ?q)"
      using Cons.prems(2,3) by (auto simp: image_iff)
    from Cons.IH [OF st1 _ new] Cons.prems True
    have ih: "stored_in (q_items q') (q_rows q') (q_row_seq q') \<and> q_arrivals q' = q_arrivals q \<and>
        insert ?it (set (q_items q)) \<subseteq> set (q_items q') \<and>
        (\<forall>r \<in> set rs. event_ok (pr_event r) \<longrightarrow> row_relays r \<noteq> [] \<longrightarrow>
          (\<exists>it \<in> set (q_items q'). revived r it))" by simp
    moreover have "revived r ?it" by (simp add: revived_def)
    ultimately show ?thesis by auto
  qed
qed simp

lemma new_publish_queue_ok:
  assumes "queue_ok q" "new_publish_queue event_ok q = (e, q')"
  shows "queue_ok q' \<and> (e = None \<longrightarrow> (\<forall>r \<in> set (q_rows q). event_ok (pr_event r) \<longrightarrow>
    row_relays r \<noteq> [] \<longrightarrow> (\<exists>it \<in> set (q_items q'). revived r it)))"
proof -
  let ?q = "q\<lparr>q_items := [], q_next_key := 0, q_breakers := \<lambda>_. None, q_gen := 0, q_waiters := [],
    q_wake := False\<rparr>"
  obtain f q1 where s: "q_statement ?q = (f, q1)" by (cases "q_statement ?q")
  note fr = same_store_frames(3) [OF s, unfolded same_store_def]
  have q1: "stored_in (q_items q1) (q_rows q1) (q_row_seq q1)" "q_arrivals q1 = q_arrivals q"
    using fr assms(1) by (simp_all add: queue_ok_def stored_in_def)
  let ?rs = "sort_key pr_created (q_rows q1)"
  have "distinct (map pr_id (q_rows q1))" using q1 by (simp add: stored_in_def)
  then have d: "distinct (map pr_id ?rs)"
    by (metis distinct_map distinct_sort set_sort)
  have l: "stored_in (q_items q2) (q_rows q2) (q_row_seq q2) \<and> q_arrivals q2 = q_arrivals q1 \<and>
    (\<forall>r \<in> set (q_rows q). event_ok (pr_event r) \<longrightarrow> row_relays r \<noteq> [] \<longrightarrow>
       (\<exists>it \<in> set (q_items q2). revived r it))"
    if "load_rows event_ok ?rs q1 = q2" for q2
    using load_rows_ok [OF q1(1) d _ _ that] fr by simp
  show ?thesis
    using assms s l q1
    by (cases f) (auto simp: new_publish_queue_def load_queue_def q_list_publish_queue_def queue_ok_def
        clean_arrivals_def)
qed

section \<open>Runs\<close>

text \<open>The life of the queue: enqueues, passes in any order of the relays, flushes and restarts.\<close>

inductive queue_run :: "(string \<Rightarrow> bool) \<Rightarrow> queue \<Rightarrow> queue \<Rightarrow> bool" for event_ok where
  start: "queue_run event_ok q q"
| enqueued: "queue_run event_ok q q1 \<Longrightarrow> list_all clean_relay us \<Longrightarrow> queue_run event_ok q (q_enqueue evt us q1)"
| drained: "queue_run event_ok q q1 \<Longrightarrow> queue_run event_ok q (snd (q_drain_once order q1))"
| flushed: "queue_run event_ok q q1 \<Longrightarrow> queue_run event_ok q (q_flush q1)"
| restarted: "queue_run event_ok q q1 \<Longrightarrow> new_publish_queue event_ok q1 = (e, q2) \<Longrightarrow>
    queue_run event_ok q q2"

lemma queue_run_ok: "queue_run event_ok q q' \<Longrightarrow> queue_ok q \<Longrightarrow> queue_ok q'"
proof (induction rule: queue_run.induct)
  case (flushed q q1)
  then show ?case using same_store_ok [OF same_store_frames(9)] by simp
next
  case (restarted q q1 e q2)
  then show ?case using new_publish_queue_ok by blast
qed (simp_all add: q_enqueue_ok drain_ok)

text \<open>
  C28. No undelivered event is lost by a restart: after any life of the queue, with failing statements,
  relays that cannot be reached or refuse, and events enqueued while the network is used, an event
  that is held undelivered and was written to the table is held again by the next process, for all
  the relays it is still to reach.
\<close>

theorem undelivered_survives_restart:
  assumes "queue_run event_ok q0 q" "queue_ok q0"
    "it \<in> set (q_items q)" "\<not> delivered it" "db_id it \<noteq> 0" "pending it \<noteq> []" "event_ok (event it)"
    "new_publish_queue event_ok q = (None, q')"
  shows "\<exists>it' \<in> set (q_items q'). event it' = event it \<and> set (pending it) \<subseteq> set (pending it') \<and>
    \<not> delivered it'"
proof -
  have ok: "queue_ok q" by (rule queue_run_ok [OF assms(1,2)])
  with assms(3,4,5) obtain r where r: "r \<in> set (q_rows q)" "pr_event r = event it"
      "set (pending it) \<subseteq> set (row_relays r)"
    by (auto simp: queue_ok_def stored_in_def has_row_def)
  with new_publish_queue_ok [OF ok assms(8)] assms(6,7)
  obtain it' where "it' \<in> set (q_items q')" "revived r it'" by fastforce
  with r show ?thesis by (intro bexI [of _ it']) (simp_all add: revived_def)
qed

lemma trim_relay: "trim_space ''wss://r'' = ''wss://r''"
  by (rule trim_space_id) (simp_all add: space_runes_def)

theorem undelivered_survives_restart_witness:
  "\<exists>it' \<in> set (q_items (snd (new_publish_queue (\<lambda>_. True)
      (q_enqueue ''e'' [''wss://r''] empty_queue)))). event it' = ''e'' \<and> ''wss://r'' \<in> set (pending it')"
proof -
  let ?q = "q_enqueue ''e'' [''wss://r''] empty_queue"
  have run: "queue_run (\<lambda>_. True) empty_queue ?q"
    by (rule queue_run.enqueued [OF queue_run.start]) (simp add: clean_relay_def trim_relay)
  have ok: "queue_ok empty_queue"
    by (simp add: queue_ok_def stored_in_def clean_arrivals_def empty_queue_def)
  have items: "q_items ?q = [\<lparr>item_key = 0, db_id = 1, event = ''e'', pending = [''wss://r''],
      delivered = False, created_at = 0, rejects = \<lambda>_. 0\<rparr>]"
    by (simp add: q_enqueue_def empty_queue_def read_clock_def insert_item_def
        q_insert_publish_item_def q_statement_def q_signal_def)
  have up: "fst (new_publish_queue (\<lambda>_. True) ?q) = None"
    by (simp add: q_enqueue_def empty_queue_def read_clock_def insert_item_def
        q_insert_publish_item_def q_statement_def q_signal_def new_publish_queue_def load_queue_def
        q_list_publish_queue_def)
  obtain q' where q': "new_publish_queue (\<lambda>_. True) ?q = (None, q')"
    using up by (cases "new_publish_queue (\<lambda>_. True) ?q") simp
  from undelivered_survives_restart [OF run ok, of "hd (q_items ?q)", OF _ _ _ _ _ q'] q'
  show ?thesis by (auto simp: items)
qed

end
