(* ===== verification/Nostr_File.thy ===== *)
theory Nostr_File
  imports Go_Path Go_Fmt Json Backend_Util
begin

text \<open>
  Files over Nostr (\<open>nostr/crypto.go\<close>, \<open>nostr/blossom.go\<close>, \<open>nostr/media.go\<close>): encryption and
  upload of a file that is sent, download and decryption of one that is received, and the media
  links of a text.

  Byte strings and texts are both \<open>string\<close>. AES-GCM, SHA-256, the MIME tables, URL parsing and
  the web are parameters: the record \<open>flib\<close> and the answers listed in the state \<open>nfs\<close>. A Go run-time
  panic is the value \<open>None\<close>.
\<close>

section \<open>Surroundings\<close>

record flib =
  sha256 :: "string \<Rightarrow> string"
  aes_new :: "string \<Rightarrow> string option"
  gcm_new :: "nat \<Rightarrow> string option"
  gcm_open :: "string \<Rightarrow> string \<Rightarrow> string \<Rightarrow> string + string"
  gcm_seal :: "string \<Rightarrow> string \<Rightarrow> string \<Rightarrow> string"
  url_path :: "string \<Rightarrow> string option"
  mime_exts :: "string \<Rightarrow> string list"
  mime_of_ext :: "string \<Rightarrow> string"
  sniff :: "string \<Rightarrow> string"

text \<open>The answer to a GET: its status, the bytes that arrive, and an error that cuts them off.\<close>

datatype http_get = BadRequest string | NoResponse string | GotResponse nat string "string option"

text \<open>The answer to a PUT: its status, and the JSON value of its body if that parses.\<close>

datatype http_put = PutFailed string | PutResponse nat string "json option"

record nfs =
  nf_files :: "string \<Rightarrow> string option"
  nf_rand :: "string list"
  nf_faults :: outcomes
  nf_gets :: "http_get list"
  nf_puts :: "http_put list"

definition fs_call :: "nfs \<Rightarrow> string option \<times> nfs" where
  "fs_call w = (case next_fault (nf_faults w) of (f, fs) \<Rightarrow> (f, w\<lparr>nf_faults := fs\<rparr>))"

text \<open>\<open>os.Remove\<close>, whose error the sources ignore.\<close>

definition fs_remove :: "string \<Rightarrow> nfs \<Rightarrow> nfs" where
  "fs_remove path w =
     (case fs_call w of
        (None, w) \<Rightarrow> w\<lparr>nf_files := (nf_files w)(path := None)\<rparr>
      | (Some e, w) \<Rightarrow> w)"

definition get_answer :: "nfs \<Rightarrow> http_get \<times> nfs" where
  "get_answer w =
     (case nf_gets w of [] \<Rightarrow> (NoResponse ''no route'', w) | a # as \<Rightarrow> (a, w\<lparr>nf_gets := as\<rparr>))"

definition put_answer :: "nfs \<Rightarrow> http_put \<times> nfs" where
  "put_answer w =
     (case nf_puts w of [] \<Rightarrow> (PutFailed ''no route'', w) | a # as \<Rightarrow> (a, w\<lparr>nf_puts := as\<rparr>))"

section \<open>Hexadecimal text\<close>

text \<open>\<open>encoding/hex\<close>: two lower-case digits per byte; decoding also takes upper case.\<close>

datatype hex_error = InvalidByte char | OddLength

definition hex_encode :: "string \<Rightarrow> string" where
  "hex_encode s =
     concat (map (\<lambda>c. [hex_char (of_char c div 16), hex_char (of_char c mod 16)]) s)"

definition hex_val :: "char \<Rightarrow> nat option" where
  "hex_val c =
     (if CHR ''0'' \<le> c \<and> c \<le> CHR ''9'' then Some (of_char c - 48)
      else if CHR ''a'' \<le> c \<and> c \<le> CHR ''f'' then Some (of_char c - 87)
      else if CHR ''A'' \<le> c \<and> c \<le> CHR ''F'' then Some (of_char c - 55)
      else None)"

fun hex_decode :: "string \<Rightarrow> hex_error + string" where
  "hex_decode [] = Inr []"
| "hex_decode [a] = (case hex_val a of None \<Rightarrow> Inl (InvalidByte a) | Some _ \<Rightarrow> Inl OddLength)"
| "hex_decode (a # b # s) =
     (case hex_val a of
        None \<Rightarrow> Inl (InvalidByte a)
      | Some x \<Rightarrow>
          (case hex_val b of
             None \<Rightarrow> Inl (InvalidByte b)
           | Some y \<Rightarrow>
               (case hex_decode s of Inl e \<Rightarrow> Inl e | Inr t \<Rightarrow> Inr (char_of (16 * x + y) # t))))"

lemma hex_val_char: "d < 16 \<Longrightarrow> hex_val (hex_char d) = Some d"
proof -
  assume "d < 16"
  then have "d \<in> set [0..<16]" by simp
  moreover have "\<forall>d \<in> set [0..<16]. hex_val (hex_char d) = Some d" by code_simp
  ultimately show ?thesis by blast
qed

lemma hex_decode_encode: "hex_decode (hex_encode s) = Inr s"
proof (induction s)
  case (Cons c s)
  have "(of_char c :: nat) < 256" by simp
  then have "(of_char c :: nat) div 16 < 16" "(of_char c :: nat) mod 16 < 16"
    by (simp_all add: less_mult_imp_div_less)
  then show ?case using Cons.IH by (simp add: hex_encode_def hex_val_char)
qed (simp add: hex_encode_def)

lemma hex_encode_Nil_iff: "hex_encode s = [] \<longleftrightarrow> s = []"
  by (cases s) (simp_all add: hex_encode_def)

section \<open>Encryption\<close>

type_synonym tags = "string list list"

definition tag_value :: "tags \<Rightarrow> string \<Rightarrow> string" where
  "tag_value ts key =
     (case find (\<lambda>t. 2 \<le> length t \<and> t ! 0 = key) ts of None \<Rightarrow> [] | Some t \<Rightarrow> t ! 1)"

datatype decrypt_error =
    UnsupportedAlgorithm string | MissingParams | BadKey hex_error | KeyLength nat
  | BadNonce hex_error | ReadFailed string | CipherFailed string | GcmFailed string
  | OpenFailed string | HashMismatch | WriteFailed string

definition parse_decryption_params :: "tags \<Rightarrow> decrypt_error + string \<times> string" where
  "parse_decryption_params ts =
     (let key_hex = tag_value ts ''decryption-key''; nonce_hex = tag_value ts ''decryption-nonce''
      in if key_hex = [] \<or> nonce_hex = [] then Inl MissingParams
         else case hex_decode key_hex of
                Inl e \<Rightarrow> Inl (BadKey e)
              | Inr key \<Rightarrow>
                  (if length key \<noteq> 16 \<and> length key \<noteq> 32 then Inl (KeyLength (length key))
                   else case hex_decode nonce_hex of
                          Inl e \<Rightarrow> Inl (BadNonce e)
                        | Inr nonce \<Rightarrow> Inr (key, nonce)))"

definition decrypt_aes_gcm :: "flib \<Rightarrow> string \<Rightarrow> string \<Rightarrow> string \<Rightarrow> decrypt_error + string" where
  "decrypt_aes_gcm l key nonce ciphertext =
     (case aes_new l key of
        Some e \<Rightarrow> Inl (CipherFailed e)
      | None \<Rightarrow>
          (case gcm_new l (length nonce) of
             Some e \<Rightarrow> Inl (GcmFailed e)
           | None \<Rightarrow>
               (case gcm_open l key nonce ciphertext of
                  Inl e \<Rightarrow> Inl (OpenFailed e)
                | Inr plaintext \<Rightarrow> Inr plaintext)))"

text \<open>\<open>os.ReadFile\<close> and \<open>os.WriteFile\<close>.\<close>

definition fs_read :: "string \<Rightarrow> nfs \<Rightarrow> (string + string) \<times> nfs" where
  "fs_read path w =
     (case fs_call w of
        (Some e, w) \<Rightarrow> (Inl e, w)
      | (None, w) \<Rightarrow>
          (case nf_files w path of
             None \<Rightarrow> (Inl (''open '' @ path @ '': no such file or directory''), w)
           | Some data \<Rightarrow> (Inr data, w)))"

definition fs_write :: "string \<Rightarrow> string \<Rightarrow> nfs \<Rightarrow> string option \<times> nfs" where
  "fs_write path data w =
     (case fs_call w of
        (Some e, w) \<Rightarrow> (Some e, w)
      | (None, w) \<Rightarrow> (None, w\<lparr>nf_files := (nf_files w)(path := Some data)\<rparr>))"

definition decrypt_file_in_place :: "flib \<Rightarrow> string \<Rightarrow> tags \<Rightarrow> nfs \<Rightarrow> decrypt_error option \<times> nfs" where
  "decrypt_file_in_place l path ts w =
     (let algo = tag_value ts ''encryption-algorithm''
      in if algo \<noteq> ''aes-gcm'' then (Some (UnsupportedAlgorithm algo), w)
         else case parse_decryption_params ts of
                Inl e \<Rightarrow> (Some e, w)
              | Inr (key, nonce) \<Rightarrow>
                  (case fs_read path w of
                     (Inl e, w) \<Rightarrow> (Some (ReadFailed e), w)
                   | (Inr ciphertext, w) \<Rightarrow>
                       (case decrypt_aes_gcm l key nonce ciphertext of
                          Inl e \<Rightarrow> (Some e, w)
                        | Inr plaintext \<Rightarrow>
                            (let ox = tag_value ts ''ox''
                             in if ox \<noteq> [] \<and> hex_encode (sha256 l plaintext) \<noteq> ox
                                then (Some HashMismatch, w)
                                else case fs_write path plaintext w of
                                       (Some e, w) \<Rightarrow> (Some (WriteFailed e), w)
                                     | (None, w) \<Rightarrow> (None, w)))))"

record encrypted_file =
  ciphertext :: string
  key_hex :: string
  nonce_hex :: string
  ox_hex :: string

text \<open>\<open>rk\<close> and \<open>rn\<close> are the two results of \<open>rand.Read\<close>: an error, or that many fresh bytes.\<close>

definition encrypt_file_for_upload ::
    "flib \<Rightarrow> string + string \<Rightarrow> string + string \<Rightarrow> string \<Rightarrow> string + encrypted_file" where
  "encrypt_file_for_upload l rk rn plaintext =
     (case rk of
        Inl e \<Rightarrow> Inl (''generating AES key: '' @ e)
      | Inr key \<Rightarrow>
          (case rn of
             Inl e \<Rightarrow> Inl (''generating nonce: '' @ e)
           | Inr nonce \<Rightarrow>
               (case aes_new l key of
                  Some e \<Rightarrow> Inl (''creating AES cipher: '' @ e)
                | None \<Rightarrow>
                    (case gcm_new l 12 of
                       Some e \<Rightarrow> Inl (''creating GCM: '' @ e)
                     | None \<Rightarrow>
                         Inr \<lparr>ciphertext = gcm_seal l key nonce plaintext, key_hex = hex_encode key,
                           nonce_hex = hex_encode nonce, ox_hex = hex_encode (sha256 l plaintext)\<rparr>))))"

section \<open>Upload\<close>

record blossom_upload =
  bu_url :: string
  bu_mime :: string
  bu_x :: string
  bu_enc :: encrypted_file

definition detect_content_type :: "flib \<Rightarrow> string \<Rightarrow> string \<Rightarrow> string" where
  "detect_content_type l path data =
     (let ext = path_ext path
      in if ext \<noteq> [] \<and> mime_of_ext l ext \<noteq> [] then mime_of_ext l ext else sniff l data)"

definition dec_upload_url :: "json \<Rightarrow> string option" where
  "dec_upload_url j = dec_struct (\<lambda>fs old. dec_field ''url'' dec_string old fs) [] j"

definition upload_to_server :: "string \<Rightarrow> string \<Rightarrow> nfs \<Rightarrow> (string + string) \<times> nfs" where
  "upload_to_server server hash w =
     (case put_answer w of
        (PutFailed e, w) \<Rightarrow> (Inl (''uploading to '' @ server @ '': '' @ e), w)
      | (PutResponse status body json, w) \<Rightarrow>
          (if status \<noteq> 200 \<and> status \<noteq> 201 then
             (Inl (''HTTP '' @ dec_nat status @ '': '' @ body), w)
           else
             (Inr (case Option.bind json dec_upload_url of
                     Some url \<Rightarrow> if url = [] then trim_right server ''/'' @ ''/'' @ hash else url
                   | None \<Rightarrow> trim_right server ''/'' @ ''/'' @ hash), w)))"

definition blossom_auth_tags :: "string \<Rightarrow> int \<Rightarrow> tags" where
  "blossom_auth_tags hash now =
     [[''t'', ''upload''], [''x'', hash],
      [''expiration'', dec_int ((now + 5 * 60 * 1000000000) div 1000000000)]]"

fun try_servers :: "string list \<Rightarrow> string \<Rightarrow> string \<Rightarrow> nfs \<Rightarrow> (string + string) \<times> nfs" where
  "try_servers [] hash failed w = (Inl (''all blossom servers failed, last error: '' @ failed), w)"
| "try_servers (s # ss) hash failed w =
     (case upload_to_server s hash w of
        (Inl e, w) \<Rightarrow> try_servers ss hash e w
      | (Inr url, w) \<Rightarrow> (Inr url, w))"

text \<open>\<open>sign\<close> signs the authorisation event, given by its tags; it may fail.\<close>

definition upload_to_blossom ::
    "flib \<Rightarrow> string list \<Rightarrow> (tags \<Rightarrow> string option) \<Rightarrow> int \<Rightarrow> string + string \<Rightarrow> string + string \<Rightarrow>
     string \<Rightarrow> nfs \<Rightarrow> (string + blossom_upload) \<times> nfs" where
  "upload_to_blossom l servers sign now rk rn path w =
     (if servers = [] then (Inl ''no blossom servers configured'', w)
      else case fs_read path w of
             (Inl e, w) \<Rightarrow> (Inl (''reading file: '' @ e), w)
           | (Inr plaintext, w) \<Rightarrow>
               (case encrypt_file_for_upload l rk rn plaintext of
                  Inl e \<Rightarrow> (Inl (''encrypting file: '' @ e), w)
                | Inr enc \<Rightarrow>
                    (let hash = hex_encode (sha256 l (ciphertext enc))
                     in case sign (blossom_auth_tags hash now) of
                          Some e \<Rightarrow> (Inl (''building auth event: signing blossom auth event: '' @ e), w)
                        | None \<Rightarrow>
                            (case try_servers servers hash [] w of
                               (Inl e, w) \<Rightarrow> (Inl e, w)
                             | (Inr url, w) \<Rightarrow>
                                 (Inr \<lparr>bu_url = url, bu_mime = detect_content_type l path plaintext,
                                   bu_x = hash, bu_enc = enc\<rparr>, w)))))"

text \<open>The tags with which \<open>SendFile\<close> describes an upload.\<close>

definition upload_tags :: "blossom_upload \<Rightarrow> tags" where
  "upload_tags u =
     [[''file-type'', bu_mime u], [''encryption-algorithm'', ''aes-gcm''],
      [''decryption-key'', key_hex (bu_enc u)], [''decryption-nonce'', nonce_hex (bu_enc u)],
      [''x'', bu_x u], [''ox'', ox_hex (bu_enc u)]]"

section \<open>Download\<close>

definition unsafe_chars :: "char set" where
  "unsafe_chars = set ''<>:/|?*'' \<union> {CHR 0x22, CHR 0x5C}"

definition unsafe_char :: "char \<Rightarrow> bool" where
  "unsafe_char c \<longleftrightarrow> c \<in> unsafe_chars \<or> of_char c < (0x20 :: nat)"

definition max_name :: nat where "max_name = 200"

definition sanitize_filename :: "string \<Rightarrow> string option" where
  "sanitize_filename name =
     (let name = trim_space (map (\<lambda>c. if unsafe_char c then CHR ''_'' else c) name);
          capped =
            (if max_name < length name then
               (let ext = path_ext name; base = trim_suffix name ext
                in if int max_name - int (length ext) < int (length base) then
                     (if max_name < length ext then None
                      else Some (take (max_name - length ext) base @ ext))
                   else Some (base @ ext))
             else Some name)
      in case capped of
           None \<Rightarrow> None
         | Some n \<Rightarrow> Some (if n = [] \<or> n = ''.'' \<or> n = ''/'' then ''attachment'' else n))"

definition max_download_size :: nat where "max_download_size = 52428800"

text \<open>
  \<open>os.CreateTemp\<close> with the pattern \<open>base_*ext\<close>: the first random name that is not taken yet.
\<close>

fun create_temp :: "string \<Rightarrow> string \<Rightarrow> string \<Rightarrow> string list \<Rightarrow> nfs \<Rightarrow> (string + string) \<times> nfs" where
  "create_temp dir base ext [] w = (Inl ''file exists'', w\<lparr>nf_rand := []\<rparr>)"
| "create_temp dir base ext (r # rs) w =
     (let path = dir @ ''/'' @ base @ r @ ext
      in if nf_files w path = None
         then (Inr path, w\<lparr>nf_files := (nf_files w)(path := Some []), nf_rand := rs\<rparr>)
         else create_temp dir base ext rs w)"

text \<open>What arrives of a body through \<open>io.LimitReader\<close>: the bytes copied, and the error seen.\<close>

definition copy_limited :: "string \<Rightarrow> string option \<Rightarrow> string \<times> string option" where
  "copy_limited body broken =
     (if length body \<le> max_download_size then (body, broken)
      else (take (Suc max_download_size) body, None))"

text \<open>The name under which a URL is stored.\<close>

definition url_filename :: "flib \<Rightarrow> string \<Rightarrow> string option" where
  "url_filename l url =
     sanitize_filename (case url_path l url of None \<Rightarrow> ''attachment'' | Some p \<Rightarrow> path_base p)"

definition download_dir :: "string \<Rightarrow> string \<Rightarrow> string" where
  "download_dir base_dir conv = path_join [base_dir, conv, ''attachments'']"

definition store_body :: "string \<Rightarrow> string \<Rightarrow> string option \<Rightarrow> nfs \<Rightarrow> (string + string) \<times> nfs" where
  "store_body path body broken w =
     (case copy_limited body broken of
        (bytes, err) \<Rightarrow>
          (case fs_call w of
             (Some e, w) \<Rightarrow> (Inl (''writing file: '' @ e), fs_remove path w)
           | (None, w) \<Rightarrow>
               (let w = w\<lparr>nf_files := (nf_files w)(path := Some bytes)\<rparr>
                in case err of
                     Some e \<Rightarrow> (Inl (''writing file: '' @ e), fs_remove path w)
                   | None \<Rightarrow>
                       (if max_download_size < length bytes
                        then (Inl (''download exceeds maximum size of '' @ dec_nat max_download_size @
                                '' bytes''), fs_remove path w)
                        else (Inr path, w)))))"

definition download_url ::
    "flib \<Rightarrow> string \<Rightarrow> string \<Rightarrow> string \<Rightarrow> nfs \<Rightarrow> (string + string) option \<times> nfs" where
  "download_url l url base_dir conv w =
     (case get_answer w of
        (BadRequest e, w) \<Rightarrow> (Some (Inl (''creating request: '' @ e)), w)
      | (NoResponse e, w) \<Rightarrow> (Some (Inl (''downloading: '' @ e)), w)
      | (GotResponse status body broken, w) \<Rightarrow>
          (if status \<noteq> 200 then (Some (Inl (''download returned status '' @ dec_nat status)), w)
           else case url_filename l url of
                  None \<Rightarrow> (None, w)
                | Some filename \<Rightarrow>
                    (case fs_call w of
                       (Some e, w) \<Rightarrow> (Some (Inl (''creating attachments dir: '' @ e)), w)
                     | (None, w) \<Rightarrow>
                         (let ext = path_ext filename; base = trim_suffix filename ext
                          in case fs_call w of
                               (Some e, w) \<Rightarrow> (Some (Inl (''creating file: '' @ e)), w)
                             | (None, w) \<Rightarrow>
                                 (case create_temp (download_dir base_dir conv) (base @ ''_'') ext (nf_rand w) w of
                                    (Inl e, w) \<Rightarrow> (Some (Inl (''creating file: '' @ e)), w)
                                  | (Inr path, w) \<Rightarrow>
                                      (case store_body path body broken w of (res, w) \<Rightarrow> (Some res, w)))))))"

section \<open>Links in a text\<close>

text \<open>
  Case-insensitive matching of a lower-case ASCII word as \<open>regexp\<close> does it: \<open>s\<close> also folds with the
  long s, the bytes C5 BF. The rest of the text is returned.
\<close>

fun fold_match :: "string \<Rightarrow> string \<Rightarrow> string option" where
  "fold_match [] s = Some s"
| "fold_match (p # ps) [] = None"
| "fold_match (p # ps) (c # s) =
     (if ascii_lower c = p then fold_match ps s
      else if p = CHR ''s'' \<and> c = CHR 0xC5 then
        (case s of [] \<Rightarrow> None | d # t \<Rightarrow> if d = CHR 0xBF then fold_match ps t else None)
      else None)"

fun first_match :: "string list \<Rightarrow> string \<Rightarrow> string option" where
  "first_match [] s = None"
| "first_match (p # ps) s = (case fold_match p s of Some t \<Rightarrow> Some t | None \<Rightarrow> first_match ps s)"

definition media_exts :: "string list" where
  "media_exts = [''png'', ''jpg'', ''jpeg'', ''gif'', ''webp'', ''pdf'', ''mp3'', ''mp4'', ''wav'', ''ogg'',
     ''svg'', ''bmp'', ''tiff'', ''zip'']"

text \<open>The class \<open>\S\<close> excludes five bytes.\<close>

definition re_gap :: "char \<Rightarrow> bool" where
  "re_gap c \<longleftrightarrow> c \<in> {CHR 0x09, CHR 0x0A, CHR 0x0C, CHR 0x0D, CHR '' ''}"

text \<open>Greedy \<open>\S*\.(ext)\<close>: the rest after the last extension of the run of non-spaces.\<close>

fun last_ext :: "string \<Rightarrow> string option" where
  "last_ext [] = None"
| "last_ext (c # s) =
     (if re_gap c then None
      else case last_ext s of
             Some r \<Rightarrow> Some r
           | None \<Rightarrow> if c = CHR ''.'' then first_match media_exts s else None)"

definition url_query :: "string \<Rightarrow> string" where
  "url_query s = (case s of
       [] \<Rightarrow> []
     | c # t \<Rightarrow> if c = CHR ''?'' then dropWhile (\<lambda>c. \<not> re_gap c) t else s)"

definition media_body :: "string \<Rightarrow> string option" where
  "media_body s = (case s of
       [] \<Rightarrow> None
     | c # t \<Rightarrow> if re_gap c then None else map_option url_query (last_ext t))"

definition media_match :: "string \<Rightarrow> string option" where
  "media_match s =
     (case Option.bind (fold_match ''https://'' s) media_body of
        Some r \<Rightarrow> Some r
      | None \<Rightarrow> Option.bind (fold_match ''http://'' s) media_body)"

lemma fold_match_length: "fold_match p s = Some r \<Longrightarrow> length r \<le> length s \<and> (p \<noteq> [] \<longrightarrow> length r < length s)"
proof (induction p s rule: fold_match.induct)
  case (3 p ps c s)
  then show ?case by (auto split: if_splits list.splits simp: le_Suc_eq less_Suc_eq_le)
qed simp_all

lemma first_match_length: "first_match ps s = Some r \<Longrightarrow> length r \<le> length s"
  by (induction ps s rule: first_match.induct) (auto split: option.splits dest: fold_match_length)

lemma last_ext_length: "last_ext s = Some r \<Longrightarrow> length r \<le> length s"
  by (induction s arbitrary: r) (auto split: if_splits option.splits dest!: first_match_length)

lemma url_query_length: "length (url_query s) \<le> length s"
  by (auto simp: url_query_def split: list.splits intro: le_SucI length_dropWhile_le)

lemma media_body_length: "media_body s = Some r \<Longrightarrow> length r \<le> length s"
  by (auto simp: media_body_def split: list.splits if_splits dest!: last_ext_length
      intro: le_trans [OF url_query_length])

lemma media_match_length: "media_match s = Some r \<Longrightarrow> length r < length s"
  by (auto simp: media_match_def bind_eq_Some_conv split: option.splits
      dest!: media_body_length fold_match_length)

text \<open>\<open>FindAllString\<close>: the leftmost matches, without overlaps.\<close>

function find_media :: "string \<Rightarrow> string list" where
  "find_media s =
     (case s of
        [] \<Rightarrow> []
      | c # t \<Rightarrow>
          (case media_match s of
             Some r \<Rightarrow> take (length s - length r) s # find_media r
           | None \<Rightarrow> find_media t))"
  by pat_completeness auto
termination
  by (relation "measure length") (auto dest: media_match_length)

declare find_media.simps [simp del]

text \<open>\<open>strings.ReplaceAll\<close> for a non-empty \<open>old\<close>.\<close>

function replace_all :: "string \<Rightarrow> string \<Rightarrow> string \<Rightarrow> string" where
  "replace_all old new s =
     (case s of
        [] \<Rightarrow> []
      | c # t \<Rightarrow>
          (if old \<noteq> [] \<and> has_prefix s old then new @ replace_all old new (drop (length old) s)
           else c # replace_all old new t))"
  by pat_completeness auto
termination
  by (relation "measure (\<lambda>(old, new, s). length s)") auto

declare replace_all.simps [simp del]

fun rewrite_urls ::
    "flib \<Rightarrow> string \<Rightarrow> string \<Rightarrow> string list \<Rightarrow> string list \<Rightarrow> string \<Rightarrow> nfs \<Rightarrow> string option \<times> nfs" where
  "rewrite_urls l base_dir conv processed [] txt w = (Some txt, w)"
| "rewrite_urls l base_dir conv processed (u # us) txt w =
     (if u \<in> set processed then rewrite_urls l base_dir conv processed us txt w
      else case download_url l u base_dir conv w of
             (None, w) \<Rightarrow> (None, w)
           | (Some (Inl e), w) \<Rightarrow> rewrite_urls l base_dir conv processed us txt w
           | (Some (Inr path), w) \<Rightarrow>
               rewrite_urls l base_dir conv (u # processed) us
                 (replace_all u (attachment_text [] path) txt) w)"

definition rewrite_media_urls :: "flib \<Rightarrow> string \<Rightarrow> string \<Rightarrow> string \<Rightarrow> nfs \<Rightarrow> string option \<times> nfs" where
  "rewrite_media_urls l base_dir conv txt w =
     (let urls = find_media txt
      in if urls = [] then (Some txt, w) else rewrite_urls l base_dir conv [] urls txt w)"

section \<open>File messages\<close>

definition mime_to_ext :: "flib \<Rightarrow> string \<Rightarrow> string" where
  "mime_to_ext l mime = (case mime_exts l mime of [] \<Rightarrow> [] | e # _ \<Rightarrow> e)"

definition desc_from_mime :: "string \<Rightarrow> string" where
  "desc_from_mime mime =
     (if has_prefix mime ''image/'' then ''image''
      else if has_prefix mime ''audio/'' then ''audio''
      else if has_prefix mime ''video/'' then ''video''
      else ''file'')"

definition maybe_add_extension :: "flib \<Rightarrow> string \<Rightarrow> string \<Rightarrow> nfs \<Rightarrow> string \<times> nfs" where
  "maybe_add_extension l path mime w =
     (if mime = [] \<or> path_ext path \<noteq> [] then (path, w)
      else let ext = mime_to_ext l mime
           in if ext = [] then (path, w)
              else case fs_call w of
                     (Some e, w) \<Rightarrow> (path, w)
                   | (None, w) \<Rightarrow>
                       (path @ ext, w\<lparr>nf_files :=
                          (nf_files w)(path := None, path @ ext := nf_files w path)\<rparr>))"

definition handle_file_message ::
    "flib \<Rightarrow> string \<Rightarrow> string \<Rightarrow> tags \<Rightarrow> string \<Rightarrow> nfs \<Rightarrow> string option \<times> nfs" where
  "handle_file_message l base_dir content_url ts conv w =
     (let url = trim_space content_url
      in if url = [] then (Some ''[User sent a file message with no URL]'', w)
         else let mime = tag_value ts ''file-type''
         in case download_url l url base_dir conv w of
              (None, w) \<Rightarrow> (None, w)
            | (Some (Inl e), w) \<Rightarrow> (Some (''[User sent a file but download failed: '' @ url @ '']''), w)
            | (Some (Inr path), w) \<Rightarrow>
                (case (if tag_value ts ''encryption-algorithm'' \<noteq> []
                       then decrypt_file_in_place l path ts w else (None, w)) of
                   (Some e, w) \<Rightarrow>
                     (Some ''[User sent an encrypted file but decryption failed]'', fs_remove path w)
                 | (None, w) \<Rightarrow>
                     (case maybe_add_extension l path mime w of
                        (path, w) \<Rightarrow>
                          (Some (''[User sent a '' @ desc_from_mime mime @ '': '' @ path @ '']'' @
                             [CHR 0x0A] @ ''Use the read tool to view it.''), w))))"

section \<open>File names\<close>

lemma underscore_safe: "\<not> unsafe_char CHR ''_''"
  by (simp add: unsafe_char_def unsafe_chars_def)

lemma unsafe_dot_free: "\<not> unsafe_char c \<Longrightarrow> c \<noteq> CHR ''/''"
  by (auto simp: unsafe_char_def unsafe_chars_def)

lemma attachment_safe: "c \<in> set ''attachment'' \<Longrightarrow> \<not> unsafe_char c"
  by (auto simp: unsafe_char_def unsafe_chars_def)



text \<open>
  A name whose extension alone is longer than the limit makes the slice index negative: Go panics,
  and the whole process with it. The name is chosen by whoever sends the link.
\<close>

theorem long_extension_panics: "sanitize_filename (CHR ''.'' # replicate 200 CHR ''a'') = None"
  by code_simp

section \<open>A file sent and received\<close>

lemma fs_call_ok [simp]: "nf_faults w = [] \<Longrightarrow> fs_call w = (None, w)"
  by (simp add: fs_call_def)

lemma download_ok:
  assumes "nf_faults w = []" "nf_gets w = GotResponse 200 body None # gs" "nf_rand w = r # rs"
    "url_filename l url = Some f" "length body \<le> max_download_size"
    "path = download_dir base_dir conv @ ''/'' @ trim_suffix f (path_ext f) @ ''_'' @ r @ path_ext f"
    "nf_files w path = None"
  shows "download_url l url base_dir conv w = (Some (Inr path),
    w\<lparr>nf_gets := gs, nf_rand := rs, nf_files := (nf_files w)(path := Some body)\<rparr>)"
  using assms
  by (simp add: download_url_def get_answer_def Let_def store_body_def copy_limited_def)

lemma upload_encrypts:
  assumes "upload_to_blossom l servers sign now (Inr key) (Inr nonce) path w = (Inr u, w')"
  shows "\<exists>plaintext. nf_files w path = Some plaintext \<and> aes_new l key = None \<and>
    bu_enc u = \<lparr>ciphertext = gcm_seal l key nonce plaintext, key_hex = hex_encode key,
      nonce_hex = hex_encode nonce, ox_hex = hex_encode (sha256 l plaintext)\<rparr>"
proof -
  obtain res w1 where r: "fs_read path w = (res, w1)" by (cases "fs_read path w")
  with assms obtain plaintext where res: "res = Inr plaintext"
    by (cases res) (auto simp: upload_to_blossom_def split: if_splits)
  with r have stored: "nf_files w path = Some plaintext"
    by (auto simp: fs_read_def fs_call_def split: prod.splits option.splits)
  from assms r res obtain enc where enc: "encrypt_file_for_upload l (Inr key) (Inr nonce) plaintext = Inr enc"
    by (cases "encrypt_file_for_upload l (Inr key) (Inr nonce) plaintext")
       (auto simp: upload_to_blossom_def split: if_splits)
  with assms r res have "bu_enc u = enc"
    by (auto simp: upload_to_blossom_def Let_def split: if_splits option.splits prod.splits sum.splits)
  with enc stored show ?thesis
    by (auto simp: encrypt_file_for_upload_def split: option.splits)
qed

lemma upload_tag_values:
  "tag_value (upload_tags u) ''file-type'' = bu_mime u"
  "tag_value (upload_tags u) ''encryption-algorithm'' = ''aes-gcm''"
  "tag_value (upload_tags u) ''decryption-key'' = key_hex (bu_enc u)"
  "tag_value (upload_tags u) ''decryption-nonce'' = nonce_hex (bu_enc u)"
  "tag_value (upload_tags u) ''ox'' = ox_hex (bu_enc u)"
  by (simp_all add: tag_value_def upload_tags_def)

text \<open>
  C29. A file round trip between two bots: what one encrypts, uploads and describes in the tags of a
  file message, the other downloads under its attachments directory and decrypts to the same
  bytes, and its agent is told the path. Assumed of AES-GCM is that it opens what it sealed.
\<close>

theorem file_message_roundtrip:
  assumes sent: "upload_to_blossom l servers sign now (Inr key) (Inr nonce) file w0 = (Inr u, w0')"
      "length key = 32" "length nonce = 12"
    and cipher: "gcm_new l 12 = None" "\<And>k n p. gcm_open l k n (gcm_seal l k n p) = Inr p"
    and quiet: "nf_faults w = []" "nf_gets w = GotResponse 200 (ciphertext (bu_enc u)) None # gs"
      "length (ciphertext (bu_enc u)) \<le> max_download_size"
    and name: "trim_space url = url" "url \<noteq> []" "url_filename l url = Some f" "nf_rand w = r # rs"
      "nf_files w (download_dir base_dir conv @ ''/'' @ trim_suffix f (path_ext f) @ ''_'' @ r @ path_ext f) = None"
  shows "\<exists>path w'. handle_file_message l base_dir url (upload_tags u) conv w =
      (Some (''[User sent a '' @ desc_from_mime (bu_mime u) @ '': '' @ path @ '']'' @ [CHR 0x0A] @
         ''Use the read tool to view it.''), w') \<and>
    nf_files w' path = nf_files w0 file \<and> has_prefix path (download_dir base_dir conv @ ''/'')"
proof -
  obtain plaintext where plain: "nf_files w0 file = Some plaintext" "aes_new l key = None"
    "bu_enc u = \<lparr>ciphertext = gcm_seal l key nonce plaintext, key_hex = hex_encode key,
      nonce_hex = hex_encode nonce, ox_hex = hex_encode (sha256 l plaintext)\<rparr>"
    using upload_encrypts [OF sent(1)] by blast
  let ?path = "download_dir base_dir conv @ ''/'' @ trim_suffix f (path_ext f) @ ''_'' @ r @ path_ext f"
  let ?w1 = "w\<lparr>nf_gets := gs, nf_rand := rs,
    nf_files := (nf_files w)(?path := Some (ciphertext (bu_enc u)))\<rparr>"
  let ?w2 = "?w1\<lparr>nf_files := (nf_files ?w1)(?path := Some plaintext)\<rparr>"
  have nz: "hex_encode key \<noteq> []" "hex_encode nonce \<noteq> []"
    using sent(2,3) by (auto simp: hex_encode_Nil_iff)
  have down: "download_url l url base_dir conv w = (Some (Inr ?path), ?w1)"
    by (rule download_ok [OF quiet(1,2) name(4,3) quiet(3) refl name(5)])
  have dec: "decrypt_file_in_place l ?path (upload_tags u) ?w1 = (None, ?w2)"
    using plain cipher sent(2,3) nz quiet(1)
    by (simp add: decrypt_file_in_place_def upload_tag_values parse_decryption_params_def
        hex_decode_encode fs_read_def fs_write_def decrypt_aes_gcm_def Let_def)
  obtain path w' where ext: "maybe_add_extension l ?path (bu_mime u) ?w2 = (path, w')"
    by (cases "maybe_add_extension l ?path (bu_mime u) ?w2")
  have "nf_files w' path = Some plaintext \<and> has_prefix path (download_dir base_dir conv @ ''/'')"
    using ext quiet(1)
    by (auto simp: maybe_add_extension_def has_prefix_iff Let_def split: if_splits)
  with ext down dec name(1,2) plain(1) show ?thesis
    by (simp add: handle_file_message_def upload_tag_values Let_def)
qed

definition sample_flib :: flib where
  "sample_flib = \<lparr>sha256 = (\<lambda>_. ''h''), aes_new = (\<lambda>_. None), gcm_new = (\<lambda>_. None),
     gcm_open = (\<lambda>k n c. Inr (rev c)), gcm_seal = (\<lambda>k n p. rev p), url_path = (\<lambda>_. Some ''/blob.png''),
     mime_exts = (\<lambda>_. []), mime_of_ext = (\<lambda>_. ''image/png''), sniff = (\<lambda>_. [])\<rparr>"

definition sample_nfs :: nfs where
  "sample_nfs = \<lparr>nf_files = [''/a.png'' \<mapsto> ''data''], nf_rand = [''1''], nf_faults = [],
     nf_gets = [GotResponse 200 ''atad'' None], nf_puts = [PutResponse 200 [] None]\<rparr>"

theorem file_message_roundtrip_witness:
  "\<exists>u path w'. nf_files w' path = Some ''data'' \<and>
     handle_file_message sample_flib ''/s'' ''https://b/blob.png'' (upload_tags u) ''c'' sample_nfs =
       (Some (''[User sent a image: '' @ path @ '']'' @ [CHR 0x0A] @ ''Use the read tool to view it.''), w')"
proof -
  let ?k = "replicate 32 CHR ''k''" and ?n = "replicate 12 CHR ''n''"
  let ?up = "upload_to_blossom sample_flib [''https://b''] (\<lambda>_. None) 0 (Inr ?k) (Inr ?n) ''/a.png'' sample_nfs"
  let ?u = "\<lparr>bu_url = ''https://b'' @ ''/'' @ hex_encode ''h'', bu_mime = ''image/png'',
    bu_x = hex_encode ''h'',
    bu_enc = \<lparr>ciphertext = ''atad'', key_hex = hex_encode ?k, nonce_hex = hex_encode ?n,
      ox_hex = hex_encode ''h''\<rparr>\<rparr>"
  have "fst ?up = Inr ?u"
    by (simp add: upload_to_blossom_def sample_flib_def sample_nfs_def fs_read_def
        encrypt_file_for_upload_def Let_def upload_to_server_def put_answer_def
        detect_content_type_def path_ext_def trim_right_def)
  then obtain w0' where u: "?up = (Inr ?u, w0')" by (cases ?up) simp
  have f: "url_filename sample_flib ''https://b/blob.png'' = Some ''blob.png''" by code_simp
  have tr: "trim_space ''https://b/blob.png'' = ''https://b/blob.png''" by code_simp
  have keys: "length ?k = 32" "length ?n = 12" by simp_all
  have laws: "gcm_new sample_flib 12 = None"
    "gcm_open sample_flib k n (gcm_seal sample_flib k n p) = Inr p" for k n p
    by (simp_all add: sample_flib_def)
  have quiet: "nf_faults sample_nfs = []"
    "nf_gets sample_nfs = GotResponse 200 (ciphertext (bu_enc ?u)) None # []"
    "length (ciphertext (bu_enc ?u)) \<le> max_download_size" "nf_rand sample_nfs = ''1'' # []"
    by (simp_all add: sample_nfs_def max_download_size_def)
  have free: "nf_files sample_nfs (download_dir ''/s'' ''c'' @ ''/'' @
      trim_suffix ''blob.png'' (path_ext ''blob.png'') @ ''_'' @ ''1'' @ path_ext ''blob.png'') = None"
    by code_simp
  obtain path w' where h: "handle_file_message sample_flib ''/s'' ''https://b/blob.png'' (upload_tags ?u)
        ''c'' sample_nfs =
      (Some (''[User sent a '' @ desc_from_mime (bu_mime ?u) @ '': '' @ path @ '']'' @ [CHR 0x0A] @
         ''Use the read tool to view it.''), w')"
    "nf_files w' path = nf_files sample_nfs ''/a.png''"
    using file_message_roundtrip [OF u keys laws quiet(1,2,3) tr _ f quiet(4) free] by blast
  have "desc_from_mime (bu_mime ?u) = ''image''" by (simp add: desc_from_mime_def)
  moreover have "nf_files sample_nfs ''/a.png'' = Some ''data''" by (simp add: sample_nfs_def)
  ultimately show ?thesis using h
    by (intro exI [of _ ?u] exI [of _ path] exI [of _ w']) (simp del: append.simps)
qed

end
