(* ===== verification/Nostr.thy ===== *)
theory Nostr
  imports Nostr_File Publish_Queue
begin

text \<open>
  The Nostr transport (\<open>nostr/backend.go\<close>, \<open>nostr/dm.go\<close>, \<open>nostr/lastseen.go\<close>, \<open>nostr/keys.go\<close>,
  \<open>nostr/migrate_legacy.go\<close>, \<open>nostr/queries.sql_sqlc.go\<close>): its keys, the tables of seen messages and of
  published metadata, direct messages out through the publish queue, and gift wraps in.

  The Nostr library is the record \<open>nlib\<close>: hex and bech32 keys, gift wrapping, event ids and
  signatures, and what the relays answer. Keys and ids are their hex texts, a signed event its
  JSON text. The database statements share the outcomes and the clock of the publish queue.
\<close>

section \<open>Data\<close>

record rumor =
  ru_id :: string
  ru_pk :: string
  ru_kind :: nat
  ru_content :: string
  ru_tags :: tags
  ru_created :: int

datatype nip19_value = SecretValue string | PublicValue string | OtherValue string

record nlib =
  nl_files :: flib
  sk_from_hex :: "string \<Rightarrow> string + string"
  pk_from_hex :: "string \<Rightarrow> string + string"
  nip19_decode :: "string \<Rightarrow> string + string \<times> nip19_value"
  public_of :: "string \<Rightarrow> string"
  get_public_key :: "string + string"
  event_id :: "rumor \<Rightarrow> string"
  gift_wrap :: "rumor \<Rightarrow> string \<Rightarrow> string + string"
  gift_unwrap :: "string \<Rightarrow> string + rumor"
  sign_event :: "nat \<Rightarrow> string \<Rightarrow> tags \<Rightarrow> int \<Rightarrow> string + string"
  marshal_map :: "(string \<times> string) list \<Rightarrow> string"
  parse_json :: "string \<Rightarrow> json option"
  dm_relay_list :: "string \<Rightarrow> string list"
  dm_list_event :: "string \<Rightarrow> tags option"

record profile_config =
  pc_name :: string
  pc_display_name :: string
  pc_about :: string
  pc_picture :: string

record nostr_config =
  nc_private_key :: string
  nc_relays :: "string list"
  nc_dm_relays :: "string list"
  nc_blossom :: "string list"
  nc_allowed :: "string list"
  nc_base_dir :: string
  nc_profile :: profile_config

text \<open>The state: \<open>nb_running\<close> says that \<open>Run\<close> has set the keyer; \<open>nb_handled\<close> are the calls of the handler.\<close>

record nostr =
  nb_queue :: queue
  nb_seen :: "(string \<times> int) list"
  nb_meta :: "int \<Rightarrow> (string \<times> int) option"
  nb_fs :: nfs
  nb_active :: string
  nb_running :: bool
  nb_handled :: "message list"

definition n_now :: "nostr \<Rightarrow> int \<times> nostr" where
  "n_now b = (case read_clock (nb_queue b) of (t, q) \<Rightarrow> (t, b\<lparr>nb_queue := q\<rparr>))"

definition n_statement :: "nostr \<Rightarrow> string option \<times> nostr" where
  "n_statement b = (case q_statement (nb_queue b) of (f, q) \<Rightarrow> (f, b\<lparr>nb_queue := q\<rparr>))"

definition n_enqueue :: "string \<Rightarrow> string list \<Rightarrow> nostr \<Rightarrow> nostr" where
  "n_enqueue evt relays b = b\<lparr>nb_queue := q_enqueue evt relays (nb_queue b)\<rparr>"

section \<open>Keys\<close>

definition parse_secret_key :: "nlib \<Rightarrow> string \<Rightarrow> string + string" where
  "parse_secret_key l raw =
     (if \<not> has_prefix raw ''nsec'' then
        (case sk_from_hex l raw of Inl e \<Rightarrow> Inl (''parsing hex secret key: '' @ e) | Inr sk \<Rightarrow> Inr sk)
      else case nip19_decode l raw of
             Inl e \<Rightarrow> Inl (''decoding nsec: '' @ e)
           | Inr (prefix, val) \<Rightarrow>
               (if prefix \<noteq> ''nsec'' then Inl (''expected nsec prefix, got '' @ prefix)
                else case val of
                       SecretValue sk \<Rightarrow> Inr sk
                     | PublicValue _ \<Rightarrow> Inl ''nsec decoded to unexpected type nostr.PubKey''
                     | OtherValue ty \<Rightarrow> Inl (''nsec decoded to unexpected type '' @ ty)))"

definition load_keys :: "nlib \<Rightarrow> string \<Rightarrow> string + string \<times> string" where
  "load_keys l raw =
     (if raw = [] then Inl ''empty private key''
      else case parse_secret_key l raw of Inl e \<Rightarrow> Inl e | Inr sk \<Rightarrow> Inr (sk, public_of l sk))"

definition decode_nsec_to_hex :: "nlib \<Rightarrow> string \<Rightarrow> string + string" where
  "decode_nsec_to_hex l raw = parse_secret_key l raw"

text \<open>\<open>quoted\<close> is \<open>%q\<close>.\<close>

definition decode_npub_to_hex :: "nlib \<Rightarrow> (nat \<Rightarrow> bool) \<Rightarrow> string \<Rightarrow> string + string" where
  "decode_npub_to_hex l tab raw =
     (if \<not> has_prefix raw ''npub'' then
        (case pk_from_hex l raw of Inl e \<Rightarrow> Inl (''parsing hex public key: '' @ e) | Inr _ \<Rightarrow> Inr raw)
      else case nip19_decode l raw of
             Inl e \<Rightarrow> Inl (''decoding npub '' @ go_quote tab raw @ '': '' @ e)
           | Inr (prefix, val) \<Rightarrow>
               (if prefix \<noteq> ''npub'' then Inl (''expected npub prefix, got '' @ prefix)
                else case val of
                       PublicValue pk \<Rightarrow> Inr pk
                     | SecretValue _ \<Rightarrow> Inl ''npub decoded to unexpected type nostr.SecretKey''
                     | OtherValue ty \<Rightarrow> Inl (''npub decoded to unexpected type '' @ ty)))"

section \<open>Statements\<close>

definition q_count_seen :: "nostr \<Rightarrow> (string + nat) \<times> nostr" where
  "q_count_seen b =
     (case n_statement b of
        (Some e, b) \<Rightarrow> (Inl e, b)
      | (None, b) \<Rightarrow> (Inr (length (nb_seen b)), b))"

text \<open>The number of rows inserted.\<close>

definition q_insert_seen_if_new :: "string \<Rightarrow> int \<Rightarrow> nostr \<Rightarrow> (string + nat) \<times> nostr" where
  "q_insert_seen_if_new i t b =
     (case n_statement b of
        (Some e, b) \<Rightarrow> (Inl e, b)
      | (None, b) \<Rightarrow>
          (if i \<in> fst ` set (nb_seen b) then (Inr 0, b)
           else (Inr 1, b\<lparr>nb_seen := nb_seen b @ [(i, t)]\<rparr>)))"

definition q_newest_seen :: "nostr \<Rightarrow> (string + int) \<times> nostr" where
  "q_newest_seen b =
     (case n_statement b of
        (Some e, b) \<Rightarrow> (Inl e, b)
      | (None, b) \<Rightarrow>
          (Inr (if nb_seen b = [] then 0 else Max (snd ` set (nb_seen b))), b))"

definition q_prune_seen :: "int \<Rightarrow> nostr \<Rightarrow> string option \<times> nostr" where
  "q_prune_seen cutoff b =
     (case n_statement b of
        (Some e, b) \<Rightarrow> (Some e, b)
      | (None, b) \<Rightarrow> (None, b\<lparr>nb_seen := filter (\<lambda>r. \<not> snd r < cutoff) (nb_seen b)\<rparr>))"

definition q_upsert_seen :: "string \<Rightarrow> int \<Rightarrow> nostr \<Rightarrow> string option \<times> nostr" where
  "q_upsert_seen i t b =
     (case n_statement b of
        (Some e, b) \<Rightarrow> (Some e, b)
      | (None, b) \<Rightarrow>
          (None, b\<lparr>nb_seen :=
             (if i \<in> fst ` set (nb_seen b)
              then map (\<lambda>r. if fst r = i then (i, t) else r) (nb_seen b)
              else nb_seen b @ [(i, t)])\<rparr>))"

text \<open>\<open>Inr None\<close> is \<open>sql.ErrNoRows\<close>.\<close>

definition q_get_metadata :: "int \<Rightarrow> nostr \<Rightarrow> (string + (string \<times> int) option) \<times> nostr" where
  "q_get_metadata kind b =
     (case n_statement b of
        (Some e, b) \<Rightarrow> (Inl e, b)
      | (None, b) \<Rightarrow> (Inr (nb_meta b kind), b))"

definition q_upsert_metadata :: "int \<Rightarrow> string \<Rightarrow> int \<Rightarrow> nostr \<Rightarrow> string option \<times> nostr" where
  "q_upsert_metadata kind hash t b =
     (case n_statement b of
        (Some e, b) \<Rightarrow> (Some e, b)
      | (None, b) \<Rightarrow> (None, b\<lparr>nb_meta := (nb_meta b)(kind \<mapsto> (hash, t))\<rparr>))"

section \<open>Seen messages\<close>

definition nip59_safety_margin :: int where "nip59_safety_margin = 3 * 24 * 3600 * second"
definition seen_rumor_ttl :: int where "seen_rumor_ttl = 7 * 24 * 3600 * second"

definition subscription_since :: "nostr \<Rightarrow> int \<times> nostr" where
  "subscription_since b =
     (case n_now b of
        (now, b) \<Rightarrow>
          (case q_newest_seen b of
             (res, b) \<Rightarrow>
               (let newest = (case res of Inl e \<Rightarrow> now | Inr t \<Rightarrow> if 0 < t then t * second else now)
                in (max ((newest - nip59_safety_margin) div second) 0, b))))"

definition check_and_mark_seen :: "string \<Rightarrow> nostr \<Rightarrow> (string + bool) \<times> nostr" where
  "check_and_mark_seen i b =
     (case n_now b of
        (now, b) \<Rightarrow>
          (case q_insert_seen_if_new i (now div second) b of
             (Inl e, b) \<Rightarrow> (Inl e, b)
           | (Inr n, b) \<Rightarrow> (Inr (n = 0), b)))"

definition prune_stale_seen :: "int \<Rightarrow> nostr \<Rightarrow> nostr" where
  "prune_stale_seen max_age b =
     (case n_now b of (now, b) \<Rightarrow> snd (q_prune_seen ((now - max_age) div second) b))"

text \<open>True for a message that was not processed before; when the statement fails it is accepted.\<close>

definition dedup_rumor :: "string \<Rightarrow> nostr \<Rightarrow> bool \<times> nostr" where
  "dedup_rumor i b =
     (case check_and_mark_seen i b of
        (Inl e, b) \<Rightarrow> (True, b)
      | (Inr seen, b) \<Rightarrow> (\<not> seen, b))"

record legacy_entry =
  le_id :: string
  le_seen :: int

definition dec_legacy_entry :: "legacy_entry \<Rightarrow> json \<Rightarrow> legacy_entry option" where
  "dec_legacy_entry = dec_struct (\<lambda>fs old.
     (case dec_field ''id'' dec_string (le_id old) fs of
        None \<Rightarrow> None
      | Some i \<Rightarrow>
          (case dec_field ''seen'' dec_int64 (le_seen old) fs of
             None \<Rightarrow> None
           | Some t \<Rightarrow> Some \<lparr>le_id = i, le_seen = t\<rparr>)))"

definition legacy_entries :: "nlib \<Rightarrow> string \<Rightarrow> legacy_entry list option" where
  "legacy_entries l data =
     Option.bind (parse_json l data) (dec_slice dec_legacy_entry \<lparr>le_id = [], le_seen = 0\<rparr>)"

fun import_entries :: "legacy_entry list \<Rightarrow> nostr \<Rightarrow> nat \<times> nostr" where
  "import_entries [] b = (0, b)"
| "import_entries (e # es) b =
     (case q_upsert_seen (le_id e) (le_seen e) b of
        (Some err, b) \<Rightarrow> import_entries es b
      | (None, b) \<Rightarrow> (case import_entries es b of (n, b) \<Rightarrow> (Suc n, b)))"

definition on_files :: "(nfs \<Rightarrow> 'a \<times> nfs) \<Rightarrow> nostr \<Rightarrow> 'a \<times> nostr" where
  "on_files f b = (case f (nb_fs b) of (x, w) \<Rightarrow> (x, b\<lparr>nb_fs := w\<rparr>))"

definition migrate_legacy :: "nlib \<Rightarrow> string \<Rightarrow> nostr \<Rightarrow> nostr" where
  "migrate_legacy l base_dir b =
     (if base_dir = [] then b
      else let path = path_join [base_dir, ''.nostr_seen_rumors'']
      in case on_files (fs_read path) b of
           (Inl e, b) \<Rightarrow> b
         | (Inr data, b) \<Rightarrow>
             (case legacy_entries l data of
                None \<Rightarrow> b
              | Some es \<Rightarrow>
                  (if es = [] then b\<lparr>nb_fs := fs_remove path (nb_fs b)\<rparr>
                   else case import_entries es b of
                          (n, b) \<Rightarrow>
                            (if n < length es then b else b\<lparr>nb_fs := fs_remove path (nb_fs b)\<rparr>))))"

section \<open>Messages out\<close>

definition build_rumor ::
    "nlib \<Rightarrow> nat \<Rightarrow> string \<Rightarrow> string \<Rightarrow> tags \<Rightarrow> nostr \<Rightarrow> (string + rumor) \<times> nostr" where
  "build_rumor l kind txt recipient extra b =
     (case get_public_key l of
        Inl e \<Rightarrow> (Inl (''getting public key: '' @ e), b)
      | Inr pk \<Rightarrow>
          (case n_now b of
             (now, b) \<Rightarrow>
               (let r = \<lparr>ru_id = [], ru_pk = pk, ru_kind = kind, ru_content = txt,
                      ru_tags = [''p'', recipient] # extra, ru_created = now div second\<rparr>
                in (Inr (r\<lparr>ru_id := event_id l r\<rparr>), b))))"

definition recipient_relays :: "nlib \<Rightarrow> nostr_config \<Rightarrow> string \<Rightarrow> string list" where
  "recipient_relays l c recipient =
     (let relays = dm_relay_list l recipient in if relays = [] then nc_dm_relays c else relays)"

definition publish_gift_wraps ::
    "nlib \<Rightarrow> nostr_config \<Rightarrow> string \<Rightarrow> string \<Rightarrow> string \<Rightarrow> nostr \<Rightarrow> nostr" where
  "publish_gift_wraps l c to_us to_them recipient b =
     n_enqueue to_them (recipient_relays l c recipient) (n_enqueue to_us (nc_dm_relays c) b)"

definition wrap_and_publish ::
    "nlib \<Rightarrow> nostr_config \<Rightarrow> rumor \<Rightarrow> string \<Rightarrow> nostr \<Rightarrow> bool \<times> nostr" where
  "wrap_and_publish l c r recipient b =
     (case gift_wrap l r (ru_pk r) of
        Inl e \<Rightarrow> (False, b)
      | Inr to_us \<Rightarrow>
          (case gift_wrap l r recipient of
             Inl e \<Rightarrow> (False, b)
           | Inr to_them \<Rightarrow> (True, publish_gift_wraps l c to_us to_them recipient b)))"

definition kind_direct_message :: nat where "kind_direct_message = 14"
definition kind_file_message :: nat where "kind_file_message = 15"
definition kind_reaction :: nat where "kind_reaction = 7"
definition kind_dm_relay_list :: nat where "kind_dm_relay_list = 10050"

definition send_dm ::
    "nlib \<Rightarrow> nostr_config \<Rightarrow> string \<Rightarrow> string \<Rightarrow> tags \<Rightarrow> nostr \<Rightarrow> string \<times> nostr" where
  "send_dm l c recipient txt extra b =
     (case build_rumor l kind_direct_message txt recipient extra b of
        (Inl e, b) \<Rightarrow> ([], b)
      | (Inr r, b) \<Rightarrow>
          (case wrap_and_publish l c r recipient b of
             (ok, b) \<Rightarrow> (if ok then ru_id r else [], b)))"

definition send_file_message ::
    "nlib \<Rightarrow> nostr_config \<Rightarrow> string \<Rightarrow> string \<Rightarrow> tags \<Rightarrow> nostr \<Rightarrow> nostr" where
  "send_file_message l c recipient url extra b =
     (case build_rumor l kind_file_message url recipient extra b of
        (Inl e, b) \<Rightarrow> b
      | (Inr r, b) \<Rightarrow> snd (wrap_and_publish l c r recipient b))"

definition nostr_send_message ::
    "nlib \<Rightarrow> nostr_config \<Rightarrow> string \<Rightarrow> string \<Rightarrow> string \<Rightarrow> nostr \<Rightarrow> string \<times> nostr" where
  "nostr_send_message l c conv txt reply b =
     (case pk_from_hex l conv of
        Inl e \<Rightarrow> ([], b)
      | Inr recipient \<Rightarrow>
          (if \<not> nb_running b then ([], b)
           else send_dm l c recipient txt (if reply \<noteq> [] then [[''e'', reply]] else []) b))"

text \<open>\<open>rk\<close>, \<open>rn\<close>: the random key and nonce; the result is the error, if any.\<close>

definition nostr_send_file ::
    "nlib \<Rightarrow> nostr_config \<Rightarrow> string + string \<Rightarrow> string + string \<Rightarrow> string \<Rightarrow> string \<Rightarrow> nostr \<Rightarrow>
     string option \<times> nostr" where
  "nostr_send_file l c rk rn conv path b =
     (case n_now b of
        (now, b) \<Rightarrow>
          (case on_files (upload_to_blossom (nl_files l) (nc_blossom c)
                  (\<lambda>ts. case sign_event l 24242 [] ts (now div second) of Inl e \<Rightarrow> Some e | Inr _ \<Rightarrow> None)
                  now rk rn path) b of
             (Inl e, b) \<Rightarrow> (Some e, b)
           | (Inr u, b) \<Rightarrow>
               (case pk_from_hex l conv of
                  Inl e \<Rightarrow> (Some (''invalid recipient pubkey: '' @ e), b)
                | Inr recipient \<Rightarrow>
                    (if \<not> nb_running b then (Some ''SendFile called before Run()'', b)
                     else (None, send_file_message l c recipient (bu_url u) (upload_tags u) b)))))"

text \<open>The thumbs-up, in UTF-8.\<close>

definition thumbs_up :: string where
  "thumbs_up = [CHR 0xF0, CHR 0x9F, CHR 0x91, CHR 0x8D]"

definition send_reaction ::
    "nlib \<Rightarrow> nostr_config \<Rightarrow> string \<Rightarrow> string \<Rightarrow> string \<Rightarrow> nat \<Rightarrow> nostr \<Rightarrow> nostr" where
  "send_reaction l c own rid recipient kind b =
     (case n_now b of
        (now, b) \<Rightarrow>
          (let r = \<lparr>ru_id = [], ru_pk = own, ru_kind = kind_reaction, ru_content = thumbs_up,
                 ru_tags = [[''e'', rid], [''p'', recipient], [''k'', dec_nat kind]],
                 ru_created = now div second\<rparr>
           in case gift_wrap l (r\<lparr>ru_id := event_id l r\<rparr>) recipient of
                Inl e \<Rightarrow> b
              | Inr evt \<Rightarrow> n_enqueue evt (recipient_relays l c recipient) b))"

section \<open>Metadata\<close>

definition metadata_refresh_interval :: int where "metadata_refresh_interval = 24 * 3600 * second"

definition hash_content :: "flib \<Rightarrow> string \<Rightarrow> string list \<Rightarrow> string" where
  "hash_content l txt relays =
     hex_encode (sha256 l (txt @ [CHR 0x00] @ concat (map (\<lambda>r. r @ [CHR 0x00]) relays)))"

definition metadata_is_fresh :: "int \<Rightarrow> string \<Rightarrow> nostr \<Rightarrow> bool \<times> nostr" where
  "metadata_is_fresh kind hash b =
     (case q_get_metadata kind b of
        (Inl e, b) \<Rightarrow> (False, b)
      | (Inr None, b) \<Rightarrow> (False, b)
      | (Inr (Some (h, t)), b) \<Rightarrow>
          (if h \<noteq> hash then (False, b)
           else case n_now b of
                  (now, b) \<Rightarrow> (now - t * second < metadata_refresh_interval, b)))"

definition mark_metadata_published :: "int \<Rightarrow> string \<Rightarrow> nostr \<Rightarrow> nostr" where
  "mark_metadata_published kind hash b =
     (case n_now b of (now, b) \<Rightarrow> snd (q_upsert_metadata kind hash (now div second) b))"

text \<open>The members in the order in which a Go map is marshalled: by key.\<close>

definition build_profile_meta :: "profile_config \<Rightarrow> (string \<times> string) list" where
  "build_profile_meta p =
     filter (\<lambda>(k, v). v \<noteq> [])
       [(''about'', pc_about p), (''display_name'', pc_display_name p), (''name'', pc_name p),
        (''picture'', pc_picture p)]"

text \<open>Sign, enqueue, remember: the end of both metadata publications.\<close>

definition publish_metadata ::
    "nlib \<Rightarrow> nostr_config \<Rightarrow> nat \<Rightarrow> string \<Rightarrow> tags \<Rightarrow> string \<Rightarrow> nostr \<Rightarrow> nostr" where
  "publish_metadata l c kind txt ts hash b =
     (case metadata_is_fresh (int kind) hash b of
        (True, b) \<Rightarrow> b
      | (False, b) \<Rightarrow>
          (case n_now b of
             (now, b) \<Rightarrow>
               (case sign_event l kind txt ts (now div second) of
                  Inl e \<Rightarrow> b
                | Inr evt \<Rightarrow> mark_metadata_published (int kind) hash (n_enqueue evt (nc_relays c) b))))"

definition publish_profile :: "nlib \<Rightarrow> nostr_config \<Rightarrow> nostr \<Rightarrow> nostr" where
  "publish_profile l c b =
     (let p = nc_profile c
      in if pc_name p = [] \<and> pc_display_name p = [] \<and> pc_about p = [] \<and> pc_picture p = [] then b
         else let txt = marshal_map l (build_profile_meta p)
         in publish_metadata l c 0 txt [] (hash_content (nl_files l) txt (nc_relays c)) b)"

definition publish_dm_relay_list :: "nlib \<Rightarrow> nostr_config \<Rightarrow> nostr \<Rightarrow> nostr" where
  "publish_dm_relay_list l c b =
     publish_metadata l c kind_dm_relay_list [] (map (\<lambda>r. [''relay'', r]) (nc_dm_relays c))
       (hash_content (nl_files l) (join [CHR 0x0A] (nc_dm_relays c)) (nc_relays c)) b"

section \<open>Relays to listen on\<close>

text \<open>The map \<open>seen\<close> holds the relays without trailing slashes.\<close>

definition add_relay :: "string \<Rightarrow> string set \<times> string list \<Rightarrow> string set \<times> string list" where
  "add_relay r sr =
     (case sr of (seen, relays) \<Rightarrow>
        (let n = trim_right r ''/''
         in if n \<in> seen then (seen, relays) else (insert n seen, relays @ [r])))"

definition add_relay_tag :: "string list \<Rightarrow> string set \<times> string list \<Rightarrow> string set \<times> string list" where
  "add_relay_tag tag sr = (if 2 \<le> length tag \<and> tag ! 0 = ''relay'' then add_relay (tag ! 1) sr else sr)"

definition discover_user :: "nlib \<Rightarrow> string \<Rightarrow> string set \<times> string list \<Rightarrow> string set \<times> string list" where
  "discover_user l user sr =
     (case pk_from_hex l user of
        Inl e \<Rightarrow> sr
      | Inr pk \<Rightarrow> (case dm_list_event l pk of None \<Rightarrow> sr | Some ts \<Rightarrow> fold add_relay_tag ts sr))"

definition discover_user_dm_relays ::
    "nlib \<Rightarrow> string list \<Rightarrow> string set \<times> string list \<Rightarrow> string set \<times> string list" where
  "discover_user_dm_relays l users sr = (if users = [] then sr else fold (discover_user l) users sr)"

definition discover_subscription_relays :: "nlib \<Rightarrow> nostr_config \<Rightarrow> string list" where
  "discover_subscription_relays l c =
     snd (discover_user_dm_relays l (nc_allowed c)
       (fold add_relay (nc_relays c @ nc_dm_relays c) ({}, [])))"

section \<open>Messages in\<close>

definition rumor_reply_target :: "rumor \<Rightarrow> string" where
  "rumor_reply_target r = tag_value (ru_tags r) ''e''"

definition rumor_text ::
    "nlib \<Rightarrow> nostr_config \<Rightarrow> rumor \<Rightarrow> string \<Rightarrow> nostr \<Rightarrow> string option \<times> nostr" where
  "rumor_text l c r sender b =
     (if ru_kind r = kind_file_message
      then on_files (handle_file_message (nl_files l) (nc_base_dir c) (ru_content r) (ru_tags r) sender) b
      else on_files (rewrite_media_urls (nl_files l) (nc_base_dir c) sender (ru_content r)) b)"

text \<open>
  The reaction runs in a goroutine of its own; \<open>late\<close> says whether it gets to its work only after the
  handler has returned. The result is \<open>None\<close> when handling the message panics.
\<close>

definition dispatch_rumor ::
    "nlib \<Rightarrow> nostr_config \<Rightarrow> string \<Rightarrow> bool \<Rightarrow> rumor \<Rightarrow> nostr \<Rightarrow> nostr option" where
  "dispatch_rumor l c own late r b =
     (let sender = ru_pk r;
          react = send_reaction l c own (ru_id r) sender (ru_kind r);
          b = (if late then b else react b)
      in case rumor_text l c r sender b of
           (None, b) \<Rightarrow> None
         | (Some txt, b) \<Rightarrow>
             (let b = b\<lparr>nb_handled := nb_handled b @ [\<lparr>conversation_id = sender, sender_id = sender,
                    msg_text = txt, message_id = ru_id r, reply_to_id = rumor_reply_target r\<rparr>]\<rparr>
              in Some (if late then react b else b)))"

definition process_gift_wrap ::
    "nlib \<Rightarrow> nostr_config \<Rightarrow> string \<Rightarrow> bool \<Rightarrow> string \<Rightarrow> nostr \<Rightarrow> nostr option" where
  "process_gift_wrap l c own late evt b =
     (case gift_unwrap l evt of
        Inl e \<Rightarrow> Some b
      | Inr r \<Rightarrow>
          (case dedup_rumor (ru_id r) b of
             (fresh, b) \<Rightarrow>
               (if \<not> fresh then Some b
                else if ru_pk r = own \<or> \<not> is_allowed (nc_allowed c) (ru_pk r) then Some b
                else case claim (ru_pk r) (nb_active b) of
                       (ok, a) \<Rightarrow>
                         (if \<not> ok then Some (b\<lparr>nb_active := a\<rparr>)
                          else dispatch_rumor l c own late r (b\<lparr>nb_active := a\<rparr>)))))"

definition nostr_reset_conversation :: "string \<Rightarrow> nostr \<Rightarrow> nostr" where
  "nostr_reset_conversation conv b = b\<lparr>nb_active := reset_conv conv (nb_active b)\<rparr>"

section \<open>Start\<close>

definition new_nostr_backend ::
    "nlib \<Rightarrow> nostr_config \<Rightarrow> string option \<Rightarrow> (string \<Rightarrow> bool) \<Rightarrow> nostr \<Rightarrow>
     (string + string \<times> nostr_config) \<times> nostr" where
  "new_nostr_backend l c open_error event_ok b =
     (case load_keys l (nc_private_key c) of
        Inl e \<Rightarrow> (Inl (''nostr: failed to load keys: '' @ e), b)
      | Inr (sk, pk) \<Rightarrow>
          (let c = (if nc_dm_relays c = [] then c\<lparr>nc_dm_relays := nc_relays c\<rparr> else c)
           in case open_error of
                Some e \<Rightarrow> (Inl (''nostr: opening db: '' @ e), b)
              | None \<Rightarrow>
                  (let b = migrate_legacy l (nc_base_dir c)
                         (b\<lparr>nb_active := [], nb_running := False, nb_handled := []\<rparr>)
                   in case new_publish_queue event_ok (nb_queue b) of
                        (Some e, q) \<Rightarrow> (Inl (''loading publish queue: '' @ e), b\<lparr>nb_queue := q\<rparr>)
                      | (None, q) \<Rightarrow> (Inr (pk, c), b\<lparr>nb_queue := q\<rparr>))))"

text \<open>\<open>Run\<close> up to its event loop: the relays and the time of the subscription.\<close>

definition start_run :: "nlib \<Rightarrow> nostr_config \<Rightarrow> nostr \<Rightarrow> (string list \<times> int) \<times> nostr" where
  "start_run l c b =
     (let b = b\<lparr>nb_running := True\<rparr>;
          b = (if q_len (nb_queue b) \<noteq> 0 then b\<lparr>nb_queue := q_signal (nb_queue b)\<rparr> else b);
          b = publish_dm_relay_list l c (publish_profile l c b);
          relays = discover_subscription_relays l c
      in case subscription_since b of (since, b) \<Rightarrow> ((relays, since), b))"

text \<open>The steps of the running transport.\<close>

datatype nostr_op = Arrives bool string | PruneTick | Resets string | Sends string string string

fun nostr_step :: "nlib \<Rightarrow> nostr_config \<Rightarrow> string \<Rightarrow> nostr_op \<Rightarrow> nostr \<Rightarrow> nostr option" where
  "nostr_step l c own (Arrives late evt) b = process_gift_wrap l c own late evt b"
| "nostr_step l c own PruneTick b = Some (prune_stale_seen seen_rumor_ttl b)"
| "nostr_step l c own (Resets conv) b = Some (nostr_reset_conversation conv b)"
| "nostr_step l c own (Sends conv txt reply) b = Some (snd (nostr_send_message l c conv txt reply b))"

fun nostr_run :: "nlib \<Rightarrow> nostr_config \<Rightarrow> string \<Rightarrow> nostr_op list \<Rightarrow> nostr \<Rightarrow> nostr option" where
  "nostr_run l c own [] b = Some b"
| "nostr_run l c own (s # ss) b =
     (case nostr_step l c own s b of None \<Rightarrow> None | Some b \<Rightarrow> nostr_run l c own ss b)"

end
