(* ===== verification/Nostr_Safety.thy ===== *)
theory Nostr_Safety
  imports Nostr
begin

text \<open>
  What the Nostr transport guarantees: messages are handled at most once and only from the user who
  holds the conversation, replies reach the publish queue twice, metadata is not republished
  needlessly, and the relays subscribed to are distinct.
\<close>

section \<open>An interface: the set of seen messages\<close>

text \<open>
  \<open>mark\<close> remembers an id and says whether it was new. \<open>safe\<close> is the state in which its promise
  holds (for the table: its statements succeed).
\<close>

locale seen_store =
  fixes mark :: "string \<Rightarrow> 's \<Rightarrow> bool \<times> 's"
    and known :: "'s \<Rightarrow> string set"
    and safe :: "'s \<Rightarrow> bool"
  assumes mark_new: "safe s \<Longrightarrow> mark i s = (new, s') \<Longrightarrow> new \<longleftrightarrow> i \<notin> known s"
    and mark_known: "safe s \<Longrightarrow> mark i s = (new, s') \<Longrightarrow> known s' = insert i (known s)"
    and mark_safe: "safe s \<Longrightarrow> mark i s = (new, s') \<Longrightarrow> safe s'"
begin

lemma replay_dropped: "safe s \<Longrightarrow> mark i s = (n1, s1) \<Longrightarrow> mark i s1 = (n2, s2) \<Longrightarrow> \<not> n2"
  using mark_new mark_known mark_safe by blast

lemma mark_mono: "safe s \<Longrightarrow> mark i s = (new, s') \<Longrightarrow> known s \<subseteq> known s'"
  using mark_known by blast

end

section \<open>Frames\<close>

definition statements_ok :: "nostr \<Rightarrow> bool" where
  "statements_ok b \<longleftrightarrow> q_faults (nb_queue b) = []"

text \<open>Steps that leave the table of seen messages alone.\<close>

definition quiet_step :: "nostr \<Rightarrow> nostr \<Rightarrow> bool" where
  "quiet_step b b' \<longleftrightarrow> (statements_ok b \<longrightarrow> statements_ok b') \<and> nb_seen b' = nb_seen b \<and>
     q_clock (nb_queue b) \<le> q_clock (nb_queue b')"

lemma quiet_refl [simp]: "quiet_step b b"
  by (simp add: quiet_step_def)

lemma quiet_trans: "quiet_step b1 b2 \<Longrightarrow> quiet_step b2 b3 \<Longrightarrow> quiet_step b1 b3"
  by (auto simp: quiet_step_def)

lemma read_clock_mono: "read_clock q = (t, q') \<Longrightarrow> q_clock q \<le> t \<and> q_clock q' = t \<and> q_faults q' = q_faults q"
  by (auto simp: read_clock_def split: list.splits)

lemma n_now_run:
  "n_now b = (t, b') \<Longrightarrow> quiet_step b b' \<and> q_clock (nb_queue b) \<le> t \<and> q_clock (nb_queue b') = t \<and>
     nb_handled b' = nb_handled b \<and> nb_active b' = nb_active b \<and> nb_meta b' = nb_meta b \<and>
     nb_running b' = nb_running b \<and> q_items (nb_queue b') = q_items (nb_queue b)"
  by (auto simp: n_now_def quiet_step_def statements_ok_def split: prod.splits
      dest: read_clock_mono read_clock_frame)

lemma statement_run:
  "n_statement b = (f, b') \<Longrightarrow> quiet_step b b' \<and> (statements_ok b \<longrightarrow> f = None) \<and>
     q_clock (nb_queue b') = q_clock (nb_queue b) \<and> nb_handled b' = nb_handled b \<and>
     nb_active b' = nb_active b \<and> nb_meta b' = nb_meta b \<and> nb_running b' = nb_running b \<and>
     q_items (nb_queue b') = q_items (nb_queue b)"
  by (cases "q_faults (nb_queue b)")
     (auto simp: n_statement_def q_statement_def quiet_step_def statements_ok_def split: prod.splits)

lemma enqueue_clock:
  "q_clock q \<le> q_clock (q_enqueue e us q) \<and> (q_faults q = [] \<longrightarrow> q_faults (q_enqueue e us q) = [])"
proof (cases "us = []")
  case False
  obtain t q1 where c: "read_clock q = (t, q1)" by (cases "read_clock q")
  obtain f q2 where s: "q_statement q1 = (f, q2)" by (cases "q_statement q1")
  have "q_clock q2 = q_clock q1" "q_faults q1 = [] \<longrightarrow> q_faults q2 = []"
    using s by (auto simp: q_statement_def split: prod.splits)
  with read_clock_mono [OF c] c s False show ?thesis
    by (cases f) (simp_all add: q_enqueue_def insert_item_def q_insert_publish_item_def q_signal_def)
qed (simp add: q_enqueue_def)

lemma n_enqueue_quiet [simp]: "quiet_step b (n_enqueue e us b)"
  using enqueue_clock [of "nb_queue b" e us]
  by (simp add: n_enqueue_def quiet_step_def statements_ok_def)

lemma n_enqueue_frame [simp]:
  "nb_handled (n_enqueue e us b) = nb_handled b" "nb_active (n_enqueue e us b) = nb_active b"
  "nb_meta (n_enqueue e us b) = nb_meta b" "nb_running (n_enqueue e us b) = nb_running b"
  by (simp_all add: n_enqueue_def)

lemma on_files_run:
  "on_files f b = (x, b') \<Longrightarrow> quiet_step b b' \<and> nb_handled b' = nb_handled b \<and> nb_active b' = nb_active b"
  by (auto simp: on_files_def quiet_step_def statements_ok_def split: prod.splits)

lemma send_reaction_run:
  "quiet_step b (send_reaction l c own i p k b) \<and> nb_handled (send_reaction l c own i p k b) = nb_handled b \<and>
   nb_active (send_reaction l c own i p k b) = nb_active b"
proof -
  obtain t b1 where n: "n_now b = (t, b1)" by (cases "n_now b")
  from n_now_run [OF n] show ?thesis
    by (auto simp: send_reaction_def n Let_def split: sum.splits
        intro: quiet_trans [OF _ n_enqueue_quiet])
qed

lemma send_message_run:
  "quiet_step b (snd (nostr_send_message l c conv txt reply b)) \<and>
   nb_handled (snd (nostr_send_message l c conv txt reply b)) = nb_handled b \<and>
   nb_active (snd (nostr_send_message l c conv txt reply b)) = nb_active b"
proof -
  obtain t b1 where n: "n_now b = (t, b1)" by (cases "n_now b")
  from n_now_run [OF n] show ?thesis
    by (auto simp: nostr_send_message_def send_dm_def build_rumor_def n Let_def wrap_and_publish_def
        publish_gift_wraps_def split: sum.splits
        intro: quiet_trans [OF _ quiet_trans [OF n_enqueue_quiet n_enqueue_quiet]])
qed

lemma dispatch_run:
  assumes "dispatch_rumor l c own late r b = Some b'"
  shows "quiet_step b b' \<and> nb_active b' = nb_active b \<and>
    (\<exists>m. nb_handled b' = nb_handled b @ [m] \<and> message_id m = ru_id r \<and> sender_id m = ru_pk r)"
proof -
  let ?react = "send_reaction l c own (ru_id r) (ru_pk r) (ru_kind r)"
  let ?b = "if late then b else ?react b"
  have b: "quiet_step b ?b \<and> nb_handled ?b = nb_handled b \<and> nb_active ?b = nb_active b"
    using send_reaction_run [of b l c own "ru_id r" "ru_pk r" "ru_kind r"] by simp
  obtain res b1 where t: "rumor_text l c r (ru_pk r) ?b = (res, b1)" by (cases "rumor_text l c r (ru_pk r) ?b")
  then have b1: "quiet_step ?b b1 \<and> nb_handled b1 = nb_handled ?b \<and> nb_active b1 = nb_active ?b"
    by (auto simp: rumor_text_def split: if_splits dest: on_files_run)
  obtain x where x: "res = Some x" using assms t by (cases res) (simp_all add: dispatch_rumor_def)
  let ?m = "\<lparr>conversation_id = ru_pk r, sender_id = ru_pk r, msg_text = x, message_id = ru_id r,
    reply_to_id = rumor_reply_target r\<rparr>"
  let ?b2 = "b1\<lparr>nb_handled := nb_handled b1 @ [?m]\<rparr>"
  have b2: "quiet_step b ?b2 \<and> nb_handled ?b2 = nb_handled b @ [?m] \<and> nb_active ?b2 = nb_active b"
    using b b1 by (auto simp: quiet_step_def statements_ok_def)
  have "b' = (if late then ?react ?b2 else ?b2)"
    using assms t x by (simp add: dispatch_rumor_def Let_def)
  with b2 send_reaction_run [of ?b2 l c own "ru_id r" "ru_pk r" "ru_kind r"] show ?thesis
    by (auto intro: quiet_trans)
qed

section \<open>The table of seen messages\<close>

lemma dedup_run:
  assumes "dedup_rumor i b = (fresh, b')"
  shows "q_clock (nb_queue b) \<le> q_clock (nb_queue b') \<and> nb_handled b' = nb_handled b \<and>
    nb_active b' = nb_active b \<and> set (nb_seen b) \<subseteq> set (nb_seen b') \<and>
    (statements_ok b \<longrightarrow> statements_ok b' \<and> (fresh \<longleftrightarrow> i \<notin> fst ` set (nb_seen b)) \<and>
       fst ` set (nb_seen b') = insert i (fst ` set (nb_seen b)) \<and>
       (fresh \<longrightarrow> (\<exists>t \<ge> q_clock (nb_queue b) div second. (i, t) \<in> set (nb_seen b'))))"
proof -
  obtain t b1 where n: "n_now b = (t, b1)" by (cases "n_now b")
  obtain f b2 where s: "n_statement b1 = (f, b2)" by (cases "n_statement b1")
  have le: "q_clock (nb_queue b) div second \<le> t div second"
    using n_now_run [OF n] by (simp add: zdiv_mono1 second_def)
  show ?thesis
    using assms n_now_run [OF n] statement_run [OF s] le
    by (cases f)
       (auto simp: dedup_rumor_def check_and_mark_seen_def q_insert_seen_if_new_def n s
         quiet_step_def statements_ok_def split: if_splits)
qed

interpretation nostr_seen: seen_store dedup_rumor "\<lambda>b. fst ` set (nb_seen b)" statements_ok
  by unfold_locales (use dedup_run in blast)+

lemma prune_run:
  "q_clock (nb_queue b) \<le> q_clock (nb_queue (prune_stale_seen age b)) \<and>
   nb_handled (prune_stale_seen age b) = nb_handled b \<and>
   (statements_ok b \<longrightarrow> statements_ok (prune_stale_seen age b)) \<and>
   (\<forall>r \<in> set (nb_seen b). q_clock (nb_queue (prune_stale_seen age b)) - age \<le> snd r * second \<longrightarrow>
      r \<in> set (nb_seen (prune_stale_seen age b)))"
proof -
  obtain t b1 where n: "n_now b = (t, b1)" by (cases "n_now b")
  obtain f b2 where s: "n_statement b1 = (f, b2)" by (cases "n_statement b1")
  have "(t - age) div second \<le> k" if "t - age \<le> k * second" for k
    using zdiv_mono1 [OF that, of second] by (simp add: second_def)
  then show ?thesis
    using n_now_run [OF n] statement_run [OF s]
    by (cases f) (auto simp: prune_stale_seen_def q_prune_seen_def n s quiet_step_def statements_ok_def
        not_less)
qed

section \<open>Handled once\<close>

text \<open>What was handled since \<open>b0\<close>: no id twice, each still in the table with a time of this run.\<close>

definition handled_since :: "string \<Rightarrow> nostr_config \<Rightarrow> nostr \<Rightarrow> nostr \<Rightarrow> bool" where
  "handled_since own c b0 b \<longleftrightarrow> statements_ok b \<and> q_clock (nb_queue b0) \<le> q_clock (nb_queue b) \<and>
     (\<exists>ms. nb_handled b = nb_handled b0 @ ms \<and> distinct (map message_id ms) \<and>
        (\<forall>m \<in> set ms. sender_id m \<noteq> own \<and> is_allowed (nc_allowed c) (sender_id m) \<and>
           (\<exists>t \<ge> q_clock (nb_queue b0) div second. (message_id m, t) \<in> set (nb_seen b))))"

lemma handled_since_mono:
  assumes "handled_since own c b0 b" "statements_ok b'" "q_clock (nb_queue b) \<le> q_clock (nb_queue b')"
    "nb_handled b' = nb_handled b"
    "\<And>i t. q_clock (nb_queue b0) div second \<le> t \<Longrightarrow> (i, t) \<in> set (nb_seen b) \<Longrightarrow> (i, t) \<in> set (nb_seen b')"
  shows "handled_since own c b0 b'"
proof -
  from assms(1) obtain ms where ms: "nb_handled b = nb_handled b0 @ ms" "distinct (map message_id ms)"
    "\<forall>m \<in> set ms. sender_id m \<noteq> own \<and> is_allowed (nc_allowed c) (sender_id m) \<and>
       (\<exists>t \<ge> q_clock (nb_queue b0) div second. (message_id m, t) \<in> set (nb_seen b))"
    by (auto simp: handled_since_def)
  then have "\<forall>m \<in> set ms. sender_id m \<noteq> own \<and> is_allowed (nc_allowed c) (sender_id m) \<and>
       (\<exists>t \<ge> q_clock (nb_queue b0) div second. (message_id m, t) \<in> set (nb_seen b'))"
    using assms(5) by blast
  with ms assms show ?thesis by (auto simp: handled_since_def)
qed

lemma process_handled:
  assumes h: "handled_since own c b0 b" and p: "process_gift_wrap l c own late evt b = Some b'"
  shows "handled_since own c b0 b'"
proof (cases "gift_unwrap l evt")
  case (Inl e)
  with h p show ?thesis by (simp add: process_gift_wrap_def)
next
  case (Inr r)
  obtain fresh b1 where d: "dedup_rumor (ru_id r) b = (fresh, b1)" by (cases "dedup_rumor (ru_id r) b")
  have ok: "statements_ok b" using h by (simp add: handled_since_def)
  note run = dedup_run [OF d]
  have h1: "handled_since own c b0 b1"
    by (rule handled_since_mono [OF h]) (use run ok in auto)
  obtain ok2 a where cl: "claim (ru_pk r) (nb_active b1) = (ok2, a)"
    by (cases "claim (ru_pk r) (nb_active b1)")
  have h2: "handled_since own c b0 (b1\<lparr>nb_active := a\<rparr>)"
    using h1 by (simp add: handled_since_def statements_ok_def)
  show ?thesis
  proof (cases "fresh \<and> ru_pk r \<noteq> own \<and> is_allowed (nc_allowed c) (ru_pk r) \<and> ok2")
    case False
    with p Inr d cl h1 h2 show ?thesis
      by (auto simp: process_gift_wrap_def split: if_splits)
  next
    case True
    with p Inr d cl have di: "dispatch_rumor l c own late r (b1\<lparr>nb_active := a\<rparr>) = Some b'"
      by (simp add: process_gift_wrap_def)
    from dispatch_run [OF di] obtain m where q: "quiet_step (b1\<lparr>nb_active := a\<rparr>) b'"
      and m: "nb_handled b' = nb_handled b1 @ [m]" "message_id m = ru_id r" "sender_id m = ru_pk r" by auto
    from h obtain ms where ms: "nb_handled b = nb_handled b0 @ ms" "distinct (map message_id ms)"
      "\<forall>m \<in> set ms. sender_id m \<noteq> own \<and> is_allowed (nc_allowed c) (sender_id m) \<and>
         (\<exists>t \<ge> q_clock (nb_queue b0) div second. (message_id m, t) \<in> set (nb_seen b))"
      by (auto simp: handled_since_def)
    have new: "ru_id r \<notin> message_id ` set ms"
    proof
      assume "ru_id r \<in> message_id ` set ms"
      then obtain m t where "m \<in> set ms" "(ru_id r, t) \<in> set (nb_seen b)" using ms(3) by force
      then have "ru_id r \<in> fst ` set (nb_seen b)" by (auto intro: image_eqI [of _ fst "(ru_id r, t)"])
      with run ok True show False by blast
    qed
    obtain t where t: "q_clock (nb_queue b) div second \<le> t" "(ru_id r, t) \<in> set (nb_seen b1)"
      using run ok True by blast
    have t0: "q_clock (nb_queue b0) div second \<le> t"
      using t(1) h zdiv_mono1 [of "q_clock (nb_queue b0)" "q_clock (nb_queue b)" second]
      by (auto simp: handled_since_def second_def)
    have seen: "nb_seen b' = nb_seen b1" "statements_ok b'"
      "q_clock (nb_queue b0) \<le> q_clock (nb_queue b')"
      using q run ok h by (auto simp: quiet_step_def statements_ok_def handled_since_def)
    have grow: "set (nb_seen b) \<subseteq> set (nb_seen b')" using run seen(1) by simp
    have old: "\<forall>m \<in> set ms. sender_id m \<noteq> own \<and> is_allowed (nc_allowed c) (sender_id m) \<and>
         (\<exists>t \<ge> q_clock (nb_queue b0) div second. (message_id m, t) \<in> set (nb_seen b'))"
      using ms(3) grow by blast
    have all: "nb_handled b' = nb_handled b0 @ (ms @ [m])" using m(1) ms(1) run by simp
    have dist: "distinct (map message_id (ms @ [m]))" using ms(2) new m(2) by simp
    have snd_ok: "sender_id m \<noteq> own \<and> is_allowed (nc_allowed c) (sender_id m)" using m(3) True by simp
    have mark: "\<exists>t \<ge> q_clock (nb_queue b0) div second. (message_id m, t) \<in> set (nb_seen b')"
      using t0 t(2) m(2) seen(1) by auto
    have every: "\<forall>m \<in> set (ms @ [m]). sender_id m \<noteq> own \<and> is_allowed (nc_allowed c) (sender_id m) \<and>
         (\<exists>t \<ge> q_clock (nb_queue b0) div second. (message_id m, t) \<in> set (nb_seen b'))"
      using old snd_ok mark by simp
    show ?thesis
      unfolding handled_since_def using seen(2,3) all dist every by blast
  qed
qed

lemma step_clock:
  "nostr_step l c own s b = Some b' \<Longrightarrow> q_clock (nb_queue b) \<le> q_clock (nb_queue b')"
proof (cases s)
  case (Arrives late evt)
  show "nostr_step l c own s b = Some b' \<Longrightarrow> ?thesis"
  proof (cases "gift_unwrap l evt")
    case (Inr r)
    obtain fresh b1 where d: "dedup_rumor (ru_id r) b = (fresh, b1)" by (cases "dedup_rumor (ru_id r) b")
    show "nostr_step l c own s b = Some b' \<Longrightarrow> ?thesis"
      using Arrives Inr d dedup_run [OF d]
      by (auto simp: process_gift_wrap_def quiet_step_def split: if_splits prod.splits
          dest!: dispatch_run)
  qed (simp add: Arrives process_gift_wrap_def)
qed (use send_message_run prune_run in \<open>auto simp: nostr_reset_conversation_def quiet_step_def\<close>)

lemma run_clock: "nostr_run l c own ss b = Some b' \<Longrightarrow> q_clock (nb_queue b) \<le> q_clock (nb_queue b')"
  by (induction ss arbitrary: b) (auto split: option.splits dest: step_clock intro: order_trans)

lemma run_handled:
  "handled_since own c b0 b \<Longrightarrow> nostr_run l c own ss b = Some b' \<Longrightarrow>
   q_clock (nb_queue b') \<le> q_clock (nb_queue b0) + seen_rumor_ttl - second \<Longrightarrow> handled_since own c b0 b'"
proof (induction ss arbitrary: b)
  case (Cons s ss)
  from Cons.prems(2) obtain b1 where st: "nostr_step l c own s b = Some b1" and
    rest: "nostr_run l c own ss b1 = Some b'" by (auto split: option.splits)
  have "handled_since own c b0 b1"
  proof (cases s)
    case (Arrives late evt)
    with st Cons.prems(1) process_handled show ?thesis by auto
  next
    case PruneTick
    with st have b1: "b1 = prune_stale_seen seen_rumor_ttl b" by simp
    have late: "q_clock (nb_queue b1) \<le> q_clock (nb_queue b0) + seen_rumor_ttl - second"
      using run_clock [OF rest] Cons.prems(3) by simp
    have "q_clock (nb_queue b1) - seen_rumor_ttl \<le> t * second"
      if "q_clock (nb_queue b0) div second \<le> t" for t
    proof -
      have "q_clock (nb_queue b0) - second < t * second"
        using that by (simp add: second_def)
      with late show ?thesis by simp
    qed
    then show ?thesis
      using prune_run [of b seen_rumor_ttl] Cons.prems(1)
      unfolding b1 by (intro handled_since_mono [OF Cons.prems(1)]) (auto simp: handled_since_def)
  next
    case (Resets conv)
    with st Cons.prems(1) show ?thesis
      by (auto simp: handled_since_def statements_ok_def nostr_reset_conversation_def)
  next
    case (Sends conv t reply)
    with st Cons.prems(1) send_message_run [of b l c conv t reply] show ?thesis
      by (intro handled_since_mono [OF Cons.prems(1)]) (auto simp: quiet_step_def handled_since_def)
  qed
  from Cons.IH [OF this rest Cons.prems(3)] show ?case .
qed simp


definition sample_nlib :: nlib where
  "sample_nlib = \<lparr>nl_files = sample_flib, sk_from_hex = Inr, pk_from_hex = Inr,
     nip19_decode = (\<lambda>_. Inl ''bad''), public_of = (\<lambda>s. s), get_public_key = Inr ''bot'',
     event_id = (\<lambda>r. ''id''), gift_wrap = (\<lambda>r k. Inr (''wrap '' @ k)),
     gift_unwrap = (\<lambda>e. Inr \<lparr>ru_id = e, ru_pk = ''alice'', ru_kind = 14, ru_content = ''hi'', ru_tags = [],
       ru_created = 0\<rparr>),
     sign_event = (\<lambda>k t ts n. Inr ''event''), marshal_map = (\<lambda>_. []), parse_json = (\<lambda>_. None),
     dm_relay_list = (\<lambda>_. []), dm_list_event = (\<lambda>_. None)\<rparr>"

definition sample_nostr_config :: nostr_config where
  "sample_nostr_config = \<lparr>nc_private_key = ''k'', nc_relays = [''wss://r''], nc_dm_relays = [''wss://d''],
     nc_blossom = [], nc_allowed = [''alice''], nc_base_dir = ''/s'',
     nc_profile = \<lparr>pc_name = ''crow'', pc_display_name = [], pc_about = [], pc_picture = []\<rparr>\<rparr>"

definition sample_nostr :: nostr where
  "sample_nostr = \<lparr>nb_queue = empty_queue, nb_seen = [], nb_meta = (\<lambda>_. None), nb_fs = sample_nfs,
     nb_active = [], nb_running = True, nb_handled = []\<rparr>"


section \<open>Replies\<close>

lemma n_enqueue_items:
  assumes "us \<noteq> []"
  shows "\<exists>it. q_items (nb_queue (n_enqueue e us b)) = q_items (nb_queue b) @ [it] \<and> event it = e \<and>
    pending it = remdups us \<and> \<not> delivered it"
proof -
  obtain t q1 where c: "read_clock (nb_queue b) = (t, q1)" by (cases "read_clock (nb_queue b)")
  obtain f q2 where s: "q_statement q1 = (f, q2)" by (cases "q_statement q1")
  have "q_items q2 = q_items q1" using s by (auto simp: q_statement_def split: prod.splits)
  with read_clock_frame [OF c] c s assms show ?thesis
    by (cases f) (simp_all add: n_enqueue_def q_enqueue_def insert_item_def q_insert_publish_item_def
        q_signal_def)
qed

text \<open>
  A reply is published twice: one copy for the user's relays, or the bot's own when the user has
  published no list, and one for the bot's own archive; both carry the text, and the message it
  answers is read back from the tags.
\<close>

theorem reply_published_twice:
  assumes "pk_from_hex l conv = Inr pk" "nb_running b" "get_public_key l = Inr own"
    "\<And>r k. gift_wrap l r k = Inr (wrapped r k)" "nc_dm_relays c \<noteq> []"
    "nostr_send_message l c conv msg reply b = (i, b')"
  shows "\<exists>r it1 it2. q_items (nb_queue b') = q_items (nb_queue b) @ [it1, it2] \<and>
    event it1 = wrapped r own \<and> pending it1 = remdups (nc_dm_relays c) \<and> \<not> delivered it1 \<and>
    event it2 = wrapped r pk \<and> pending it2 = remdups (recipient_relays l c pk) \<and> \<not> delivered it2 \<and>
    ru_content r = msg \<and> rumor_reply_target r = reply \<and> ru_id r = i"
proof -
  obtain t b1 where n: "n_now b = (t, b1)" by (cases "n_now b")
  let ?r = "\<lparr>ru_id = [], ru_pk = own, ru_kind = kind_direct_message, ru_content = msg,
    ru_tags = [''p'', pk] # (if reply \<noteq> [] then [[''e'', reply]] else []), ru_created = t div second\<rparr>"
  let ?q = "?r\<lparr>ru_id := event_id l ?r\<rparr>"
  let ?b2 = "n_enqueue (wrapped ?q own) (nc_dm_relays c) b1"
  have run: "i = ru_id ?q" "b' = n_enqueue (wrapped ?q pk) (recipient_relays l c pk) ?b2"
    using assms n
    by (cases "reply = []"; auto simp: nostr_send_message_def send_dm_def build_rumor_def
        wrap_and_publish_def publish_gift_wraps_def Let_def)+
  have rr: "recipient_relays l c pk \<noteq> []" using assms(5) by (simp add: recipient_relays_def Let_def)
  obtain it1 where it1: "q_items (nb_queue ?b2) = q_items (nb_queue b1) @ [it1]"
    "event it1 = wrapped ?q own \<and> pending it1 = remdups (nc_dm_relays c) \<and> \<not> delivered it1"
    using n_enqueue_items [OF assms(5)] by blast
  obtain it2 where it2: "q_items (nb_queue b') = q_items (nb_queue ?b2) @ [it2]"
    "event it2 = wrapped ?q pk \<and> pending it2 = remdups (recipient_relays l c pk) \<and> \<not> delivered it2"
    using n_enqueue_items [OF rr] run(2) by blast
  have target: "rumor_reply_target ?q = reply"
    by (simp add: rumor_reply_target_def tag_value_def)
  show ?thesis
    by (rule exI [of _ ?q], rule exI [of _ it1], rule exI [of _ it2])
       (use it1 it2 target run(1) n_now_run [OF n] in simp)
qed

theorem reply_published_twice_witness:
  "\<exists>it1 it2. q_items (nb_queue (snd (nostr_send_message sample_nlib sample_nostr_config ''alice'' ''yes'' ''m1''
      sample_nostr))) = [it1, it2] \<and> event it1 = ''wrap bot'' \<and> event it2 = ''wrap alice''"
proof -
  let ?send = "nostr_send_message sample_nlib sample_nostr_config ''alice'' ''yes'' ''m1'' sample_nostr"
  have hyps: "pk_from_hex sample_nlib ''alice'' = Inr ''alice''" "nb_running sample_nostr"
    "get_public_key sample_nlib = Inr ''bot''" "nc_dm_relays sample_nostr_config \<noteq> []"
    "gift_wrap sample_nlib r k = Inr (''wrap '' @ k)" for r k
    by (simp_all add: sample_nlib_def sample_nostr_def sample_nostr_config_def)
  from reply_published_twice [OF hyps(1,2,3,5,4), of "''yes''" "''m1''" "fst ?send" "snd ?send"]
  show ?thesis by (auto simp: sample_nostr_def empty_queue_def)
qed

section \<open>Metadata\<close>

lemma mark_metadata_run:
  "q_clock (nb_queue b) \<le> q_clock (nb_queue (mark_metadata_published k h b)) \<and>
   (statements_ok b \<longrightarrow> statements_ok (mark_metadata_published k h b) \<and>
     (\<exists>t \<ge> q_clock (nb_queue b). nb_meta (mark_metadata_published k h b) k = Some (h, t div second)))"
proof -
  obtain t b1 where n: "n_now b = (t, b1)" by (cases "n_now b")
  obtain f b2 where s: "n_statement b1 = (f, b2)" by (cases "n_statement b1")
  show ?thesis
    using n_now_run [OF n] statement_run [OF s]
    by (cases f) (auto simp: mark_metadata_published_def q_upsert_metadata_def n s quiet_step_def
        statements_ok_def)
qed

text \<open>The clock never runs back between the check and the end of a publication.\<close>

lemma publish_after_check:
  assumes "metadata_is_fresh (int kind) hash b = (fr, b1)"
  shows "q_clock (nb_queue b1) \<le> q_clock (nb_queue (publish_metadata l c kind body ts hash b))"
proof -
  obtain t b2 where n: "n_now b1 = (t, b2)" by (cases "n_now b1")
  show ?thesis
  proof (cases "sign_event l kind body ts (t div second)")
    case (Inr evt)
    let ?b3 = "n_enqueue evt (nc_relays c) b2"
    have "q_clock (nb_queue b1) \<le> q_clock (nb_queue ?b3)"
      using n_now_run [OF n] n_enqueue_quiet [of b2 evt "nc_relays c"] by (simp add: quiet_step_def)
    also have "\<dots> \<le> q_clock (nb_queue (mark_metadata_published (int kind) hash ?b3))"
      using mark_metadata_run [of ?b3] by simp
    finally show ?thesis using assms n Inr by (cases fr) (simp_all add: publish_metadata_def)
  qed (use assms n n_now_run [OF n] in \<open>cases fr; simp add: publish_metadata_def\<close>)
qed

lemma first_publish:
  assumes "statements_ok b" "nb_meta b (int kind) = None" "\<And>t. sign_event l kind body ts t = Inr evt"
  shows "statements_ok (publish_metadata l c kind body ts hash b) \<and>
    (\<exists>t \<ge> q_clock (nb_queue b).
       nb_meta (publish_metadata l c kind body ts hash b) (int kind) = Some (hash, t div second))"
proof -
  obtain f s1 where s: "n_statement b = (f, s1)" by (cases "n_statement b")
  note r1 = statement_run [OF s]
  obtain t s2 where n: "n_now s1 = (t, s2)" by (cases "n_now s1")
  let ?s3 = "n_enqueue evt (nc_relays c) s2"
  have run: "publish_metadata l c kind body ts hash b = mark_metadata_published (int kind) hash ?s3"
    using assms s r1 n by (simp add: publish_metadata_def metadata_is_fresh_def q_get_metadata_def)
  have "statements_ok ?s3 \<and> q_clock (nb_queue b) \<le> q_clock (nb_queue ?s3)"
    using assms(1) r1 n_now_run [OF n] n_enqueue_quiet [of s2 evt "nc_relays c"] by (simp add: quiet_step_def)
  with mark_metadata_run [of ?s3 "int kind" hash] show ?thesis
    unfolding run by (meson order_trans)
qed

text \<open>
  Restarts do not spam the relays: metadata published once is not published again while its
  content and target relays stay the same and less than a day has passed.
\<close>

theorem metadata_not_republished:
  assumes "b1 = publish_metadata l c kind body ts hash b"
    "q_faults (nb_queue b) = []" "\<And>t. sign_event l kind body ts t = Inr evt" "nb_meta b (int kind) = None"
    "b2 = publish_metadata l c kind body ts hash b1"
    "q_clock (nb_queue b2) < q_clock (nb_queue b) + metadata_refresh_interval - second"
  shows "q_items (nb_queue b2) = q_items (nb_queue b1)"
proof -
  obtain t where t: "q_clock (nb_queue b) \<le> t" "nb_meta b1 (int kind) = Some (hash, t div second)"
    and ok: "statements_ok b1"
    using first_publish [of b kind l body ts evt c hash] assms by (auto simp: statements_ok_def)
  obtain f s6 where s6: "n_statement b1 = (f, s6)" by (cases "n_statement b1")
  note r6 = statement_run [OF s6]
  obtain t7 s7 where s7: "n_now s6 = (t7, s7)" by (cases "n_now s6")
  note r7 = n_now_run [OF s7]
  have check: "metadata_is_fresh (int kind) hash b1 =
      (t7 - t div second * second < metadata_refresh_interval, s7)"
    using s6 s7 r6 ok t(2) by (simp add: metadata_is_fresh_def q_get_metadata_def)
  have "t7 < q_clock (nb_queue b) + metadata_refresh_interval - second"
    using publish_after_check [OF check, of l c body ts] assms(5,6) r7 by simp
  moreover have "t - second < t div second * second" by (simp add: second_def)
  ultimately have "t7 - t div second * second < metadata_refresh_interval" using t(1) by simp
  then have "b2 = s7" using assms(5) check by (simp add: publish_metadata_def)
  then show ?thesis using r6 r7 by simp
qed

theorem metadata_not_republished_witness:
  "q_items (nb_queue (publish_profile sample_nlib sample_nostr_config
      (publish_profile sample_nlib sample_nostr_config sample_nostr))) =
   q_items (nb_queue (publish_profile sample_nlib sample_nostr_config sample_nostr))"
proof -
  let ?h = "hash_content sample_flib [] [''wss://r'']"
  have prof: "publish_profile sample_nlib sample_nostr_config b =
      publish_metadata sample_nlib sample_nostr_config 0 [] [] ?h b" for b
    by (simp add: publish_profile_def sample_nostr_config_def sample_nlib_def Let_def)
  let ?p = "publish_metadata sample_nlib sample_nostr_config 0 [] [] ?h"
  have "q_clock (nb_queue (?p (?p sample_nostr))) = 0" by code_simp
  then show ?thesis
    unfolding prof
    by (intro metadata_not_republished [OF refl _ _ _ refl, where evt = "''event''"])
       (simp_all add: sample_nostr_def sample_nlib_def empty_queue_def metadata_refresh_interval_def
         second_def)
qed

section \<open>Subscription\<close>

text \<open>The relays collected so far are distinct up to trailing slashes, and \<open>seen\<close> is their image.\<close>

definition relays_ok :: "string set \<times> string list \<Rightarrow> bool" where
  "relays_ok sr \<longleftrightarrow> distinct (map (\<lambda>r. trim_right r ''/'') (snd sr)) \<and>
     fst sr = (\<lambda>r. trim_right r ''/'') ` set (snd sr)"

lemma add_relay_ok: "relays_ok sr \<Longrightarrow> relays_ok (add_relay r sr) \<and> fst sr \<subseteq> fst (add_relay r sr) \<and>
    trim_right r ''/'' \<in> fst (add_relay r sr)"
  by (cases sr) (auto simp: relays_ok_def add_relay_def Let_def)

lemma fold_relays_ok:
  assumes "\<And>x sr. relays_ok sr \<Longrightarrow> relays_ok (f x sr) \<and> fst sr \<subseteq> fst (f x sr)"
  shows "relays_ok sr \<Longrightarrow> relays_ok (fold f xs sr) \<and> fst sr \<subseteq> fst (fold f xs sr)"
proof (induction xs arbitrary: sr)
  case (Cons x xs)
  from Cons.IH [of "f x sr"] assms [OF Cons.prems, of x] show ?case by auto
qed simp

lemma discover_user_ok:
  "relays_ok sr \<Longrightarrow> relays_ok (discover_user l u sr) \<and> fst sr \<subseteq> fst (discover_user l u sr)"
  using fold_relays_ok [of add_relay_tag] add_relay_ok
  by (auto simp: discover_user_def add_relay_tag_def split: sum.splits option.splits)

text \<open>
  The bot listens on every relay of its configuration, and on no relay twice, whatever lists the
  users have published: two addresses that differ in trailing slashes are one relay.
\<close>

theorem subscription_relays_distinct:
  "distinct (map (\<lambda>r. trim_right r ''/'') (discover_subscription_relays l c)) \<and>
   (\<lambda>r. trim_right r ''/'') ` (set (nc_relays c) \<union> set (nc_dm_relays c))
     \<subseteq> (\<lambda>r. trim_right r ''/'') ` set (discover_subscription_relays l c)"
proof -
  let ?own = "fold add_relay (nc_relays c @ nc_dm_relays c) ({}, [])"
  have all: "relays_ok sr \<Longrightarrow> (\<lambda>r. trim_right r ''/'') ` set rs \<subseteq> fst (fold add_relay rs sr)" for rs sr
  proof (induction rs arbitrary: sr)
    case (Cons r rs)
    have r: "relays_ok (add_relay r sr)" "trim_right r ''/'' \<in> fst (add_relay r sr)"
      using add_relay_ok [OF Cons.prems, of r] by blast+
    have "fst (add_relay r sr) \<subseteq> fst (fold add_relay rs (add_relay r sr))"
      using fold_relays_ok [of add_relay, OF _ r(1)] add_relay_ok by blast
    with r(2) Cons.IH [OF r(1)] show ?case by auto
  qed simp
  have start: "relays_ok ({}, [])" by (simp add: relays_ok_def)
  have own: "relays_ok ?own" using fold_relays_ok [of add_relay] add_relay_ok start by blast
  define sr where "sr = discover_user_dm_relays l (nc_allowed c) ?own"
  have sr: "relays_ok sr" "fst ?own \<subseteq> fst sr"
    using fold_relays_ok [of "discover_user l" ?own] discover_user_ok own
    by (auto simp: sr_def discover_user_dm_relays_def)
  have res: "discover_subscription_relays l c = snd sr"
    by (simp add: discover_subscription_relays_def sr_def)
  have "(\<lambda>r. trim_right r ''/'') ` set (nc_relays c @ nc_dm_relays c) \<subseteq> fst sr"
    by (rule subset_trans [OF all [OF start] sr(2)])
  with sr(1) show ?thesis unfolding res relays_ok_def by simp
qed

end
