(* ===== verification/Config.thy ===== *)
theory Config
  imports Nostr_Safety Pi_Args App
begin

text \<open>
  Configuration and start-up (\<open>config.go\<close>, \<open>main.go\<close>, \<open>version.go\<close>): the environment is the function
  \<open>getenv\<close>, files and directories are those of the record \<open>host\<close>. A failed read is \<open>Inl\<close> with the
  text of the error.
\<close>

section \<open>Surroundings\<close>

text \<open>
  \<open>frac_ns f k u\<close> is the number of nanoseconds of the decimal fraction \<open>f / 10 ^ k\<close> of a unit of \<open>u\<close>
  nanoseconds, computed by Go in floating point; \<open>dur_error\<close> is the text of an error of
  \<open>time.ParseDuration\<close>.
\<close>

datatype duration_error = InvalidDuration | MissingUnit | UnknownUnit string

record host =
  read_file :: "string \<Rightarrow> string + string"
  list_dir :: "string \<Rightarrow> string list option"
  stat_ok :: "string \<Rightarrow> bool"
  frac_ns :: "nat \<Rightarrow> nat \<Rightarrow> nat \<Rightarrow> nat"
  dur_error :: "duration_error \<Rightarrow> string \<Rightarrow> string"
  quote_tab :: "nat \<Rightarrow> bool"

section \<open>Durations\<close>

definition max_uint63 :: nat where "max_uint63 = 2 ^ 63"

text \<open>\<open>leadingInt\<close>: the digits at the front; \<open>None\<close> on overflow.\<close>

fun leading_int :: "nat \<Rightarrow> string \<Rightarrow> (nat \<times> string) option" where
  "leading_int x [] = Some (x, [])"
| "leading_int x (c # s) =
     (case digit_val c of
        None \<Rightarrow> Some (x, c # s)
      | Some d \<Rightarrow>
          (if max_uint63 div 10 < x then None
           else if max_uint63 < x * 10 + d then None
           else leading_int (x * 10 + d) s))"

text \<open>\<open>leadingFraction\<close>: digits beyond the range are dropped; the number of digits kept is counted.\<close>

fun leading_fraction :: "nat \<Rightarrow> nat \<Rightarrow> bool \<Rightarrow> string \<Rightarrow> nat \<times> nat \<times> string" where
  "leading_fraction x k over [] = (x, k, [])"
| "leading_fraction x k over (c # s) =
     (case digit_val c of
        None \<Rightarrow> (x, k, c # s)
      | Some d \<Rightarrow>
          (if over then leading_fraction x k True s
           else if (max_uint63 - 1) div 10 < x then leading_fraction x k True s
           else if max_uint63 < x * 10 + d then leading_fraction x k True s
           else leading_fraction (x * 10 + d) (Suc k) False s))"

definition unit_map :: "string \<Rightarrow> nat option" where
  "unit_map = map_of
     [(''ns'', 1), (''us'', 1000), ([CHR 0xC2, CHR 0xB5, CHR ''s''], 1000),
      ([CHR 0xCE, CHR 0xBC, CHR ''s''], 1000), (''ms'', 1000000), (''s'', 1000000000),
      (''m'', 60000000000), (''h'', 3600000000000)]"

definition unit_char :: "char \<Rightarrow> bool" where
  "unit_char c \<longleftrightarrow> c \<noteq> CHR ''.'' \<and> digit_val c = None"

text \<open>One number with its unit: the new total and the rest.\<close>

definition duration_term :: "host \<Rightarrow> nat \<Rightarrow> string \<Rightarrow> duration_error + nat \<times> string" where
  "duration_term h acc s =
     (if s = [] \<or> (hd s \<noteq> CHR ''.'' \<and> digit_val (hd s) = None) then Inl InvalidDuration
      else case leading_int 0 s of
             None \<Rightarrow> Inl InvalidDuration
           | Some (v, s1) \<Rightarrow>
               (let pre = (length s1 \<noteq> length s);
                    dot = (s1 \<noteq> [] \<and> hd s1 = CHR ''.'');
                    (f, k, s2) = (if dot then leading_fraction 0 0 False (tl s1) else (0, 0, s1));
                    post = (dot \<and> length s2 \<noteq> length (tl s1));
                    u = takeWhile unit_char s2;
                    s3 = dropWhile unit_char s2
                in if \<not> pre \<and> \<not> post then Inl InvalidDuration
                   else if u = [] then Inl MissingUnit
                   else case unit_map u of
                          None \<Rightarrow> Inl (UnknownUnit u)
                        | Some n \<Rightarrow>
                            (if max_uint63 div n < v then Inl InvalidDuration
                             else let w = v * n + (if 0 < f then frac_ns h f k n else 0)
                             in if 0 < f \<and> max_uint63 < w then Inl InvalidDuration
                                else if max_uint63 < acc + w then Inl InvalidDuration
                                else Inr (acc + w, s3))))"

text \<open>The loop of \<open>time.ParseDuration\<close>; every term takes at least one byte, so the fuel suffices.\<close>

fun duration_terms :: "host \<Rightarrow> nat \<Rightarrow> nat \<Rightarrow> string \<Rightarrow> duration_error + nat" where
  "duration_terms h fuel acc [] = Inr acc"
| "duration_terms h 0 acc (c # s) = Inl InvalidDuration"
| "duration_terms h (Suc fuel) acc (c # s) =
     (case duration_term h acc (c # s) of
        Inl e \<Rightarrow> Inl e
      | Inr (acc, s) \<Rightarrow> duration_terms h fuel acc s)"

definition parse_duration :: "host \<Rightarrow> string \<Rightarrow> duration_error + int" where
  "parse_duration h orig =
     (let (neg, s) = (case orig of [] \<Rightarrow> (False, [])
             | c # cs \<Rightarrow> if c = CHR ''-'' then (True, cs) else if c = CHR ''+'' then (False, cs)
                        else (False, orig))
      in if s = ''0'' then Inr 0
         else if s = [] then Inl InvalidDuration
         else case duration_terms h (length s) 0 s of
                Inl e \<Rightarrow> Inl e
              | Inr d \<Rightarrow>
                  (if neg then Inr (- int d)
                   else if max_uint63 - 1 < d then Inl InvalidDuration
                   else Inr (int d)))"

section \<open>Reading the environment\<close>

type_synonym env_reader = "string \<Rightarrow> string"

definition env_or :: "env_reader \<Rightarrow> string \<Rightarrow> string \<Rightarrow> string" where
  "env_or getenv key fallback = (if getenv key \<noteq> [] then getenv key else fallback)"

definition parse_comma_separated :: "string \<Rightarrow> string list" where
  "parse_comma_separated s =
     (if s = [] then [] else filter (\<lambda>p. p \<noteq> []) (map trim_space (split_on CHR '','' s)))"

definition env_list :: "env_reader \<Rightarrow> string \<Rightarrow> string list" where
  "env_list getenv key = parse_comma_separated (getenv key)"

definition env_bool :: "env_reader \<Rightarrow> string \<Rightarrow> bool" where
  "env_bool getenv key \<longleftrightarrow> to_lower (getenv key) \<in> {''1'', ''true'', ''yes''}"

definition env_duration :: "host \<Rightarrow> env_reader \<Rightarrow> string \<Rightarrow> int \<Rightarrow> string + int" where
  "env_duration h getenv key def =
     (let v = getenv key
      in if v = [] then Inr def
         else case parse_duration h v of
                Inl e \<Rightarrow> Inl (''parsing '' @ key @ '': '' @ dur_error h e v)
              | Inr d \<Rightarrow> Inr d)"

section \<open>The configuration\<close>

record matrix_config =
  mc_homeserver :: string
  mc_user_id :: string
  mc_access_token :: string
  mc_password :: string
  mc_device_id :: string
  mc_allowed :: "string list"
  mc_pickle_key :: string
  mc_crypto_db :: string

record signal_config =
  sc_account :: string
  sc_binary :: string
  sc_config_dir :: string
  sc_socket :: string
  sc_allowed :: "string list"

record socket_config =
  kc_socket :: string
  kc_name :: string

record nostr_settings =
  ns_private_key :: string
  ns_relays :: "string list"
  ns_dm_relays :: "string list"
  ns_blossom :: "string list"
  ns_allowed :: "string list"
  ns_profile :: profile_config

record heartbeat_config =
  hc_interval :: int
  hc_prompt :: string

record config =
  c_backend :: string
  c_matrix :: matrix_config
  c_nostr :: nostr_settings
  c_signal :: signal_config
  c_socket :: socket_config
  c_pi :: pi_config
  c_heartbeat :: heartbeat_config

definition lines_of :: "string list \<Rightarrow> string" where
  "lines_of ls = join [CHR 0x0A] ls"

definition default_soul :: string where
  "default_soul = lines_of
     [''You are OpenCrow, an AI assistant communicating via a messaging platform.'',
      [],
      ''Be genuinely helpful, not performatively helpful. Skip the filler words '' @ em_dash @ '' just help.'',
      ''Have opinions. Be resourceful before asking. Earn trust through competence.'',
      ''Be concise when needed, thorough when it matters. Not a corporate drone. Not a sycophant. Just good.'',
      ''When using tools, prefer standard Unix tools. Check output before proceeding. Break complex tasks into steps and execute them.'']"

definition heartbeat_soul :: string where
  "heartbeat_soul = lines_of
     [''## Heartbeat'',
      [],
      ''HEARTBEAT.md in your working directory holds standing checks to run'',
      ''periodically. One check per line:'',
      [],
      ''  - Check for urgent email'',
      ''  - [paused] Review old PRs'',
      [],
      ''Edit the file to add/remove checks. Prefix with [paused] to skip without'',
      ''deleting. This is a stable checklist '' @ em_dash @ '' for one-shot reminders, use the'',
      ''remind_at tool instead.'']"

definition default_heartbeat_prompt :: string where
  "default_heartbeat_prompt = lines_of
     [''Run through the standing checks below.'',
      ''If nothing needs attention, reply with exactly: HEARTBEAT_OK'']"

definition default_trigger_prompt :: string where
  "default_trigger_prompt = ''External trigger received. Always respond with a brief human-readable summary for the user '' @
     em_dash @ '' never a status code or sentinel. If duplicate or no-op, say so.''"

definition discover_skills :: "host \<Rightarrow> string \<Rightarrow> string list" where
  "discover_skills h dir =
     (case list_dir h dir of
        None \<Rightarrow> []
      | Some entries \<Rightarrow>
          filter (\<lambda>p. stat_ok h (path_join [p, ''SKILL.md''])) (map (\<lambda>e. path_join [dir, e]) entries))"

definition parse_skills :: "host \<Rightarrow> env_reader \<Rightarrow> string list" where
  "parse_skills h getenv =
     (let dir = getenv ''OPENCROW_PI_SKILLS_DIR''
      in env_list getenv ''OPENCROW_PI_SKILLS'' @ (if dir \<noteq> [] then discover_skills h dir else []))"

text \<open>A Go map used as a set: the list without repetitions.\<close>

definition parse_allowed_users :: "string list \<Rightarrow> string list" where
  "parse_allowed_users users = remdups users"

definition load_soul :: "host \<Rightarrow> env_reader \<Rightarrow> string" where
  "load_soul h getenv =
     (let path = getenv ''OPENCROW_SOUL_FILE'';
          fallback = env_or getenv ''OPENCROW_PI_SYSTEM_PROMPT'' default_soul
      in if path = [] then fallback
         else case read_file h path of Inl e \<Rightarrow> fallback | Inr soul \<Rightarrow> soul)"

section \<open>Validation\<close>

text \<open>\<open>errors.Join\<close> of the texts: no error when there is none.\<close>

definition join_errors :: "string option list \<Rightarrow> string option" where
  "join_errors es =
     (let texts = map the (filter (\<lambda>e. e \<noteq> None) es)
      in if texts = [] then None else Some (join [CHR 0x0A] texts))"

definition require_field :: "string \<Rightarrow> string \<Rightarrow> string option" where
  "require_field v name = (if v = [] then Some (name @ '' is required'') else None)"

definition validate_matrix :: "matrix_config \<Rightarrow> string option" where
  "validate_matrix m =
     (let err = join_errors [require_field (mc_homeserver m) ''OPENCROW_MATRIX_HOMESERVER'',
            require_field (mc_user_id m) ''OPENCROW_MATRIX_USER_ID'']
      in if mc_access_token m = [] \<and> mc_password m = []
         then join_errors [err, Some ''OPENCROW_MATRIX_ACCESS_TOKEN or OPENCROW_MATRIX_PASSWORD is required'']
         else err)"

definition validate_signal :: "signal_config \<Rightarrow> string option" where
  "validate_signal s = join_errors
     [require_field (sc_account s) ''OPENCROW_SIGNAL_ACCOUNT'',
      require_field (sc_binary s) ''OPENCROW_SIGNAL_CLI_BINARY'',
      require_field (sc_socket s) ''OPENCROW_SIGNAL_SOCKET_PATH'']"

definition load_matrix_password :: "host \<Rightarrow> env_reader \<Rightarrow> string + string" where
  "load_matrix_password h getenv =
     (let path = getenv ''OPENCROW_MATRIX_PASSWORD_FILE''
      in if path \<noteq> [] then
           (case read_file h path of
              Inl e \<Rightarrow> Inl (''reading OPENCROW_MATRIX_PASSWORD_FILE: '' @ e)
            | Inr txt \<Rightarrow> Inr (trim_right txt [CHR 0x0D, CHR 0x0A]))
         else Inr (getenv ''OPENCROW_MATRIX_PASSWORD''))"

definition load_signal_config :: "env_reader \<Rightarrow> string \<Rightarrow> string list \<Rightarrow> signal_config" where
  "load_signal_config getenv wd allowed =
     \<lparr>sc_account = getenv ''OPENCROW_SIGNAL_ACCOUNT'',
       sc_binary = env_or getenv ''OPENCROW_SIGNAL_CLI_BINARY'' ''signal-cli'',
       sc_config_dir = env_or getenv ''OPENCROW_SIGNAL_CONFIG_DIR'' (path_join [wd, ''signal-cli'']),
       sc_socket = env_or getenv ''OPENCROW_SIGNAL_SOCKET_PATH''
         (path_join [wd, ''signal-cli'', ''opencrow-jsonrpc.sock'']),
       sc_allowed = allowed\<rparr>"

section \<open>Loading\<close>

definition load_nostr_private_key :: "nlib \<Rightarrow> host \<Rightarrow> env_reader \<Rightarrow> string + string" where
  "load_nostr_private_key l h getenv =
     (let path = getenv ''OPENCROW_NOSTR_PRIVATE_KEY_FILE''
      in case (if path \<noteq> [] then read_file h path else Inr []) of
           Inl e \<Rightarrow> Inl (''reading OPENCROW_NOSTR_PRIVATE_KEY_FILE: '' @ e)
         | Inr txt \<Rightarrow>
             (let raw = (if trim_space txt \<noteq> [] then trim_space txt else getenv ''OPENCROW_NOSTR_PRIVATE_KEY'')
              in if raw = [] then
                   Inl ''OPENCROW_NOSTR_PRIVATE_KEY or OPENCROW_NOSTR_PRIVATE_KEY_FILE is required''
                 else case decode_nsec_to_hex l raw of
                        Inl e \<Rightarrow> Inl (''decoding nostr private key: '' @ e)
                      | Inr hex \<Rightarrow> Inr hex))"

fun parse_nostr_users :: "nlib \<Rightarrow> host \<Rightarrow> string list \<Rightarrow> string list \<Rightarrow> string + string list" where
  "parse_nostr_users l h users [] = Inr users"
| "parse_nostr_users l h users (u # us) =
     (case decode_npub_to_hex l (quote_tab h) u of
        Inl e \<Rightarrow> Inl (''decoding nostr allowed user: '' @ e)
      | Inr hex \<Rightarrow> parse_nostr_users l h (if hex \<in> set users then users else users @ [hex]) us)"

definition load_nostr_config :: "nlib \<Rightarrow> host \<Rightarrow> env_reader \<Rightarrow> string + nostr_settings" where
  "load_nostr_config l h getenv =
     (case load_nostr_private_key l h getenv of
        Inl e \<Rightarrow> Inl e
      | Inr key \<Rightarrow>
          (let relays = env_list getenv ''OPENCROW_NOSTR_RELAYS''
           in if relays = [] then Inl ''OPENCROW_NOSTR_RELAYS is required (comma-separated relay URLs)''
              else case parse_nostr_users l h [] (env_list getenv ''OPENCROW_NOSTR_ALLOWED_USERS'') of
                     Inl e \<Rightarrow> Inl e
                   | Inr users \<Rightarrow>
                       Inr \<lparr>ns_private_key = key, ns_relays = relays,
                         ns_dm_relays = env_list getenv ''OPENCROW_NOSTR_DM_RELAYS'',
                         ns_blossom = env_list getenv ''OPENCROW_NOSTR_BLOSSOM_SERVERS'',
                         ns_allowed = users,
                         ns_profile = \<lparr>pc_name = getenv ''OPENCROW_NOSTR_NAME'',
                           pc_display_name = getenv ''OPENCROW_NOSTR_DISPLAY_NAME'',
                           pc_about = getenv ''OPENCROW_NOSTR_ABOUT'',
                           pc_picture = getenv ''OPENCROW_NOSTR_PICTURE''\<rparr>\<rparr>))"

definition validate_backend :: "nlib \<Rightarrow> host \<Rightarrow> env_reader \<Rightarrow> config \<Rightarrow> string + config" where
  "validate_backend l h getenv c =
     (if c_backend c = ''matrix'' then
        (case load_matrix_password h getenv of
           Inl e \<Rightarrow> Inl e
         | Inr password \<Rightarrow>
             (let c = c\<lparr>c_matrix := (c_matrix c)\<lparr>mc_password := password\<rparr>\<rparr>
              in case validate_matrix (c_matrix c) of Some e \<Rightarrow> Inl e | None \<Rightarrow> Inr c))
      else if c_backend c = ''nostr'' then
        (case load_nostr_config l h getenv of Inl e \<Rightarrow> Inl e | Inr n \<Rightarrow> Inr (c\<lparr>c_nostr := n\<rparr>))
      else if c_backend c = ''signal'' then
        (case validate_signal (c_signal c) of Some e \<Rightarrow> Inl e | None \<Rightarrow> Inr c)
      else Inr c)"

definition backend_types :: "string list" where
  "backend_types = [''matrix'', ''nostr'', ''signal'', ''socket'']"

definition empty_nostr_settings :: nostr_settings where
  "empty_nostr_settings = \<lparr>ns_private_key = [], ns_relays = [], ns_dm_relays = [], ns_blossom = [],
     ns_allowed = [], ns_profile = \<lparr>pc_name = [], pc_display_name = [], pc_about = [], pc_picture = []\<rparr>\<rparr>"

text \<open>The configuration as it is before the validation.\<close>

definition base_config ::
    "host \<Rightarrow> env_reader \<Rightarrow> string \<Rightarrow> int \<Rightarrow> int \<Rightarrow> string list \<Rightarrow> string \<Rightarrow> config" where
  "base_config h getenv backend idle interval allowed wd =
       \<lparr>c_backend = backend,
         c_matrix = \<lparr>mc_homeserver = getenv ''OPENCROW_MATRIX_HOMESERVER'',
           mc_user_id = getenv ''OPENCROW_MATRIX_USER_ID'',
           mc_access_token = getenv ''OPENCROW_MATRIX_ACCESS_TOKEN'',
           mc_password = [],
           mc_device_id = getenv ''OPENCROW_MATRIX_DEVICE_ID'',
           mc_allowed = allowed,
           mc_pickle_key = env_or getenv ''OPENCROW_MATRIX_PICKLE_KEY'' ''opencrow-default-pickle-key'',
           mc_crypto_db = env_or getenv ''OPENCROW_MATRIX_CRYPTO_DB'' (path_join [wd, ''crypto.db''])\<rparr>,
         c_nostr = empty_nostr_settings,
         c_signal = load_signal_config getenv wd allowed,
         c_socket = \<lparr>kc_socket = env_or getenv ''OPENCROW_SOCKET_PATH''
             (path_join [wd, ''sessions'', ''chat.sock'']),
           kc_name = env_or getenv ''OPENCROW_SOCKET_NAME'' ''OpenCrow''\<rparr>,
         c_pi = \<lparr>binary_path = env_or getenv ''OPENCROW_PI_BINARY'' ''omp'', binary_args = [],
           session_dir = env_or getenv ''OPENCROW_PI_SESSION_DIR'' ''/var/lib/opencrow/sessions'',
           provider = env_or getenv ''OPENCROW_PI_PROVIDER'' ''anthropic'',
           model = env_or getenv ''OPENCROW_PI_MODEL'' ''claude-opus-4-6'',
           working_dir = wd, idle_timeout = idle, system_prompt = load_soul h getenv,
           skills = parse_skills h getenv,
           extensions = env_list getenv ''OPENCROW_PI_EXTENSIONS'',
           show_tool_calls = env_bool getenv ''OPENCROW_SHOW_TOOL_CALLS'',
           debug_timing = env_bool getenv ''OPENCROW_DEBUG_TIMING''\<rparr>,
         c_heartbeat = \<lparr>hc_interval = interval,
           hc_prompt = env_or getenv ''OPENCROW_HEARTBEAT_PROMPT'' default_heartbeat_prompt\<rparr>\<rparr>"

definition load_config :: "nlib \<Rightarrow> host \<Rightarrow> env_reader \<Rightarrow> string + config" where
  "load_config l h getenv =
     (let backend = env_or getenv ''OPENCROW_BACKEND'' ''matrix''
      in if backend \<notin> set backend_types then
           Inl (''OPENCROW_BACKEND='' @ go_quote (quote_tab h) backend @
                '' is not supported (valid: matrix, nostr, signal, socket)'')
         else case env_duration h getenv ''OPENCROW_PI_IDLE_TIMEOUT'' (30 * 60 * 1000000000) of
           Inl e \<Rightarrow> Inl e
         | Inr idle \<Rightarrow>
             (let allowed = parse_allowed_users (env_list getenv ''OPENCROW_ALLOWED_USERS'');
                  wd = env_or getenv ''OPENCROW_PI_WORKING_DIR'' ''/var/lib/opencrow''
              in case env_duration h getenv ''OPENCROW_HEARTBEAT_INTERVAL'' 0 of
                   Inl e \<Rightarrow> Inl e
                 | Inr interval \<Rightarrow>
                     validate_backend l h getenv (base_config h getenv backend idle interval allowed wd)))"

section \<open>Start-up\<close>

definition create_nostr_config :: "config \<Rightarrow> nostr_config" where
  "create_nostr_config c =
     \<lparr>nc_private_key = ns_private_key (c_nostr c), nc_relays = ns_relays (c_nostr c),
       nc_dm_relays = ns_dm_relays (c_nostr c), nc_blossom = ns_blossom (c_nostr c),
       nc_allowed = ns_allowed (c_nostr c), nc_base_dir = session_dir (c_pi c),
       nc_profile = ns_profile (c_nostr c)\<rparr>"

definition wired_system_prompt :: "config \<Rightarrow> world \<Rightarrow> string" where
  "wired_system_prompt c w =
     app_system_prompt (system_prompt (c_pi c)) w @
     (if 0 < hc_interval (c_heartbeat c) then [CHR 0x0A, CHR 0x0A] @ heartbeat_soul else [])"

text \<open>The worker as \<open>wireServices\<close> leaves it, over a transport's surroundings in \<open>w\<close>.\<close>

definition wire_worker :: "config \<Rightarrow> db \<Rightarrow> lib \<Rightarrow> int \<Rightarrow> world \<Rightarrow> world" where
  "wire_worker c d l t w =
     (new_worker d l ((c_pi c)\<lparr>system_prompt := wired_system_prompt c w\<rparr>) (hc_prompt (c_heartbeat c))
        default_trigger_prompt t)
     \<lparr>hb_interval := hc_interval (c_heartbeat c), be_extra := be_extra w, be_flavor := be_flavor w,
       be_streams := be_streams w, room_file := room_file w, hb_file := hb_file w\<rparr>"

datatype log_level = LevelDebug | LevelInfo | LevelWarn | LevelError

definition parse_log_level :: "string \<Rightarrow> log_level" where
  "parse_log_level s =
     (let t = to_lower s
      in if t = ''debug'' then LevelDebug else if t = ''warn'' then LevelWarn
         else if t = ''error'' then LevelError else LevelInfo)"

text \<open>
  The old database of sent messages: what \<open>Stat\<close> says of its file, with its rows if it exists; \<open>fs\<close> are
  the outcomes of attaching, copying and removing. Copied are the rows whose key is not in the table yet.
\<close>

datatype legacy_file = NoLegacyFile | StatFails string | LegacyRows "(string \<times> string \<times> string) list"

abbreviation row_key :: "sent_row \<Rightarrow> string \<times> string" where
  "row_key r \<equiv> (conv_id r, msg_id r)"

fun copy_legacy :: "(string \<times> string \<times> string) list \<Rightarrow> sent_row list \<Rightarrow> sent_row list" where
  "copy_legacy [] rows = rows"
| "copy_legacy ((c, m, t) # ls) rows =
     copy_legacy ls
       (if (c, m) \<in> row_key ` set rows then rows
        else rows @ [\<lparr>sent_rowid = next_sent_rowid rows, conv_id = c, msg_id = m, sent_text = t\<rparr>])"

definition migrate_legacy_outbox :: "legacy_file \<Rightarrow> outcomes \<Rightarrow> db \<Rightarrow> string option \<times> db" where
  "migrate_legacy_outbox legacy fs d =
     (case legacy of
        NoLegacyFile \<Rightarrow> (None, d)
      | StatFails e \<Rightarrow> (Some (''checking legacy db: '' @ e), d)
      | LegacyRows ls \<Rightarrow>
          (case next_fault fs of
             (Some e, _) \<Rightarrow> (Some (''attaching legacy db: '' @ e), d)
           | (None, fs) \<Rightarrow>
               (case next_fault fs of
                  (Some e, _) \<Rightarrow> (Some (''copying legacy rows: '' @ e), d)
                | (None, fs) \<Rightarrow>
                    (let d = d\<lparr>sent := copy_legacy ls (sent d)\<rparr>
                     in case next_fault fs of
                          (Some e, _) \<Rightarrow> (Some (''removing legacy db: '' @ e), d)
                        | (None, _) \<Rightarrow> (None, d)))))"

text \<open>The version line; the build information is the Go version and the settings, if there is any.\<close>

definition version_string :: "string \<Rightarrow> (string \<times> (string \<times> string) list) option \<Rightarrow> string" where
  "version_string version info =
     (case info of
        None \<Rightarrow> ''opencrow '' @ version
      | Some (go, settings) \<Rightarrow>
          (let setting = (\<lambda>k. case map_of (rev settings) k of None \<Rightarrow> [] | Some v \<Rightarrow> v);
               revision = take 7 (setting ''vcs.revision'');
               parts = [go] @
                 (if version = ''dev'' then
                    (if revision \<noteq> [] then [''rev '' @ revision] else []) @
                    (if setting ''vcs.time'' \<noteq> [] then [setting ''vcs.time''] else [])
                  else [])
           in ''opencrow '' @ version @ '' ('' @ join '', '' parts @ '')''))"

section \<open>Durations: the fuel suffices\<close>

lemma leading_int_length: "leading_int x s = Some (v, t) \<Longrightarrow> length t \<le> length s"
  by (induction x s rule: leading_int.induct) (auto split: option.splits if_splits)

lemma leading_fraction_length: "leading_fraction x k over s = (f, n, t) \<Longrightarrow> length t \<le> length s"
  by (induction x k over s rule: leading_fraction.induct) (auto split: option.splits if_splits)

lemma duration_term_length:
  assumes "duration_term h acc s = Inr (acc', t)"
  shows "length t < length s"
proof -
  obtain v s1 where i: "leading_int 0 s = Some (v, s1)"
    using assms by (auto simp: duration_term_def split: if_splits option.splits)
  let ?dot = "s1 \<noteq> [] \<and> hd s1 = CHR ''.''"
  obtain f k s2 where f: "(if ?dot then leading_fraction 0 0 False (tl s1) else (0, 0, s1)) = (f, k, s2)"
    by (cases "if ?dot then leading_fraction 0 0 False (tl s1) else (0, 0, s1)")
  have s2: "length s2 \<le> length s"
    using f leading_int_length [OF i] leading_fraction_length [of 0 0 False "tl s1" f k s2]
    by (auto split: if_splits)
  have "takeWhile unit_char s2 \<noteq> [] \<and> t = dropWhile unit_char s2"
    using assms i f by (auto simp: duration_term_def Let_def split: if_splits option.splits)
  then have "length t < length s2"
    by (metis takeWhile_dropWhile_id length_append add_diff_cancel_right' length_greater_0_conv
        less_add_same_cancel2)
  with s2 show ?thesis by simp
qed

lemma duration_fuel: "length s \<le> n \<Longrightarrow> duration_terms h n acc s = duration_terms h (length s) acc s"
proof (induction n arbitrary: acc s rule: less_induct)
  case (less n)
  show ?case
  proof (cases s)
    case (Cons c t)
    with less.prems obtain m where m: "n = Suc m" by (cases n) auto
    show ?thesis
    proof (cases "duration_term h acc (c # t)")
      case (Inr p)
      obtain a r where p: "p = (a, r)" by (cases p)
      from duration_term_length Inr p have "length r \<le> length t" by fastforce
      with less.IH [of m r a] less.IH [of "length t" r a] less.prems m Cons Inr p show ?thesis by simp
    qed (use m Cons in simp)
  qed simp
qed

section \<open>What a loaded configuration promises\<close>

definition clean_item :: "string \<Rightarrow> bool" where
  "clean_item u \<longleftrightarrow> u \<noteq> [] \<and> trim_space u = u \<and> CHR '','' \<notin> set u"

lemma parse_comma_clean: "list_all clean_item (parse_comma_separated s)"
proof -
  have "CHR '','' \<notin> set (trim_space p)" if "p \<in> set (split_on CHR '','' s)" for p
    using split_on_parts [OF that] trim_space_set [of p] by blast
  then show ?thesis
    by (auto simp: list_all_iff parse_comma_separated_def clean_item_def)
qed

lemma parse_comma_join:
  assumes "list_all clean_item us"
  shows "parse_comma_separated (join '','' us) = us"
proof (cases "us = []")
  case False
  have "split_on CHR '','' (join '','' us) = us"
    using assms False by (simp add: split_on_join list_all_iff clean_item_def)
  moreover have "map trim_space us = us" "filter (\<lambda>p. p \<noteq> []) us = us"
    using assms by (induction us) (auto simp: clean_item_def)
  moreover have "join '','' us \<noteq> []"
    using assms False by (cases us rule: list.exhaust; cases "tl us") (auto simp: clean_item_def join_Cons)
  ultimately show ?thesis by (simp add: parse_comma_separated_def)
qed (simp add: parse_comma_separated_def)

definition config_ok :: "config \<Rightarrow> bool" where
  "config_ok c \<longleftrightarrow> c_backend c \<in> set backend_types \<and>
     working_dir (c_pi c) \<noteq> [] \<and> session_dir (c_pi c) \<noteq> [] \<and> binary_path (c_pi c) \<noteq> [] \<and>
     provider (c_pi c) \<noteq> [] \<and> model (c_pi c) \<noteq> [] \<and> hc_prompt (c_heartbeat c) \<noteq> [] \<and>
     list_all clean_item (extensions (c_pi c)) \<and>
     (c_backend c = ''matrix'' \<longrightarrow> mc_homeserver (c_matrix c) \<noteq> [] \<and> mc_user_id (c_matrix c) \<noteq> [] \<and>
        (mc_access_token (c_matrix c) \<noteq> [] \<or> mc_password (c_matrix c) \<noteq> []) \<and>
        mc_pickle_key (c_matrix c) \<noteq> [] \<and> mc_crypto_db (c_matrix c) \<noteq> []) \<and>
     (c_backend c = ''nostr'' \<longrightarrow> ns_relays (c_nostr c) \<noteq> [] \<and> list_all clean_item (ns_relays (c_nostr c)) \<and>
        list_all clean_item (ns_dm_relays (c_nostr c)) \<and> distinct (ns_allowed (c_nostr c))) \<and>
     (c_backend c = ''signal'' \<longrightarrow> sc_account (c_signal c) \<noteq> [] \<and> sc_binary (c_signal c) \<noteq> [] \<and>
        sc_socket (c_signal c) \<noteq> []) \<and>
     (c_backend c = ''socket'' \<longrightarrow> kc_socket (c_socket c) \<noteq> [] \<and> kc_name (c_socket c) \<noteq> [])"

lemma env_or_not_Nil: "d \<noteq> [] \<Longrightarrow> env_or getenv k d \<noteq> []"
  by (simp add: env_or_def)

lemma path_join_not_Nil: "e \<noteq> [] \<Longrightarrow> path_join (e # es) \<noteq> []"
  by (simp add: path_join_def)

lemma default_prompt_not_Nil: "default_heartbeat_prompt \<noteq> []"
  by (simp add: default_heartbeat_prompt_def lines_of_def)

lemma require_field_None [simp]: "require_field v n = None \<longleftrightarrow> v \<noteq> []"
  by (simp add: require_field_def)

lemma join_errors_None [simp]: "join_errors es = None \<longleftrightarrow> (\<forall>e. e \<in> set es \<longrightarrow> e = None)"
  by (auto simp: join_errors_def Let_def filter_empty_conv)

lemma validate_matrix_None: "validate_matrix m = None \<longleftrightarrow> mc_homeserver m \<noteq> [] \<and> mc_user_id m \<noteq> [] \<and>
    (mc_access_token m \<noteq> [] \<or> mc_password m \<noteq> [])"
  by (auto simp: validate_matrix_def Let_def)

lemma validate_signal_None:
  "validate_signal s = None \<longleftrightarrow> sc_account s \<noteq> [] \<and> sc_binary s \<noteq> [] \<and> sc_socket s \<noteq> []"
  by (auto simp: validate_signal_def)

lemma parse_nostr_users_distinct:
  "parse_nostr_users l h users us = Inr users' \<Longrightarrow> distinct users \<Longrightarrow> distinct users'"
  by (induction us arbitrary: users) (auto split: sum.splits if_splits)

lemma load_nostr_ok:
  assumes "load_nostr_config l h getenv = Inr n"
  shows "ns_relays n \<noteq> [] \<and> list_all clean_item (ns_relays n) \<and> list_all clean_item (ns_dm_relays n) \<and>
    distinct (ns_allowed n)"
  using assms parse_comma_clean
  by (auto simp: load_nostr_config_def Let_def env_list_def split: sum.splits if_splits
      dest: parse_nostr_users_distinct)

text \<open>What validation adds for the chosen transport, over a configuration already filled in.\<close>

lemma validate_backend_ok:
  assumes "validate_backend l h getenv c = Inr c'" "c_backend c \<in> set backend_types"
    "working_dir (c_pi c) \<noteq> [] \<and> session_dir (c_pi c) \<noteq> [] \<and> binary_path (c_pi c) \<noteq> [] \<and>
     provider (c_pi c) \<noteq> [] \<and> model (c_pi c) \<noteq> [] \<and> hc_prompt (c_heartbeat c) \<noteq> [] \<and>
     list_all clean_item (extensions (c_pi c))"
    "mc_pickle_key (c_matrix c) \<noteq> [] \<and> mc_crypto_db (c_matrix c) \<noteq> []"
    "kc_socket (c_socket c) \<noteq> [] \<and> kc_name (c_socket c) \<noteq> []"
  shows "config_ok c'"
proof -
  consider "c_backend c = ''matrix''" | "c_backend c = ''nostr''" | "c_backend c = ''signal''"
    | "c_backend c = ''socket''"
    using assms(2) by (auto simp: backend_types_def)
  then show ?thesis
  proof cases
    case 1
    with assms obtain password where
      c': "c' = c\<lparr>c_matrix := (c_matrix c)\<lparr>mc_password := password\<rparr>\<rparr>" and
      v: "validate_matrix (c_matrix c') = None"
      by (auto simp: validate_backend_def Let_def split: sum.splits option.splits)
    with 1 assms(2-5) show ?thesis by (auto simp: config_ok_def validate_matrix_None)
  next
    case 2
    with assms obtain n where n: "load_nostr_config l h getenv = Inr n" "c' = c\<lparr>c_nostr := n\<rparr>"
      by (auto simp: validate_backend_def split: sum.splits)
    with 2 assms(2-5) load_nostr_ok [OF n(1)] show ?thesis by (simp add: config_ok_def)
  next
    case 3
    with assms have "c' = c" "validate_signal (c_signal c) = None"
      by (auto simp: validate_backend_def split: option.splits)
    with 3 assms(2-5) show ?thesis by (simp add: config_ok_def validate_signal_None)
  next
    case 4
    with assms show ?thesis by (simp add: config_ok_def validate_backend_def)
  qed
qed


lemma duration_terms_numeral:
  "duration_terms h (numeral k) acc (c # s) =
     (case duration_term h acc (c # s) of
        Inl e \<Rightarrow> Inl e
      | Inr (acc, s) \<Rightarrow> duration_terms h (pred_numeral k) acc s)"
  by (simp add: numeral_eq_Suc)

definition sample_host :: host where
  "sample_host = \<lparr>read_file = (\<lambda>_. Inl ''no such file''), list_dir = (\<lambda>_. None), stat_ok = (\<lambda>_. False),
     frac_ns = (\<lambda>f k u. f * u div 10 ^ k), dur_error = (\<lambda>e s. ''time: invalid duration ''), quote_tab = (\<lambda>_. True)\<rparr>"


section \<open>Errors of validation\<close>

lemma contains_trans: "contains s t \<Longrightarrow> contains t u \<Longrightarrow> contains s u"
  unfolding contains_iff by (metis append.assoc)

lemma contains_join: "t \<in> set ts \<Longrightarrow> contains (join sep ts) t"
proof (induction ts)
  case (Cons x ts)
  show ?case
  proof (cases "ts = []")
    case False
    then have j: "join sep (x # ts) = x @ sep @ join sep ts" by (rule join_Cons)
    show ?thesis
    proof (cases "t = x")
      case True
      then show ?thesis unfolding j contains_iff by (metis append_Nil)
    next
      case ne: False
      with Cons show ?thesis unfolding j by (simp add: contains_append1)
    qed
  qed (use Cons.prems in \<open>simp add: contains_iff; metis append_Nil append_Nil2\<close>)
qed simp

lemma join_errors_contains:
  assumes "join_errors es = Some e" "Some t \<in> set es"
  shows "contains e t"
proof -
  have "e = join [CHR 0x0A] (map the (filter (\<lambda>e. e \<noteq> None) es))"
    using assms(1) by (simp add: join_errors_def Let_def split: if_splits)
  moreover have "t \<in> set (map the (filter (\<lambda>e. e \<noteq> None) es))"
    using assms(2) by (force simp: image_iff)
  ultimately show ?thesis using contains_join by simp
qed

text \<open>
  All missing variables are reported at once: the error of a configuration that lacks several of
  them names each one.
\<close>

theorem missing_fields_reported:
  "(validate_matrix m = Some e \<longrightarrow>
     (mc_homeserver m = [] \<longrightarrow> contains e ''OPENCROW_MATRIX_HOMESERVER is required'') \<and>
     (mc_user_id m = [] \<longrightarrow> contains e ''OPENCROW_MATRIX_USER_ID is required'') \<and>
     (mc_access_token m = [] \<and> mc_password m = [] \<longrightarrow>
        contains e ''OPENCROW_MATRIX_ACCESS_TOKEN or OPENCROW_MATRIX_PASSWORD is required'')) \<and>
   (validate_signal s = Some e \<longrightarrow>
     (sc_account s = [] \<longrightarrow> contains e ''OPENCROW_SIGNAL_ACCOUNT is required'') \<and>
     (sc_binary s = [] \<longrightarrow> contains e ''OPENCROW_SIGNAL_CLI_BINARY is required'') \<and>
     (sc_socket s = [] \<longrightarrow> contains e ''OPENCROW_SIGNAL_SOCKET_PATH is required''))"
proof -
  let ?fields = "[require_field (mc_homeserver m) ''OPENCROW_MATRIX_HOMESERVER'',
    require_field (mc_user_id m) ''OPENCROW_MATRIX_USER_ID'']"
  have fields: "contains e t" if "validate_matrix m = Some e" "Some t \<in> set ?fields" for t
  proof (cases "join_errors ?fields")
    case (Some err)
    then have "contains err t" by (rule join_errors_contains [OF _ that(2)])
    moreover have "contains e err"
    proof (cases "mc_access_token m = [] \<and> mc_password m = []")
      case True
      with that(1) Some show ?thesis
        by (intro join_errors_contains) (auto simp: validate_matrix_def Let_def)
    next
      case False
      with that(1) Some have "e = err" by (auto simp: validate_matrix_def Let_def)
      then show ?thesis by (simp add: contains_iff) (metis append_Nil append_Nil2)
    qed
    ultimately show ?thesis using contains_trans by blast
  next
    case None
    with that(2) have "Some t = None" unfolding join_errors_None by blast
    then show ?thesis by simp
  qed
  have token: "contains e ''OPENCROW_MATRIX_ACCESS_TOKEN or OPENCROW_MATRIX_PASSWORD is required''"
    if "validate_matrix m = Some e" "mc_access_token m = [] \<and> mc_password m = []"
    using that by (intro join_errors_contains) (auto simp: validate_matrix_def Let_def)
  have sig: "contains e t" if "validate_signal s = Some e"
      "Some t \<in> {require_field (sc_account s) ''OPENCROW_SIGNAL_ACCOUNT'',
        require_field (sc_binary s) ''OPENCROW_SIGNAL_CLI_BINARY'',
        require_field (sc_socket s) ''OPENCROW_SIGNAL_SOCKET_PATH''}" for t
    using that by (intro join_errors_contains [of _ e t]) (auto simp: validate_signal_def)
  show ?thesis
    using fields token sig by (simp add: require_field_def)
qed

definition sample_matrix :: matrix_config where
  "sample_matrix = \<lparr>mc_homeserver = [], mc_user_id = ''@bot:x'', mc_access_token = [], mc_password = [],
     mc_device_id = [], mc_allowed = [], mc_pickle_key = ''k'', mc_crypto_db = ''db''\<rparr>"

theorem missing_fields_reported_witness:
  "\<exists>e. validate_matrix sample_matrix = Some e \<and> contains e ''OPENCROW_MATRIX_HOMESERVER is required'' \<and>
     contains e ''OPENCROW_MATRIX_ACCESS_TOKEN or OPENCROW_MATRIX_PASSWORD is required''"
proof -
  have missing: "mc_homeserver sample_matrix = []" "mc_access_token sample_matrix = []"
    "mc_password sample_matrix = []" by (simp_all add: sample_matrix_def)
  then obtain e where e: "validate_matrix sample_matrix = Some e"
    by (cases "validate_matrix sample_matrix") (simp_all add: validate_matrix_None)
  from missing_fields_reported [of sample_matrix e] e missing show ?thesis by blast
qed

end
