(* ===== verification/Signal_Decode.thy ===== *)
theory Signal_Decode
  imports Json Go_Path Backend_Util
begin

text \<open>
  What the Signal transport reads and writes (\<open>signal/decode.go\<close>): the payload of a \<open>receive\<close>
  notification of signal-cli, the message made of it, and the address a reply is sent to.
\<close>

section \<open>Addresses\<close>

definition group_prefix :: string where "group_prefix = ''signal-group:''"

definition parse_group_conversation_id :: "string \<Rightarrow> string \<times> bool" where
  "parse_group_conversation_id conv =
     (case cut_prefix conv group_prefix of (gid, ok) \<Rightarrow> (gid, ok \<and> gid \<noteq> []))"

text \<open>The parameters of a call, a \<open>map[string]any\<close>, are the list of their assignments.\<close>

type_synonym params = "(string \<times> json) list"

definition add_recipient_params :: "params \<Rightarrow> string \<Rightarrow> params" where
  "add_recipient_params ps conv =
     (case parse_group_conversation_id conv of
        (gid, ok) \<Rightarrow>
          (if ok then ps @ [(''groupId'', JStr gid)]
           else ps @ [(''recipient'', JArr [JStr conv])]))"

section \<open>The payload\<close>

record receive_attachment =
  at_filename :: string
  at_caption :: string
  at_content_type :: string
  at_id :: string

record receive_data_msg =
  dm_timestamp :: int
  dm_message :: string
  dm_quote :: "int option"
  dm_group :: "string option"
  dm_attachments :: "receive_attachment list"

record receive_envelope =
  en_source :: string
  en_number :: string
  en_uuid :: string
  en_timestamp :: int
  en_data :: "receive_data_msg option"

text \<open>
  The one-field structs \<open>receiveQuote\<close>, \<open>receiveGroupInfo\<close>, \<open>receiveLine\<close> and
  \<open>receiveNotificationWrapped\<close> are their field.
\<close>

definition zero_attachment :: receive_attachment where
  "zero_attachment = \<lparr>at_filename = [], at_caption = [], at_content_type = [], at_id = []\<rparr>"

definition zero_data_msg :: receive_data_msg where
  "zero_data_msg = \<lparr>dm_timestamp = 0, dm_message = [], dm_quote = None, dm_group = None, dm_attachments = []\<rparr>"

definition zero_envelope :: receive_envelope where
  "zero_envelope = \<lparr>en_source = [], en_number = [], en_uuid = [], en_timestamp = 0, en_data = None\<rparr>"

definition dec_attachment :: "receive_attachment decoder" where
  "dec_attachment = dec_struct (\<lambda>fs a.
     Option.bind (dec_field ''filename'' dec_string (at_filename a) fs) (\<lambda>f.
     Option.bind (dec_field ''caption'' dec_string (at_caption a) fs) (\<lambda>c.
     Option.bind (dec_field ''contentType'' dec_string (at_content_type a) fs) (\<lambda>ty.
     Option.bind (dec_field ''id'' dec_string (at_id a) fs) (\<lambda>i.
     Some \<lparr>at_filename = f, at_caption = c, at_content_type = ty, at_id = i\<rparr>)))))"

definition dec_quote :: "int decoder" where
  "dec_quote = dec_struct (\<lambda>fs q. dec_field ''id'' dec_int64 q fs)"

definition dec_group :: "string decoder" where
  "dec_group = dec_struct (\<lambda>fs g. dec_field ''groupId'' dec_string g fs)"

definition dec_data_msg :: "receive_data_msg decoder" where
  "dec_data_msg = dec_struct (\<lambda>fs d.
     Option.bind (dec_field ''timestamp'' dec_int64 (dm_timestamp d) fs) (\<lambda>t.
     Option.bind (dec_field ''message'' dec_string (dm_message d) fs) (\<lambda>m.
     Option.bind (dec_field ''quote'' (dec_ptr 0 dec_quote) (dm_quote d) fs) (\<lambda>q.
     Option.bind (dec_field ''groupInfo'' (dec_ptr [] dec_group) (dm_group d) fs) (\<lambda>g.
     Option.bind (dec_field ''attachments'' (\<lambda>_. dec_slice dec_attachment zero_attachment)
                    (dm_attachments d) fs) (\<lambda>as.
     Some \<lparr>dm_timestamp = t, dm_message = m, dm_quote = q, dm_group = g, dm_attachments = as\<rparr>))))))"

definition dec_envelope :: "receive_envelope decoder" where
  "dec_envelope = dec_struct (\<lambda>fs e.
     Option.bind (dec_field ''source'' dec_string (en_source e) fs) (\<lambda>s.
     Option.bind (dec_field ''sourceNumber'' dec_string (en_number e) fs) (\<lambda>n.
     Option.bind (dec_field ''sourceUuid'' dec_string (en_uuid e) fs) (\<lambda>u.
     Option.bind (dec_field ''timestamp'' dec_int64 (en_timestamp e) fs) (\<lambda>t.
     Option.bind (dec_field ''dataMessage'' (dec_ptr zero_data_msg dec_data_msg) (en_data e) fs) (\<lambda>d.
     Some \<lparr>en_source = s, en_number = n, en_uuid = u, en_timestamp = t, en_data = d\<rparr>))))))"

definition dec_line :: "receive_envelope option decoder" where
  "dec_line = dec_struct (\<lambda>fs l. dec_field ''envelope'' (dec_ptr zero_envelope dec_envelope) l fs)"

definition dec_wrapped :: "receive_envelope option option decoder" where
  "dec_wrapped = dec_struct (\<lambda>fs w. dec_field ''result'' (dec_ptr None dec_line) w fs)"

text \<open>
  \<open>json.Marshal\<close> of a \<open>receiveLine\<close>. A nil slice is written \<open>null\<close> and an empty one \<open>[]\<close>; both are
  the empty list here, and both are read as that.
\<close>

definition enc_ptr :: "('a \<Rightarrow> json) \<Rightarrow> 'a option \<Rightarrow> json" where
  "enc_ptr f p = (case p of None \<Rightarrow> JNull | Some x \<Rightarrow> f x)"

definition enc_attachment :: "receive_attachment \<Rightarrow> json" where
  "enc_attachment a = JObj [(''filename'', JStr (at_filename a)), (''caption'', JStr (at_caption a)),
     (''contentType'', JStr (at_content_type a)), (''id'', JStr (at_id a))]"

definition enc_data_msg :: "receive_data_msg \<Rightarrow> json" where
  "enc_data_msg d = JObj [(''timestamp'', JNum (dec_int (dm_timestamp d))),
     (''message'', JStr (dm_message d)),
     (''quote'', enc_ptr (\<lambda>i. JObj [(''id'', JNum (dec_int i))]) (dm_quote d)),
     (''groupInfo'', enc_ptr (\<lambda>g. JObj [(''groupId'', JStr g)]) (dm_group d)),
     (''attachments'', if dm_attachments d = [] then JNull else JArr (map enc_attachment (dm_attachments d)))]"

definition enc_envelope :: "receive_envelope \<Rightarrow> json" where
  "enc_envelope e = JObj [(''source'', JStr (en_source e)), (''sourceNumber'', JStr (en_number e)),
     (''sourceUuid'', JStr (en_uuid e)), (''timestamp'', JNum (dec_int (en_timestamp e))),
     (''dataMessage'', enc_ptr enc_data_msg (en_data e))]"

definition enc_line :: "receive_envelope option \<Rightarrow> json" where
  "enc_line l = JObj [(''envelope'', enc_ptr enc_envelope l)]"

section \<open>The message\<close>

fun first_non_empty :: "string list \<Rightarrow> string" where
  "first_non_empty [] = []"
| "first_non_empty (v # vs) = (if trim_space v \<noteq> [] then v else first_non_empty vs)"

definition resolve_attachment_path :: "string \<Rightarrow> string \<Rightarrow> string" where
  "resolve_attachment_path path config_dir =
     (let path = trim_space path
      in if path = [] then []
         else if path_is_abs path \<or> config_dir = [] then path
         else path_join [config_dir, path])"

definition attachment_caption :: "receive_attachment \<Rightarrow> string" where
  "attachment_caption a =
     (let caption = trim_space (at_caption a);
          caption = (if caption = [] then
                       (let filename = trim_space (at_filename a)
                        in if filename \<noteq> [] then path_base filename else caption)
                     else caption)
      in if caption = [] then first_non_empty [at_content_type a, at_id a, ''attachment'']
         else caption)"

definition format_attachment_text :: "receive_attachment list \<Rightarrow> string \<Rightarrow> string" where
  "format_attachment_text as config_dir =
     (if as = [] then []
      else join [CHR 0x0A] (map (\<lambda>a. attachment_text (attachment_caption a)
                                    (resolve_attachment_path (at_filename a) config_dir)) as))"

definition message_body :: "receive_data_msg \<Rightarrow> string \<Rightarrow> string" where
  "message_body d config_dir =
     (let txt = trim_space (dm_message d);
          att = format_attachment_text (dm_attachments d) config_dir
      in if att \<noteq> [] then (if txt \<noteq> [] then txt @ [CHR 0x0A] else txt) @ att else txt)"

definition message_of_envelope :: "receive_envelope option \<Rightarrow> string \<Rightarrow> message option" where
  "message_of_envelope l config_dir =
     (case l of None \<Rightarrow> None | Some env \<Rightarrow>
      case en_data env of None \<Rightarrow> None | Some d \<Rightarrow>
        (let sender = first_non_empty [en_number env, en_uuid env, en_source env]
         in if sender = [] then None
         else let conv = (case dm_group d of None \<Rightarrow> sender
                          | Some g \<Rightarrow> if g \<noteq> [] then group_prefix @ g else sender);
                  txt = message_body d config_dir
              in if txt = [] then None
              else let ts = (if dm_timestamp d \<noteq> 0 then dm_timestamp d else en_timestamp env)
                   in Some \<lparr>conversation_id = conv, sender_id = sender, msg_text = txt,
                        message_id = (if ts \<noteq> 0 then dec_int ts else []),
                        reply_to_id = (case dm_quote d of None \<Rightarrow> []
                                       | Some q \<Rightarrow> if q \<noteq> 0 then dec_int q else [])\<rparr>))"

datatype decode_failure = BadPayload | BadWrapped

text \<open>The JSON of the parameters is \<open>None\<close> when the notification has none.\<close>

definition decode_receive_message :: "json option \<Rightarrow> string \<Rightarrow> decode_failure + message option" where
  "decode_receive_message payload config_dir =
     (case Option.bind payload (dec_line None) of
        None \<Rightarrow> Inl BadPayload
      | Some l \<Rightarrow> Inr (message_of_envelope l config_dir))"

definition decode_receive_notification ::
    "json option \<Rightarrow> string \<Rightarrow> decode_failure + message option" where
  "decode_receive_notification ps config_dir =
     (case decode_receive_message ps config_dir of
        Inl e \<Rightarrow> Inl e
      | Inr (Some m) \<Rightarrow> Inr (Some m)
      | Inr None \<Rightarrow>
          (case Option.bind ps (dec_wrapped None) of
             None \<Rightarrow> Inl BadWrapped
           | Some None \<Rightarrow> Inr None
           | Some (Some l) \<Rightarrow> decode_receive_message (Some (enc_line l)) config_dir))"

section \<open>Reading back what was written\<close>

lemma signal_fold_names [simp]:
  "fold_name ''filename'' = ''FILENAME''" "fold_name ''caption'' = ''CAPTION''"
  "fold_name ''contentType'' = ''CONTENTTYPE''" "fold_name ''id'' = ''ID''"
  "fold_name ''timestamp'' = ''TIMESTAMP''" "fold_name ''message'' = ''MESSAGE''"
  "fold_name ''quote'' = ''QUOTE''" "fold_name ''groupInfo'' = ''GROUPINFO''"
  "fold_name ''groupId'' = ''GROUPID''" "fold_name ''attachments'' = ''ATTACHMENTS''"
  "fold_name ''source'' = ''SOURCE''" "fold_name ''sourceNumber'' = ''SOURCENUMBER''"
  "fold_name ''sourceUuid'' = ''SOURCEUUID''" "fold_name ''dataMessage'' = ''DATAMESSAGE''"
  "fold_name ''envelope'' = ''ENVELOPE''" "fold_name ''result'' = ''RESULT''"
  by code_simp+

text \<open>The numbers of a decoded struct fit into 64 bits, so writing and reading them is lossless.\<close>

definition int64 :: "int \<Rightarrow> bool" where "int64 i \<longleftrightarrow> - (2 ^ 63) \<le> i \<and> i < 2 ^ 63"

definition data_ok :: "receive_data_msg \<Rightarrow> bool" where
  "data_ok d \<longleftrightarrow> int64 (dm_timestamp d) \<and> pred_option int64 (dm_quote d)"

definition envelope_ok :: "receive_envelope \<Rightarrow> bool" where
  "envelope_ok e \<longleftrightarrow> int64 (en_timestamp e) \<and> pred_option data_ok (en_data e)"

text \<open>A decoder that keeps a predicate of the value it decodes into.\<close>

definition keeps :: "('a \<Rightarrow> bool) \<Rightarrow> 'a decoder \<Rightarrow> bool" where
  "keeps P d \<longleftrightarrow> (\<forall>x v y. d x v = Some y \<longrightarrow> P x \<longrightarrow> P y)"

lemma keepsD: "keeps P d \<Longrightarrow> d x v = Some y \<Longrightarrow> P x \<Longrightarrow> P y"
  by (simp add: keeps_def)

lemma keeps_field:
  assumes "keeps P d"
  shows "dec_field name d x fs = Some y \<Longrightarrow> P x \<Longrightarrow> P y"
proof -
  have "fold_dec d x vs = Some y \<Longrightarrow> P x \<Longrightarrow> P y" for vs
    using assms by (induction vs arbitrary: x) (auto simp: keeps_def split: option.splits)
  then show "dec_field name d x fs = Some y \<Longrightarrow> P x \<Longrightarrow> P y" by (simp add: dec_field_def)
qed

lemma keeps_ptr:
  assumes "keeps P d" "P zero"
  shows "keeps (pred_option P) (dec_ptr zero d)"
  unfolding keeps_def
proof (intro allI impI)
  fix p v q
  assume q: "dec_ptr zero d p v = Some q" and p: "pred_option P p"
  let ?x = "case p of None \<Rightarrow> zero | Some x \<Rightarrow> x"
  have x: "P ?x" using p assms(2) by (cases p) auto
  show "pred_option P q"
  proof (cases "v = JNull")
    case False
    then have "dec_ptr zero d p v = (case d ?x v of None \<Rightarrow> None | Some x \<Rightarrow> Some (Some x))"
      by (cases v) simp_all
    with q obtain y where "d ?x v = Some y" "q = Some y" by (auto split: option.splits)
    with keepsD [OF assms(1) _ x] show ?thesis by simp
  qed (use q in simp)
qed

lemma keeps_struct:
  assumes "\<And>fs x y. f fs x = Some y \<Longrightarrow> P x \<Longrightarrow> P y"
  shows "keeps P (dec_struct f)"
  unfolding keeps_def
proof (intro allI impI)
  fix x v y
  assume "dec_struct f x v = Some y" "P x"
  then show "P y" using assms by (cases v) auto
qed

lemma int64_0 [simp]: "int64 0" by (simp add: int64_def)

lemma keeps_int64: "keeps int64 dec_int64"
  unfolding keeps_def
proof (intro allI impI)
  fix i v j
  assume "dec_int64 i v = Some j" "int64 i"
  then show "int64 j"
    by (cases v) (auto simp: int64_def parse_int64_def Let_def split: if_splits option.splits prod.splits)
qed

lemma keeps_quote: "keeps int64 dec_quote"
  unfolding dec_quote_def by (rule keeps_struct) (rule keeps_field [OF keeps_int64])

lemma keeps_data: "keeps data_ok dec_data_msg"
  unfolding dec_data_msg_def
  by (rule keeps_struct)
     (auto simp: bind_eq_Some_conv data_ok_def
        dest: keeps_field [OF keeps_int64] keeps_field [OF keeps_ptr [OF keeps_quote int64_0]])

lemma keeps_envelope: "keeps envelope_ok dec_envelope"
proof -
  have "data_ok zero_data_msg" by (simp add: zero_data_msg_def data_ok_def)
  then show ?thesis
    unfolding dec_envelope_def
    by (intro keeps_struct)
       (auto simp: bind_eq_Some_conv envelope_ok_def
          dest: keeps_field [OF keeps_int64] keeps_field [OF keeps_ptr [OF keeps_data]])
qed

lemma dec_line_ok:
  assumes "dec_line None v = Some l"
  shows "pred_option envelope_ok l"
proof -
  have "envelope_ok zero_envelope" by (simp add: zero_envelope_def envelope_ok_def)
  from keeps_ptr [OF keeps_envelope this]
  have "keeps (pred_option envelope_ok) dec_line"
    unfolding dec_line_def by (intro keeps_struct) (rule keeps_field)
  from keepsD [OF this assms] show ?thesis by simp
qed

lemma obj_vals_Cons [simp]:
  "obj_vals n [] = []"
  "obj_vals n ((k, v) # fs) = (if fold_name k = fold_name n then v # obj_vals n fs else obj_vals n fs)"
  by (simp_all add: obj_vals_def)

lemma dec_int64_int: "int64 i \<Longrightarrow> dec_int64 j (JNum (dec_int i)) = Some i"
  by (simp add: int64_def parse_dec_int)

lemma dec_ptr_enc:
  assumes "\<And>x. p = Some x \<Longrightarrow> f x \<noteq> JNull \<and> d zero (f x) = Some x"
  shows "dec_ptr zero d None (enc_ptr f p) = Some p"
proof (cases p)
  case (Some x)
  then show ?thesis using assms [OF Some] by (cases "f x") (simp_all add: enc_ptr_def)
qed (simp add: enc_ptr_def)

lemma dec_enc_attachment: "dec_attachment zero_attachment (enc_attachment a) = Some a"
  by (simp add: dec_attachment_def enc_attachment_def dec_field_def)

lemma dec_enc_attachments:
  "dec_list dec_attachment zero_attachment (map enc_attachment as) = Some as"
  by (induction as) (simp_all add: dec_enc_attachment)

lemma dec_enc_data:
  assumes "data_ok d"
  shows "dec_data_msg zero_data_msg (enc_data_msg d) = Some d"
proof -
  have q: "dec_ptr 0 dec_quote None (enc_ptr (\<lambda>i. JObj [(''id'', JNum (dec_int i))]) (dm_quote d)) = Some (dm_quote d)"
    by (rule dec_ptr_enc) (use assms in \<open>simp add: dec_quote_def dec_field_def dec_int64_int data_ok_def del: dec_int64.simps\<close>)
  have g: "dec_ptr [] dec_group None (enc_ptr (\<lambda>g. JObj [(''groupId'', JStr g)]) (dm_group d)) = Some (dm_group d)"
    by (rule dec_ptr_enc) (simp add: dec_group_def dec_field_def)
  have t: "dec_int64 j (JNum (dec_int (dm_timestamp d))) = Some (dm_timestamp d)" for j
    using assms by (intro dec_int64_int) (simp add: data_ok_def)
  show ?thesis
    by (simp add: dec_data_msg_def enc_data_msg_def dec_field_def zero_data_msg_def q g t
        dec_enc_attachments del: dec_int64.simps)
qed

lemma dec_enc_envelope:
  assumes "envelope_ok e"
  shows "dec_envelope zero_envelope (enc_envelope e) = Some e"
proof -
  have d: "dec_ptr zero_data_msg dec_data_msg None (enc_ptr enc_data_msg (en_data e)) = Some (en_data e)"
    by (rule dec_ptr_enc)
       (use assms in \<open>simp add: envelope_ok_def dec_enc_data, simp add: enc_data_msg_def\<close>)
  have t: "dec_int64 j (JNum (dec_int (en_timestamp e))) = Some (en_timestamp e)" for j
    using assms by (intro dec_int64_int) (simp add: envelope_ok_def)
  show ?thesis
    by (simp add: dec_envelope_def enc_envelope_def dec_field_def zero_envelope_def d t
        del: dec_int64.simps)
qed

lemma dec_enc_line:
  assumes "pred_option envelope_ok l"
  shows "dec_line None (enc_line l) = Some l"
proof -
  have "dec_ptr zero_envelope dec_envelope None (enc_ptr enc_envelope l) = Some l"
    by (rule dec_ptr_enc) (use assms in \<open>simp add: dec_enc_envelope, simp add: enc_envelope_def\<close>)
  then show ?thesis by (simp add: dec_line_def enc_line_def dec_field_def)
qed

section \<open>Properties\<close>

lemma dec_wrapped_result:
  "dec_wrapped None (JObj [(''result'', v)]) =
     (if v = JNull then Some None
      else case dec_line None v of None \<Rightarrow> None | Some l \<Rightarrow> Some (Some l))"
  by (cases v) (simp_all add: dec_wrapped_def dec_field_def split: option.splits)

lemma plain_wrapped_empty: "decode_receive_message (Some (JObj [(''result'', v)])) dir = Inr None"
  by (simp add: decode_receive_message_def dec_line_def dec_field_def message_of_envelope_def)


text \<open>Every message that is handed on names its sender and has a text.\<close>

lemma first_non_empty_in: "first_non_empty vs \<noteq> [] \<Longrightarrow> first_non_empty vs \<in> set vs"
  by (induction vs) auto

lemma decoded_message_ok:
  "message_of_envelope l dir = Some m \<Longrightarrow> sender_id m \<noteq> [] \<and> msg_text m \<noteq> []"
  by (auto simp: message_of_envelope_def Let_def split: option.splits if_splits)

text \<open>A reply to a decoded message goes to its group, or to its sender if it came from no group.\<close>

lemma parse_group_append: "g \<noteq> [] \<Longrightarrow> parse_group_conversation_id (group_prefix @ g) = (g, True)"
  by (simp add: parse_group_conversation_id_def)

lemma parse_group_other: "\<not> has_prefix c group_prefix \<Longrightarrow> snd (parse_group_conversation_id c) = False"
  by (simp add: parse_group_conversation_id_def cut_prefix_def)

lemma message_conversation:
  assumes "message_of_envelope (Some env) dir = Some m" "en_data env = Some d"
  shows "conversation_id m =
    (case dm_group d of None \<Rightarrow> sender_id m | Some g \<Rightarrow> if g \<noteq> [] then group_prefix @ g else sender_id m)"
  using assms
  by (cases "dm_group d") (auto simp: message_of_envelope_def Let_def split: if_splits)

lemma reply_address:
  assumes "message_of_envelope (Some env) dir = Some m" "en_data env = Some d"
    "\<not> has_prefix (sender_id m) group_prefix"
  shows "add_recipient_params [] (conversation_id m) =
    (case dm_group d of
       None \<Rightarrow> [(''recipient'', JArr [JStr (sender_id m)])]
     | Some g \<Rightarrow> if g \<noteq> [] then [(''groupId'', JStr g)]
                 else [(''recipient'', JArr [JStr (sender_id m)])])"
proof -
  have r: "add_recipient_params [] (sender_id m) = [(''recipient'', JArr [JStr (sender_id m)])]"
    using parse_group_other [OF assms(3)]
    by (cases "parse_group_conversation_id (sender_id m)") (simp add: add_recipient_params_def)
  have g: "add_recipient_params [] (group_prefix @ g) = [(''groupId'', JStr g)]" if "g \<noteq> []" for g
    using parse_group_append [OF that] by (simp add: add_recipient_params_def)
  show ?thesis
    using message_conversation [OF assms(1,2)] r g by (cases "dm_group d") simp_all
qed

end
