(* ===== verification/Signal_Rpc.thy ===== *)
theory Signal_Rpc
  imports Signal_Decode "HOL-Library.Word"
begin

text \<open>
  The JSON-RPC client of the Signal transport (\<open>signal/rpc.go\<close>): calls made by several goroutines,
  the goroutine that reads the connection, and the channels between them. The state changes by one
  atomic step at a time; a list of steps is one interleaving, and a step that is not enabled changes
  nothing.
\<close>

section \<open>Messages\<close>

record rpc_error =
  re_code :: int
  re_message :: string
  re_data :: "json option"

record rpc_envelope =
  rm_method :: string
  rm_params :: "json option"
  rm_id :: "json option"
  rm_result :: "json option"
  rm_error :: "rpc_error option"

record notification =
  no_method :: string
  no_params :: "json option"

datatype response = Answer "json option" "rpc_error option" | Dropped string

record rpc_request =
  rq_method :: string
  rq_params :: params
  rq_id :: string

definition dec_rpc_error :: "rpc_error decoder" where
  "dec_rpc_error = dec_struct (\<lambda>fs e.
     Option.bind (dec_field ''code'' dec_int64 (re_code e) fs) (\<lambda>c.
     Option.bind (dec_field ''message'' dec_string (re_message e) fs) (\<lambda>m.
     Option.bind (dec_field ''data'' dec_raw (re_data e) fs) (\<lambda>d.
     Some \<lparr>re_code = c, re_message = m, re_data = d\<rparr>))))"

definition dec_rpc_envelope :: "json \<Rightarrow> rpc_envelope option" where
  "dec_rpc_envelope = dec_struct (\<lambda>fs e.
     Option.bind (dec_field ''method'' dec_string (rm_method e) fs) (\<lambda>m.
     Option.bind (dec_field ''params'' dec_raw (rm_params e) fs) (\<lambda>p.
     Option.bind (dec_field ''id'' dec_raw (rm_id e) fs) (\<lambda>i.
     Option.bind (dec_field ''result'' dec_raw (rm_result e) fs) (\<lambda>r.
     Option.bind (dec_field ''error''
         (dec_ptr \<lparr>re_code = 0, re_message = [], re_data = None\<rparr> dec_rpc_error) (rm_error e) fs) (\<lambda>er.
     Some \<lparr>rm_method = m, rm_params = p, rm_id = i, rm_result = r, rm_error = er\<rparr>))))))
     \<lparr>rm_method = [], rm_params = None, rm_id = None, rm_result = None, rm_error = None\<rparr>"

text \<open>A string, or the literal of a number; \<open>null\<close> decodes into the empty string.\<close>

definition normalize_id :: "json option \<Rightarrow> string" where
  "normalize_id raw = (case raw of Some (JStr s) \<Rightarrow> s | Some (JNum l) \<Rightarrow> l | _ \<Rightarrow> [])"

section \<open>The client\<close>

text \<open>
  Calls are numbered; call \<open>c\<close> owns the response channel \<open>c\<close>, whose buffer holds one response. A
  call is \<open>Registered\<close> while it is to be written, \<open>Waiting\<close> while it is in its \<open>select\<close>, and
  \<open>Returned\<close> with its result.
\<close>

datatype call_result =
    Got "json option"
  | RpcFailed int string
  | StreamEnded string
  | SendFailed string
  | Expired string
  | ConnClosed

datatype call_pc =
    NotMade
  | Registered rpc_request
  | Waiting string
  | Returned string call_result

record rpc_client =
  cl_next :: "64 word"
  cl_pending :: "(string \<times> nat) list"
  cl_chan :: "nat \<Rightarrow> response option"
  cl_calls :: "nat \<Rightarrow> call_pc"
  cl_sent :: "rpc_request list"
  cl_notes :: "notification list"
  cl_held :: "notification option"
  cl_jammed :: bool
  cl_err :: "string option"
  cl_done :: bool

definition note_capacity :: nat where "note_capacity = 128"

definition new_client :: rpc_client where
  "new_client = \<lparr>cl_next = 0, cl_pending = [], cl_chan = (\<lambda>_. None), cl_calls = (\<lambda>_. NotMade),
     cl_sent = [], cl_notes = [], cl_held = None, cl_jammed = False, cl_err = None, cl_done = False\<rparr>"

definition set_call :: "nat \<Rightarrow> call_pc \<Rightarrow> rpc_client \<Rightarrow> rpc_client" where
  "set_call c pc cl = cl\<lparr>cl_calls := (cl_calls cl)(c := pc)\<rparr>"

definition remove_pending :: "string \<Rightarrow> rpc_client \<Rightarrow> rpc_client" where
  "remove_pending i cl = cl\<lparr>cl_pending := filter (\<lambda>(j, c). j \<noteq> i) (cl_pending cl)\<rparr>"

text \<open>A send on a response channel; on a full one the sender would block.\<close>

definition send_response :: "nat \<Rightarrow> response \<Rightarrow> rpc_client \<Rightarrow> rpc_client" where
  "send_response c r cl =
     (case cl_chan cl c of
        None \<Rightarrow> cl\<lparr>cl_chan := (cl_chan cl)(c := Some r)\<rparr>
      | Some _ \<Rightarrow> cl\<lparr>cl_jammed := True\<rparr>)"

section \<open>A call\<close>

definition call_begin :: "nat \<Rightarrow> string \<Rightarrow> params \<Rightarrow> rpc_client \<Rightarrow> rpc_client" where
  "call_begin c meth ps cl =
     (let n = cl_next cl + 1;
          i = dec_nat (unat n)
      in set_call c (Registered \<lparr>rq_method = meth, rq_params = ps, rq_id = i\<rparr>)
           ((remove_pending i cl)\<lparr>cl_next := n,
              cl_pending := cl_pending (remove_pending i cl) @ [(i, c)]\<rparr>))"

definition call_write :: "nat \<Rightarrow> rpc_request \<Rightarrow> string option \<Rightarrow> rpc_client \<Rightarrow> rpc_client" where
  "call_write c req fault cl =
     (case fault of
        None \<Rightarrow> set_call c (Waiting (rq_id req)) (cl\<lparr>cl_sent := cl_sent cl @ [req]\<rparr>)
      | Some e \<Rightarrow> set_call c (Returned (rq_id req) (SendFailed e)) (remove_pending (rq_id req) cl))"

definition result_of :: "response \<Rightarrow> call_result" where
  "result_of r =
     (case r of
        Dropped e \<Rightarrow> StreamEnded e
      | Answer res (Some e) \<Rightarrow> RpcFailed (re_code e) (re_message e)
      | Answer res None \<Rightarrow> Got res)"

definition call_take :: "nat \<Rightarrow> string \<Rightarrow> response \<Rightarrow> rpc_client \<Rightarrow> rpc_client" where
  "call_take c i r cl =
     set_call c (Returned i (result_of r)) (cl\<lparr>cl_chan := (cl_chan cl)(c := None)\<rparr>)"

definition call_expire :: "nat \<Rightarrow> string \<Rightarrow> string \<Rightarrow> rpc_client \<Rightarrow> rpc_client" where
  "call_expire c i e cl = set_call c (Returned i (Expired e)) (remove_pending i cl)"

definition call_closed :: "nat \<Rightarrow> string \<Rightarrow> rpc_client \<Rightarrow> rpc_client" where
  "call_closed c i cl = set_call c (Returned i ConnClosed) cl"

section \<open>The reader\<close>

definition push_note :: "notification \<Rightarrow> rpc_client \<Rightarrow> rpc_client" where
  "push_note n cl =
     (if length (cl_notes cl) < note_capacity then cl\<lparr>cl_notes := cl_notes cl @ [n]\<rparr>
      else cl\<lparr>cl_held := Some n\<rparr>)"

text \<open>One line; \<open>None\<close> is a blank line or one that is no JSON.\<close>

definition read_line :: "json option \<Rightarrow> rpc_client \<Rightarrow> rpc_client" where
  "read_line line cl =
     (case Option.bind line dec_rpc_envelope of
        None \<Rightarrow> cl
      | Some m \<Rightarrow>
          (if rm_method m \<noteq> [] \<and> rm_id m = None
           then push_note \<lparr>no_method = rm_method m, no_params = rm_params m\<rparr> cl
           else let i = normalize_id (rm_id m)
                in if i = [] then cl
                else case map_of (cl_pending cl) i of
                       None \<Rightarrow> remove_pending i cl
                     | Some c \<Rightarrow> send_response c (Answer (rm_result m) (rm_error m)) (remove_pending i cl)))"

text \<open>
  The range over the pending map; its order is immaterial, since every entry has a channel of its own.
\<close>

definition fail_pending :: "string \<Rightarrow> rpc_client \<Rightarrow> rpc_client" where
  "fail_pending e cl =
     fold (\<lambda>(i, c) cl. remove_pending i (send_response c (Dropped e) cl)) (cl_pending cl) cl"

definition read_end :: "string option \<Rightarrow> rpc_client \<Rightarrow> rpc_client" where
  "read_end scan_err cl =
     (let e = (case scan_err of None \<Rightarrow> ''EOF'' | Some e \<Rightarrow> e);
          cl = fail_pending (''json-rpc read loop ended: '' @ e) cl
      in if cl_jammed cl then cl
         else cl\<lparr>cl_err := (if cl_err cl = None then Some e else cl_err cl), cl_done := True\<rparr>)"

text \<open>The receiver of notifications takes one, which lets a blocked reader go on.\<close>

definition take_note :: "rpc_client \<Rightarrow> rpc_client" where
  "take_note cl =
     (case cl_notes cl of
        [] \<Rightarrow> cl
      | n # ns \<Rightarrow>
          (case cl_held cl of
             None \<Rightarrow> cl\<lparr>cl_notes := ns\<rparr>
           | Some h \<Rightarrow> cl\<lparr>cl_notes := ns @ [h], cl_held := None\<rparr>))"

definition reader_ready :: "rpc_client \<Rightarrow> bool" where
  "reader_ready cl \<longleftrightarrow> \<not> cl_done cl \<and> cl_held cl = None \<and> \<not> cl_jammed cl"

section \<open>Runs\<close>

datatype rpc_op =
    Begin nat string params
  | Write nat "string option"
  | Take nat
  | Expire nat string
  | SeeDone nat
  | ReadLine "json option"
  | ReadEnd "string option"
  | TakeNote

fun rpc_step :: "rpc_op \<Rightarrow> rpc_client \<Rightarrow> rpc_client" where
  "rpc_step (Begin c meth ps) cl = (if cl_calls cl c = NotMade then call_begin c meth ps cl else cl)"
| "rpc_step (Write c fault) cl =
     (case cl_calls cl c of Registered req \<Rightarrow> call_write c req fault cl | _ \<Rightarrow> cl)"
| "rpc_step (Take c) cl =
     (case (cl_calls cl c, cl_chan cl c) of (Waiting i, Some r) \<Rightarrow> call_take c i r cl | _ \<Rightarrow> cl)"
| "rpc_step (Expire c e) cl = (case cl_calls cl c of Waiting i \<Rightarrow> call_expire c i e cl | _ \<Rightarrow> cl)"
| "rpc_step (SeeDone c) cl =
     (case cl_calls cl c of Waiting i \<Rightarrow> if cl_done cl then call_closed c i cl else cl | _ \<Rightarrow> cl)"
| "rpc_step (ReadLine line) cl = (if reader_ready cl then read_line line cl else cl)"
| "rpc_step (ReadEnd e) cl = (if reader_ready cl then read_end e cl else cl)"
| "rpc_step TakeNote cl = take_note cl"

fun rpc_run :: "rpc_op list \<Rightarrow> rpc_client \<Rightarrow> rpc_client" where
  "rpc_run [] cl = cl"
| "rpc_run (op # ops) cl = rpc_run ops (rpc_step op cl)"


section \<open>The invariant\<close>

fun call_id :: "call_pc \<Rightarrow> string option" where
  "call_id NotMade = None"
| "call_id (Registered req) = Some (rq_id req)"
| "call_id (Waiting i) = Some i"
| "call_id (Returned i r) = Some i"

text \<open>Some line read so far is a response with this id.\<close>

definition answered :: "json set \<Rightarrow> string \<Rightarrow> json option \<Rightarrow> rpc_error option \<Rightarrow> bool" where
  "answered L i res er \<longleftrightarrow>
     (\<exists>v m. v \<in> L \<and> dec_rpc_envelope v = Some m \<and> normalize_id (rm_id m) = i \<and>
        rm_result m = res \<and> rm_error m = er)"

definition ids_ok :: "rpc_client \<Rightarrow> bool" where
  "ids_ok cl \<longleftrightarrow>
     (\<forall>c i. call_id (cl_calls cl c) = Some i \<longrightarrow> (\<exists>n \<le> unat (cl_next cl). i = dec_nat n)) \<and>
     (\<forall>c d i. call_id (cl_calls cl c) = Some i \<longrightarrow> call_id (cl_calls cl d) = Some i \<longrightarrow> c = d)"

definition pending_ok :: "rpc_client \<Rightarrow> bool" where
  "pending_ok cl \<longleftrightarrow> distinct (map snd (cl_pending cl)) \<and>
     (\<forall>(i, c) \<in> set (cl_pending cl). call_id (cl_calls cl c) = Some i \<and> cl_chan cl c = None)"

definition answers_ok :: "json set \<Rightarrow> rpc_client \<Rightarrow> bool" where
  "answers_ok L cl \<longleftrightarrow>
     (\<forall>c r. cl_chan cl c = Some r \<longrightarrow>
        (\<exists>i. call_id (cl_calls cl c) = Some i \<and>
             (\<forall>res er. r = Answer res er \<longrightarrow> answered L i res er)))"

definition calls_ok :: "json set \<Rightarrow> rpc_client \<Rightarrow> bool" where
  "calls_ok L cl \<longleftrightarrow>
     (\<forall>c i. cl_calls cl c = Waiting i \<longrightarrow> i \<in> rq_id ` set (cl_sent cl)) \<and>
     (\<forall>c i res. cl_calls cl c = Returned i (Got res) \<longrightarrow>
        i \<in> rq_id ` set (cl_sent cl) \<and> answered L i res None)"

definition client_ok :: "json set \<Rightarrow> rpc_client \<Rightarrow> bool" where
  "client_ok L cl \<longleftrightarrow> ids_ok cl \<and> pending_ok cl \<and> answers_ok L cl \<and> calls_ok L cl \<and> \<not> cl_jammed cl"

lemmas client_ok_defs = client_ok_def ids_ok_def pending_ok_def answers_ok_def calls_ok_def

lemma answered_mono: "answered L i res er \<Longrightarrow> L \<subseteq> M \<Longrightarrow> answered M i res er"
  unfolding answered_def by blast

lemma client_ok_mono:
  assumes "client_ok L cl" "L \<subseteq> M"
  shows "client_ok M cl"
  using assms answered_mono [OF _ assms(2)] unfolding client_ok_def answers_ok_def calls_ok_def by metis

lemma new_client_ok: "client_ok {} new_client"
  by (simp add: client_ok_defs new_client_def)

lemma begin_ok:
  assumes ok: "client_ok L cl" and c: "cl_calls cl c = NotMade" and n: "unat (cl_next cl) < 2 ^ 64 - 1"
  shows "client_ok L (call_begin c meth ps cl)"
proof -
  have n1: "unat (cl_next cl + 1) = Suc (unat (cl_next cl))"
    using n by (simp add: unat_word_ariths)
  let ?cl = "call_begin c meth ps cl" and ?i = "dec_nat (Suc (unat (cl_next cl)))"
  have ids: "ids_ok cl" and p: "pending_ok cl" and ch: "answers_ok L cl" and cs: "calls_ok L cl" and j: "\<not> cl_jammed cl"
    using ok by (simp_all add: client_ok_def)
  have calls: "cl_calls ?cl = (cl_calls cl)(c := Registered \<lparr>rq_method = meth, rq_params = ps, rq_id = ?i\<rparr>)"
    "cl_next ?cl = cl_next cl + 1" "cl_chan ?cl = cl_chan cl" "cl_sent ?cl = cl_sent cl"
    "cl_jammed ?cl = cl_jammed cl" "cl_pending ?cl = cl_pending (remove_pending ?i cl) @ [(?i, c)]"
    by (simp_all add: call_begin_def set_call_def remove_pending_def Let_def n1)
  have new: "call_id (cl_calls cl d) \<noteq> Some ?i" for d
    using ids by (auto simp: ids_ok_def) (metis Suc_n_not_le_n dec_nat_inject)
  have "ids_ok ?cl"
    using ids new unfolding ids_ok_def calls n1 by (auto; meson le_SucI)
  moreover have chan: "cl_chan cl c = None"
    using ch c unfolding answers_ok_def by (metis call_id.simps(1) option.exhaust option.simps(3))
  then have "pending_ok ?cl"
    using p c unfolding pending_ok_def calls
    by (auto simp: remove_pending_def distinct_map inj_on_def)
  moreover have "answers_ok L ?cl" using ch chan unfolding answers_ok_def calls by auto
  moreover have "calls_ok L ?cl" using cs unfolding calls_ok_def calls by auto
  ultimately show ?thesis using j by (simp add: client_ok_def calls)
qed


text \<open>The fields a change of one call leaves alone.\<close>

lemma set_call_simps [simp]:
  "cl_calls (set_call c pc cl) = (cl_calls cl)(c := pc)" "cl_next (set_call c pc cl) = cl_next cl"
  "cl_chan (set_call c pc cl) = cl_chan cl" "cl_sent (set_call c pc cl) = cl_sent cl"
  "cl_jammed (set_call c pc cl) = cl_jammed cl" "cl_pending (set_call c pc cl) = cl_pending cl"
  by (simp_all add: set_call_def)

lemma remove_pending_simps [simp]:
  "cl_calls (remove_pending i cl) = cl_calls cl" "cl_next (remove_pending i cl) = cl_next cl"
  "cl_chan (remove_pending i cl) = cl_chan cl" "cl_sent (remove_pending i cl) = cl_sent cl"
  "cl_jammed (remove_pending i cl) = cl_jammed cl"
  "cl_pending (remove_pending i cl) = filter (\<lambda>(j, c). j \<noteq> i) (cl_pending cl)"
  by (simp_all add: remove_pending_def)

text \<open>A call moves on without changing its id; of the channels and the pending map nothing is added.\<close>

lemma move_ok:
  assumes ok: "client_ok L cl" and c: "call_id (cl_calls cl c) = Some i" "call_id pc = Some i"
    and f: "cl_calls cl' = (cl_calls cl)(c := pc)" "cl_next cl' = cl_next cl"
      "cl_pending cl' = filter P (cl_pending cl)" "\<And>d. cl_chan cl' d = None \<or> cl_chan cl' d = cl_chan cl d"
      "cl_sent cl' = cl_sent cl @ ts" "cl_jammed cl' = cl_jammed cl"
    and w: "pc = Waiting i \<Longrightarrow> i \<in> rq_id ` set (cl_sent cl')"
    and r: "\<And>res. pc = Returned i (Got res) \<Longrightarrow> i \<in> rq_id ` set (cl_sent cl') \<and> answered L i res None"
  shows "client_ok L cl'"
proof -
  have id: "call_id (cl_calls cl' d) = call_id (cl_calls cl d)" for d using c by (simp add: f(1))
  have "ids_ok cl'" using ok unfolding client_ok_def ids_ok_def id f(2) by blast
  moreover have "pending_ok cl'"
  proof -
    have none: "cl_chan cl d = None \<Longrightarrow> cl_chan cl' d = None" for d using f(4) [of d] by auto
    have "distinct (map snd (cl_pending cl'))"
      using ok unfolding client_ok_def pending_ok_def f(3) by (blast intro: distinct_map_filter)
    then show ?thesis
      using ok none unfolding client_ok_def pending_ok_def f(3) id by auto
  qed
  moreover have "answers_ok L cl'" unfolding answers_ok_def
  proof (intro allI impI)
    fix d x
    assume "cl_chan cl' d = Some x"
    with f(4) [of d] have "cl_chan cl d = Some x" by auto
    with ok show "\<exists>i. call_id (cl_calls cl' d) = Some i \<and> (\<forall>res er. x = Answer res er \<longrightarrow> answered L i res er)"
      unfolding client_ok_def answers_ok_def id by blast
  qed
  moreover have "calls_ok L cl'" unfolding calls_ok_def
  proof (intro conjI allI impI)
    have old: "calls_ok L cl" using ok by (simp add: client_ok_def)
    have sent: "rq_id ` set (cl_sent cl) \<subseteq> rq_id ` set (cl_sent cl')" by (auto simp: f(5))
    show "j \<in> rq_id ` set (cl_sent cl')" if "cl_calls cl' d = Waiting j" for d j
    proof (cases "d = c")
      case True
      with that c(2) have "pc = Waiting i" by (simp add: f(1))
      with w that True show ?thesis by (simp add: f(1))
    next
      case False
      with that old sent show ?thesis by (auto simp: f(1) calls_ok_def)
    qed
    show "j \<in> rq_id ` set (cl_sent cl')" "answered L j res None"
      if "cl_calls cl' d = Returned j (Got res)" for d j res
    proof -
      have "j \<in> rq_id ` set (cl_sent cl') \<and> answered L j res None"
      proof (cases "d = c")
        case True
        with that c(2) have "pc = Returned i (Got res)" "j = i" by (simp_all add: f(1))
        with r show ?thesis by simp
      next
        case False
        with that have "cl_calls cl d = Returned j (Got res)" by (simp add: f(1))
        with old sent show ?thesis unfolding calls_ok_def by blast
      qed
      then show "j \<in> rq_id ` set (cl_sent cl')" "answered L j res None" by auto
    qed
  qed
  ultimately show ?thesis using ok by (simp add: client_ok_def f(6))
qed

lemma write_ok:
  assumes ok: "client_ok L cl" and c: "cl_calls cl c = Registered req"
  shows "client_ok L (call_write c req fault cl)"
proof (cases fault)
  case None
  show ?thesis
    by (rule move_ok [OF ok, of c "rq_id req" "Waiting (rq_id req)" _ "\<lambda>_. True" "[req]"])
       (simp_all add: call_write_def None c)
next
  case (Some e)
  show ?thesis
    by (rule move_ok [OF ok, of c "rq_id req" "Returned (rq_id req) (SendFailed e)" _
          "\<lambda>(j, c). j \<noteq> rq_id req" "[]"])
       (simp_all add: call_write_def Some c)
qed

lemma take_ok:
  assumes ok: "client_ok L cl" and c: "cl_calls cl c = Waiting i" "cl_chan cl c = Some r"
  shows "client_ok L (call_take c i r cl)"
proof (rule move_ok [OF ok, of c i "Returned i (result_of r)" _ "\<lambda>_. True" "[]"])
  fix res
  assume "Returned i (result_of r) = Returned i (Got res)"
  then have r: "r = Answer res None" by (auto simp: result_of_def split: response.splits option.splits)
  have "answers_ok L cl" "calls_ok L cl" using ok by (simp_all add: client_ok_def)
  with c r show "i \<in> rq_id ` set (cl_sent (call_take c i r cl)) \<and> answered L i res None"
    unfolding answers_ok_def calls_ok_def by (fastforce simp: call_take_def)
qed (simp_all add: call_take_def c)

lemma leave_ok:
  assumes ok: "client_ok L cl" and c: "cl_calls cl c = Waiting i"
  shows "client_ok L (call_expire c i e cl)" "client_ok L (call_closed c i cl)"
proof -
  show "client_ok L (call_expire c i e cl)"
    by (rule move_ok [OF ok, of c i "Returned i (Expired e)" _ "\<lambda>(j, c). j \<noteq> i" "[]"])
       (simp_all add: call_expire_def c)
  show "client_ok L (call_closed c i cl)"
    by (rule move_ok [OF ok, of c i "Returned i ConnClosed" _ "\<lambda>_. True" "[]"])
       (simp_all add: call_closed_def c)
qed

text \<open>The reader delivers to a channel that is empty, and takes the entry out of the pending map.\<close>

lemma deliver_ok:
  assumes ok: "client_ok L cl" and p: "(i, c) \<in> set (cl_pending cl)"
    and a: "\<And>res er. r = Answer res er \<Longrightarrow> answered L i res er"
  shows "client_ok L (remove_pending i (send_response c r cl))"
    "cl_pending (send_response c r cl) = cl_pending cl"
proof -
  have chan: "cl_chan cl c = None" and id: "call_id (cl_calls cl c) = Some i"
    using ok p by (auto simp: client_ok_def pending_ok_def)
  then have s: "send_response c r cl = cl\<lparr>cl_chan := (cl_chan cl)(c := Some r)\<rparr>"
    by (simp add: send_response_def)
  then show "cl_pending (send_response c r cl) = cl_pending cl" by simp
  let ?cl = "remove_pending i (send_response c r cl)"
  have others: "d \<noteq> c" if "(j, d) \<in> set (cl_pending cl)" "j \<noteq> i" for j d
    using that id ok by (auto simp: client_ok_def pending_ok_def)
  have "pending_ok ?cl"
    using ok others unfolding client_ok_def pending_ok_def by (auto simp: s intro: distinct_map_filter)
  moreover have "answers_ok L ?cl" using ok id a unfolding client_ok_def answers_ok_def by (auto simp: s)
  ultimately show "client_ok L ?cl" using ok by (simp add: client_ok_def ids_ok_def calls_ok_def s)
qed

lemma send_remove: "remove_pending i (send_response c r cl) = send_response c r (remove_pending i cl)"
  by (simp add: remove_pending_def send_response_def split: option.splits)

lemma read_line_ok:
  assumes ok: "client_ok L cl"
  shows "client_ok (L \<union> set_option line) (read_line line cl)"
proof (cases "Option.bind line dec_rpc_envelope")
  case None
  then show ?thesis by (simp add: read_line_def client_ok_mono [OF ok])
next
  case (Some m)
  then obtain v where v: "line = Some v" "dec_rpc_envelope v = Some m" by (cases line) auto
  let ?L = "L \<union> set_option line" and ?i = "normalize_id (rm_id m)"
  have okL: "client_ok ?L cl" by (rule client_ok_mono [OF ok]) simp
  have removed: "client_ok ?L (remove_pending i cl)" if "map_of (cl_pending cl) i = None" for i
  proof -
    have "filter (\<lambda>(j, c). j \<noteq> i) (cl_pending cl) = cl_pending cl"
      using that by (force simp: filter_id_conv map_of_eq_None_iff)
    with okL show ?thesis by (simp add: remove_pending_def)
  qed
  have noted: "client_ok ?L (push_note n cl)" for n
    using okL by (simp add: push_note_def client_ok_defs)
  have "client_ok ?L (send_response c (Answer (rm_result m) (rm_error m)) (remove_pending ?i cl))"
    if "map_of (cl_pending cl) ?i = Some c" for c
  proof -
    have "answered ?L ?i (rm_result m) (rm_error m)" using v unfolding answered_def by auto
    then show ?thesis
      unfolding send_remove [symmetric] by (intro deliver_ok(1) [OF okL map_of_SomeD [OF that]]) simp
  qed
  then show ?thesis
    using okL noted removed by (auto simp: read_line_def Some Let_def split: option.splits)
qed

lemma fail_pending_ok:
  assumes "client_ok L cl"
  shows "client_ok L (fail_pending e cl) \<and> cl_pending (fail_pending e cl) = []"
proof -
  let ?f = "\<lambda>(i, c) cl. remove_pending i (send_response c (Dropped e) cl)"
  have "client_ok L cl \<Longrightarrow> cl_pending cl = ps \<Longrightarrow> client_ok L (fold ?f ps cl) \<and> cl_pending (fold ?f ps cl) = []" for ps
  proof (induction ps arbitrary: cl)
    case (Cons p ps)
    obtain i c where p: "p = (i, c)" by (cases p)
    note d = deliver_ok [OF Cons.prems(1), of i c "Dropped e"]
    have "filter (\<lambda>(j, d). j \<noteq> i) ps = ps"
    proof -
      have "j \<noteq> i" if "(j, d) \<in> set ps" for j d
      proof
        assume "j = i"
        with that Cons.prems p have "call_id (cl_calls cl d) = Some i" "call_id (cl_calls cl c) = Some i"
          by (auto simp: client_ok_def pending_ok_def)
        then have "c = d" using Cons.prems(1) by (auto simp: client_ok_def ids_ok_def)
        with that Cons.prems p show False
          by (force simp: client_ok_def pending_ok_def)
      qed
      then show ?thesis by (auto simp: filter_id_conv)
    qed
    with d Cons.prems p Cons.IH [of "?f p cl"] show ?case by simp
  qed simp
  then show ?thesis using assms by (simp add: fail_pending_def)
qed


lemma read_end_ok:
  assumes "client_ok L cl"
  shows "client_ok L (read_end e cl)"
proof -
  have "client_ok L (fail_pending x cl)" for x using fail_pending_ok [OF assms] by simp
  moreover have "client_ok L (cl\<lparr>cl_err := x, cl_done := True\<rparr>) = client_ok L cl" for x cl
    by (simp add: client_ok_defs)
  ultimately show ?thesis unfolding read_end_def Let_def by simp
qed

fun line_read :: "rpc_op \<Rightarrow> json set" where
  "line_read (ReadLine (Some v)) = {v}"
| "line_read _ = {}"

lemma step_ok:
  assumes ok: "client_ok L cl" and n: "unat (cl_next cl) < 2 ^ 64 - 1"
  shows "client_ok (L \<union> line_read op) (rpc_step op cl)"
proof -
  have same: "client_ok (L \<union> M) cl" for M by (rule client_ok_mono [OF ok]) simp
  show ?thesis
  proof (cases op)
    case (Begin c meth ps)
    then show ?thesis using ok begin_ok [OF ok _ n] by simp
  next
    case (Write c fault)
    then show ?thesis using ok write_ok [OF ok] by (simp split: call_pc.splits)
  next
    case (Take c)
    then show ?thesis using ok take_ok [OF ok] by (simp split: call_pc.splits option.splits)
  next
    case (Expire c e)
    then show ?thesis using ok leave_ok [OF ok] by (simp split: call_pc.splits)
  next
    case (SeeDone c)
    then show ?thesis using ok leave_ok [OF ok] by (simp split: call_pc.splits)
  next
    case (ReadLine line)
    then show ?thesis using same [of "set_option line"] read_line_ok [OF ok, of line] by (cases line) simp_all
  next
    case (ReadEnd e)
    then show ?thesis using ok read_end_ok [OF ok] by simp
  next
    case TakeNote
    have "client_ok L (take_note cl)"
      using ok by (simp add: take_note_def client_ok_defs split: list.splits option.splits)
    with TakeNote show ?thesis by simp
  qed
qed

lemma fail_pending_next: "cl_next (fail_pending e cl) = cl_next cl"
proof -
  let ?f = "\<lambda>(i, c) cl. remove_pending i (send_response c (Dropped e) cl)"
  have "cl_next (fold ?f ps cl) = cl_next cl" for ps
    by (induction ps arbitrary: cl) (auto simp: send_response_def split: option.splits)
  then show ?thesis by (simp add: fail_pending_def)
qed

lemma step_next:
  assumes "unat (cl_next cl) \<le> k" "k < 2 ^ 64 - 1"
  shows "unat (cl_next (rpc_step op cl)) \<le> Suc k"
proof -
  have "unat (cl_next cl + 1) \<le> Suc k" using assms by (simp add: unat_word_ariths)
  then show ?thesis
    using assms fail_pending_next
    by (cases op) (auto simp: call_begin_def call_write_def call_take_def call_expire_def call_closed_def
        read_line_def push_note_def send_response_def read_end_def take_note_def Let_def
        split: call_pc.splits option.splits list.splits)
qed

lemma run_ok:
  "client_ok L cl \<Longrightarrow> unat (cl_next cl) \<le> k \<Longrightarrow> k + length ops < 2 ^ 64 \<Longrightarrow>
   client_ok (L \<union> \<Union> (line_read ` set ops)) (rpc_run ops cl)"
proof (induction ops arbitrary: L cl k)
  case (Cons op ops)
  have "client_ok (L \<union> line_read op) (rpc_step op cl)"
    by (rule step_ok [OF Cons.prems(1)]) (use Cons.prems in simp)
  moreover have "unat (cl_next (rpc_step op cl)) \<le> Suc k"
    by (rule step_next [OF Cons.prems(2)]) (use Cons.prems in simp)
  ultimately show ?case
    using Cons.IH [of "L \<union> line_read op" "rpc_step op cl" "Suc k"] Cons.prems(3)
    by (simp add: Un_assoc)
qed simp

lemma client_run_ok:
  assumes "length ops < 2 ^ 64"
  shows "client_ok (\<Union> (line_read ` set ops)) (rpc_run ops new_client)"
  using run_ok [OF new_client_ok, of 0 ops] assms by (simp add: new_client_def)

lemma line_read_mem: "v \<in> line_read op \<Longrightarrow> op = ReadLine (Some v)"
  by (cases op rule: line_read.cases) auto

section \<open>Properties\<close>

text \<open>
  C36. Every result that reaches a caller is the answer to the caller's own request: the request was
  written, a line with its id was read and carried that result, and no other call has the id. The
  reader never blocks on a response channel. This holds for every interleaving of callers, time-outs
  and reader, as long as the 64-bit counter of requests has not wrapped around.
\<close>

theorem response_reaches_its_caller:
  assumes "length ops < 2 ^ 64"
    "cl_calls (rpc_run ops new_client) c = Returned i (Got res)"
  shows "(\<exists>req \<in> set (cl_sent (rpc_run ops new_client)). rq_id req = i) \<and>
    (\<exists>v m. ReadLine (Some v) \<in> set ops \<and> dec_rpc_envelope v = Some m \<and>
       normalize_id (rm_id m) = i \<and> rm_result m = res \<and> rm_error m = None) \<and>
    {d. call_id (cl_calls (rpc_run ops new_client) d) = Some i} = {c} \<and>
    \<not> cl_jammed (rpc_run ops new_client)"
proof -
  let ?cl = "rpc_run ops new_client"
  have ok: "ids_ok ?cl" "calls_ok (\<Union> (line_read ` set ops)) ?cl" "\<not> cl_jammed ?cl"
    using client_run_ok [OF assms(1)] by (simp_all add: client_ok_def)
  from ok(2) assms(2) have "i \<in> rq_id ` set (cl_sent ?cl)" "answered (\<Union> (line_read ` set ops)) i res None"
    unfolding calls_ok_def by blast+
  then have "\<exists>req \<in> set (cl_sent ?cl). rq_id req = i"
    "\<exists>v m. ReadLine (Some v) \<in> set ops \<and> dec_rpc_envelope v = Some m \<and>
       normalize_id (rm_id m) = i \<and> rm_result m = res \<and> rm_error m = None"
    unfolding answered_def by (auto dest!: line_read_mem)
  moreover have "call_id (cl_calls ?cl d) = Some i \<Longrightarrow> d = c" for d
    using ok(1) assms(2) unfolding ids_ok_def by (metis call_id.simps(4))
  then have "{d. call_id (cl_calls ?cl d) = Some i} = {c}" using assms(2) by auto
  ultimately show ?thesis using ok(3) by blast
qed


lemma rpc_fold_names [simp]:
  "fold_name ''method'' = ''METHOD''" "fold_name ''params'' = ''PARAMS''" "fold_name ''error'' = ''ERROR''"
  by code_simp+

theorem response_reaches_its_caller_witness:
  "cl_calls (rpc_run [Begin 7 ''version'' [], Begin 8 ''send'' [], Write 8 None, Write 7 None,
      ReadLine (Some (JObj [(''id'', JNum ''2''), (''result'', JNum ''5'')])), Take 8] new_client) 8
    = Returned ''2'' (Got (Some (JNum ''5''))) \<and>
   (\<exists>req \<in> set (cl_sent (rpc_run [Begin 7 ''version'' [], Begin 8 ''send'' [], Write 8 None, Write 7 None,
      ReadLine (Some (JObj [(''id'', JNum ''2''), (''result'', JNum ''5'')])), Take 8] new_client)).
        rq_id req = ''2'')"
proof -
  let ?ops = "[Begin 7 ''version'' [], Begin 8 ''send'' [], Write 8 None, Write 7 None,
      ReadLine (Some (JObj [(''id'', JNum ''2''), (''result'', JNum ''5'')])), Take 8]"
  have n: "dec_nat 1 = ''1''" "dec_nat 2 = ''2''" "dec_nat (Suc 0) = ''1''"
    by code_simp+
  have d: "dec_rpc_envelope (JObj [(''id'', JNum ''2''), (''result'', JNum ''5'')]) =
      Some \<lparr>rm_method = [], rm_params = None, rm_id = Some (JNum ''2''), rm_result = Some (JNum ''5''),
        rm_error = None\<rparr>"
    by (simp add: dec_rpc_envelope_def dec_field_def)
  have r: "cl_calls (rpc_run ?ops new_client) 8 = Returned ''2'' (Got (Some (JNum ''5'')))"
    by (simp add: new_client_def call_begin_def set_call_def remove_pending_def call_write_def n d Let_def
        read_line_def reader_ready_def normalize_id_def send_response_def call_take_def result_of_def)
  have "length ?ops < 2 ^ 64" by simp
  from response_reaches_its_caller [OF this r] r show ?thesis by blast
qed

text \<open>A call whose response has been delivered, or whose connection has ended, can return.\<close>

lemma delivered_call_returns:
  assumes "cl_calls cl c = Waiting i" "cl_chan cl c = Some r"
  shows "cl_calls (rpc_step (Take c) cl) c = Returned i (result_of r)"
  using assms by (simp add: call_take_def)

lemma ended_call_returns:
  assumes "cl_calls cl c = Waiting i" "cl_done cl"
  shows "cl_calls (rpc_step (SeeDone c) cl) c = Returned i ConnClosed"
  using assms by (simp add: call_closed_def)

text \<open>
  A reader that is blocked on the full channel of notifications never finishes unless somebody
  takes notifications: \<open>Close\<close>, which waits for it after nobody does, does not return.
\<close>

lemma held_step:
  "cl_held cl \<noteq> None \<Longrightarrow> \<not> cl_done cl \<Longrightarrow> op \<noteq> TakeNote \<Longrightarrow>
   cl_held (rpc_step op cl) \<noteq> None \<and> \<not> cl_done (rpc_step op cl)"
  by (cases op) (auto simp: call_begin_def call_write_def call_take_def call_expire_def call_closed_def
      set_call_def remove_pending_def reader_ready_def Let_def split: call_pc.splits option.splits)

theorem full_queue_blocks_close:
  "cl_held cl \<noteq> None \<Longrightarrow> \<not> cl_done cl \<Longrightarrow> TakeNote \<notin> set ops \<Longrightarrow> \<not> cl_done (rpc_run ops cl)"
proof (induction ops arbitrary: cl)
  case (Cons op ops)
  then show ?case using held_step [of cl op] by auto
qed simp

lemma full_queue_reached:
  "cl_held (rpc_run (replicate 129 (ReadLine (Some (JObj [(''method'', JStr ''receive'')])))) new_client) \<noteq> None"
proof -
  let ?v = "JObj [(''method'', JStr ''receive'')]" and ?n = "\<lparr>no_method = ''receive'', no_params = None\<rparr>"
  have d: "dec_rpc_envelope ?v = Some \<lparr>rm_method = ''receive'', rm_params = None, rm_id = None,
      rm_result = None, rm_error = None\<rparr>"
    by (simp add: dec_rpc_envelope_def dec_field_def)
  have step: "rpc_step (ReadLine (Some ?v)) cl = (if reader_ready cl then push_note ?n cl else cl)" for cl
    by (simp add: read_line_def d)
  have fill: "rpc_run (replicate k (ReadLine (Some ?v))) (cl\<lparr>cl_notes := replicate m ?n\<rparr>) =
      cl\<lparr>cl_notes := replicate (m + k) ?n\<rparr>"
    if "reader_ready cl" "m + k \<le> note_capacity" for k m cl
    using that
  proof (induction k arbitrary: m)
    case (Suc k)
    have "replicate m ?n @ [?n] = replicate (Suc m) ?n" by (simp add: replicate_append_same)
    then have "rpc_step (ReadLine (Some ?v)) (cl\<lparr>cl_notes := replicate m ?n\<rparr>) = cl\<lparr>cl_notes := replicate (Suc m) ?n\<rparr>"
      using Suc.prems unfolding step by (simp add: push_note_def reader_ready_def)
    then show ?case using Suc.IH [of "Suc m"] Suc.prems by simp
  qed simp
  have run_append: "rpc_run (xs @ ys) cl = rpc_run ys (rpc_run xs cl)" for xs ys cl
    by (induction xs arbitrary: cl) simp_all
  have r: "reader_ready new_client" by (simp add: reader_ready_def new_client_def)
  have "new_client = new_client\<lparr>cl_notes := replicate 0 ?n\<rparr>" by (simp add: new_client_def)
  then have full: "rpc_run (replicate 128 (ReadLine (Some ?v))) new_client = new_client\<lparr>cl_notes := replicate 128 ?n\<rparr>"
    using fill [OF r, of 0 128] by (simp add: note_capacity_def)
  have "replicate 129 x = replicate 128 x @ [x]" for x :: rpc_op
    by (simp add: replicate_append_same flip: replicate_Suc)
  then show ?thesis
    by (simp add: run_append full step push_note_def note_capacity_def del: rpc_step.simps)
       (simp add: reader_ready_def new_client_def)
qed

end
