(* ===== verification/Signal.thy ===== *)
theory Signal
  imports Signal_Rpc
begin

text \<open>
  The Signal transport (\<open>signal/backend.go\<close>, \<open>signal/daemon.go\<close>): the signal-cli daemon, the
  subscription, the receive loop and the sends. System calls that may fail take the next entry of a
  list of outcomes; the results of JSON-RPC calls are listed in the state, since how a call comes by its
  result is the subject of \<open>Signal_Rpc\<close>.
\<close>

section \<open>State\<close>

record signal_settings =
  ss_binary :: string
  ss_account :: string
  ss_config_dir :: string
  ss_socket :: string
  ss_allowed :: "string list"

datatype daemon_signal = SigTerm | SigKill

record signal =
  sg_active :: string
  sg_cancel :: bool
  sg_rpc :: bool
  sg_daemon :: bool
  sg_log_tail :: "string list"
  sg_subscription :: int
  sg_faults :: outcomes
  sg_exits :: "bool list"
  sg_answers :: "call_result list"
  sg_calls :: "(string \<times> params) list"
  sg_handled :: "message list"
  sg_spawned :: "(string \<times> string list) list"
  sg_signals :: "daemon_signal list"

definition sg_fault :: "signal \<Rightarrow> string option \<times> signal" where
  "sg_fault b = (case next_fault (sg_faults b) of (f, fs) \<Rightarrow> (f, b\<lparr>sg_faults := fs\<rparr>))"

definition default_binary :: string where "default_binary = ''signal-cli''"

definition new_signal :: "signal_settings \<Rightarrow> string + signal_settings" where
  "new_signal s =
     (if ss_account s = [] then Inl ''signal account is required''
      else let s = (if ss_binary s = [] then s\<lparr>ss_binary := default_binary\<rparr> else s);
               s = (if ss_config_dir s \<noteq> [] \<and> ss_socket s = []
                    then s\<lparr>ss_socket := path_join [ss_config_dir s, ''opencrow-jsonrpc.sock'']\<rparr> else s)
           in if ss_socket s = [] then Inl ''signal socket path is required'' else Inr s)"

section \<open>The daemon\<close>

text \<open>\<open>None\<close> is the outcome of \<open>os.Remove\<close> on a socket that does not exist, too.\<close>

definition prepare_paths :: "signal_settings \<Rightarrow> signal \<Rightarrow> string option \<times> signal" where
  "prepare_paths s b =
     (case (if ss_config_dir s \<noteq> [] then sg_fault b else (None, b)) of
        (Some e, b) \<Rightarrow> (Some (''creating signal config dir: '' @ e), b)
      | (None, b) \<Rightarrow>
          (case sg_fault b of
             (Some e, b) \<Rightarrow> (Some (''creating signal socket dir: '' @ e), b)
           | (None, b) \<Rightarrow>
               (case sg_fault b of
                  (Some e, b) \<Rightarrow> (Some (''removing stale signal socket: '' @ e), b)
                | (None, b) \<Rightarrow> (None, b))))"

definition daemon_args :: "signal_settings \<Rightarrow> string list" where
  "daemon_args s =
     [''--output'', ''json'', ''--account'', ss_account s] @
     (if ss_config_dir s \<noteq> [] then [''--config'', ss_config_dir s] else []) @
     [''daemon'', ''--socket='' @ ss_socket s, ''--receive-mode'', ''manual'']"

definition start_daemon :: "signal_settings \<Rightarrow> signal \<Rightarrow> string option \<times> signal" where
  "start_daemon s b =
     (case sg_fault b of
        (Some e, b) \<Rightarrow> (Some (''creating signal daemon stdout pipe: '' @ e), b)
      | (None, b) \<Rightarrow>
          (case sg_fault b of
             (Some e, b) \<Rightarrow> (Some (''creating signal daemon stderr pipe: '' @ e), b)
           | (None, b) \<Rightarrow>
               (case sg_fault b of
                  (Some e, b) \<Rightarrow> (Some (''starting signal daemon: '' @ e), b)
                | (None, b) \<Rightarrow>
                    (None, b\<lparr>sg_spawned := sg_spawned b @ [(ss_binary s, daemon_args s)],
                       sg_log_tail := [], sg_daemon := True\<rparr>))))"

definition max_log_lines :: nat where "max_log_lines = 40"

definition append_daemon_log_line :: "string \<Rightarrow> signal \<Rightarrow> signal" where
  "append_daemon_log_line line b =
     (let ls = sg_log_tail b @ [line]
      in b\<lparr>sg_log_tail := (if max_log_lines < length ls then drop (length ls - max_log_lines) ls else ls)\<rparr>)"

fun capture_daemon_stream :: "string \<Rightarrow> string list \<Rightarrow> string option \<Rightarrow> signal \<Rightarrow> signal" where
  "capture_daemon_stream stream [] scan_err b =
     (case scan_err of
        None \<Rightarrow> b
      | Some e \<Rightarrow> append_daemon_log_line (stream @ '' scanner error: '' @ e) b)"
| "capture_daemon_stream stream (l # ls) scan_err b =
     (let line = trim_space l
      in capture_daemon_stream stream ls scan_err
           (if line = [] then b else append_daemon_log_line (stream @ '': '' @ line) b))"

definition daemon_log_tail_string :: "signal \<Rightarrow> string" where
  "daemon_log_tail_string b =
     (if sg_log_tail b = [] then ''(no daemon output captured)'' else join '' | '' (sg_log_tail b))"

text \<open>Whether the daemon exits within the window waited for, which the state lists.\<close>

definition daemon_exits :: "signal \<Rightarrow> bool \<times> signal" where
  "daemon_exits b = (case sg_exits b of [] \<Rightarrow> (True, b) | x # xs \<Rightarrow> (x, b\<lparr>sg_exits := xs\<rparr>))"

definition stop_daemon :: "signal \<Rightarrow> signal" where
  "stop_daemon b =
     (if \<not> sg_daemon b then b
      else case daemon_exits (b\<lparr>sg_daemon := False, sg_signals := sg_signals b @ [SigTerm]\<rparr>) of
             (True, b) \<Rightarrow> b
           | (False, b) \<Rightarrow> snd (daemon_exits (b\<lparr>sg_signals := sg_signals b @ [SigKill]\<rparr>)))"

text \<open>
  One round of the wait for the socket: the outcome of the dial, the error of the context, the time
  in milliseconds at which the deadline is compared, whether the daemon has exited (and its error), and
  its output so far. The result is \<open>None\<close> while the rounds given do not suffice to decide.
\<close>

record dial_round =
  dr_error :: "string option"
  dr_ctx :: "string option"
  dr_now :: int
  dr_exit :: "string option option"
  dr_tail :: string

definition dial_window :: int where "dial_window = 15000"

fun wait_for_socket :: "int \<Rightarrow> signal_settings \<Rightarrow> dial_round list \<Rightarrow> (string + unit) option" where
  "wait_for_socket deadline s [] = None"
| "wait_for_socket deadline s (r # rs) =
     (if dr_error r = None then Some (Inr ())
      else case dr_ctx r of
        Some e \<Rightarrow> Some (Inl (''connecting to signal daemon socket: '' @ e))
      | None \<Rightarrow>
          (if deadline < dr_now r
           then Some (Inl (''timed out waiting for signal daemon socket '' @ ss_socket s @
                           '' (daemon output: '' @ dr_tail r @ '')''))
           else case dr_exit r of
             Some (Some e) \<Rightarrow> Some (Inl (''signal daemon exited before socket ready: '' @ e @
                                '' (daemon output: '' @ dr_tail r @ '')''))
           | Some None \<Rightarrow> Some (Inl (''signal daemon exited before socket ready (daemon output: '' @ dr_tail r @ '')''))
           | None \<Rightarrow> wait_for_socket deadline s rs))"

section \<open>Calls\<close>

datatype signal_error = NotConnected | CallFailed call_result | BadResult

text \<open>The value a call decodes its result into, from the zero value of its type.\<close>

definition finish_call :: "'a decoder \<Rightarrow> 'a \<Rightarrow> call_result \<Rightarrow> signal_error + 'a" where
  "finish_call d zero r =
     (case r of
        Got None \<Rightarrow> Inr zero
      | Got (Some v) \<Rightarrow> (if v = JNull then Inr zero
                         else case d zero v of None \<Rightarrow> Inl BadResult | Some x \<Rightarrow> Inr x)
      | _ \<Rightarrow> Inl (CallFailed r))"

definition client_call :: "string \<Rightarrow> params \<Rightarrow> signal \<Rightarrow> call_result \<times> signal" where
  "client_call meth ps b =
     (let b = b\<lparr>sg_calls := sg_calls b @ [(meth, ps)]\<rparr>
      in case sg_answers b of
           [] \<Rightarrow> (Expired ''context deadline exceeded'', b)
         | r # rs \<Rightarrow> (r, b\<lparr>sg_answers := rs\<rparr>))"

definition rpc_call :: "string \<Rightarrow> params \<Rightarrow> 'a decoder \<Rightarrow> 'a \<Rightarrow> signal \<Rightarrow> (signal_error + 'a) \<times> signal" where
  "rpc_call meth ps d zero b =
     (if \<not> sg_rpc b then (Inl NotConnected, b)
      else case client_call meth ps b of (r, b) \<Rightarrow> (finish_call d zero r, b))"

definition dec_send_result :: "int decoder" where
  "dec_send_result = dec_struct (\<lambda>fs t. dec_field ''timestamp'' dec_int64 t fs)"

definition message_params :: "string \<Rightarrow> string \<Rightarrow> string \<Rightarrow> params" where
  "message_params conv txt reply_to =
     add_recipient_params [(''message'', JStr txt)] conv @
     (if reply_to \<noteq> [] then
        (case parse_int64 reply_to of None \<Rightarrow> [] | Some ts \<Rightarrow> [(''quoteTimestamp'', JNum (dec_int ts))])
      else [])"

definition signal_send :: "string \<Rightarrow> string \<Rightarrow> string \<Rightarrow> signal \<Rightarrow> (signal_error + string) \<times> signal" where
  "signal_send conv txt reply_to b =
     (case rpc_call ''send'' (message_params conv txt reply_to) dec_send_result 0 b of
        (Inl e, b) \<Rightarrow> (Inl e, b)
      | (Inr ts, b) \<Rightarrow> (Inr (if ts = 0 then [] else dec_int ts), b))"

definition signal_send_message :: "string \<Rightarrow> string \<Rightarrow> string \<Rightarrow> signal \<Rightarrow> string \<times> signal" where
  "signal_send_message conv txt reply_to b =
     (if trim_space txt = [] then ([], b)
      else case signal_send conv txt reply_to b of
             (Inl e, b) \<Rightarrow> ([], b)
           | (Inr i, b) \<Rightarrow> (i, b))"

definition signal_send_file :: "string \<Rightarrow> string \<Rightarrow> signal \<Rightarrow> signal_error option \<times> signal" where
  "signal_send_file conv path b =
     (case rpc_call ''send'' (add_recipient_params [(''attachment'', JStr path)] conv) dec_send_result 0 b of
        (Inl e, b) \<Rightarrow> (Some e, b)
      | (Inr ts, b) \<Rightarrow> (None, b))"

definition signal_reset_conversation :: "string \<Rightarrow> signal \<Rightarrow> signal" where
  "signal_reset_conversation conv b = b\<lparr>sg_active := reset_conv conv (sg_active b)\<rparr>"

definition subscribe_receive :: "signal \<Rightarrow> signal_error option \<times> signal" where
  "subscribe_receive b =
     (case client_call ''subscribeReceive'' [] b of
        (r, b) \<Rightarrow>
          (case finish_call dec_int64 0 r of
             Inl e \<Rightarrow> (Some e, b)
           | Inr i \<Rightarrow> (None, b\<lparr>sg_subscription := i\<rparr>)))"

definition unsubscribe_receive :: "signal \<Rightarrow> signal" where
  "unsubscribe_receive b =
     (let i = sg_subscription b;
          b = b\<lparr>sg_subscription := - 1\<rparr>
      in if i < 0 then b
         else snd (client_call ''unsubscribeReceive'' [(''subscription'', JNum (dec_int i))] b))"

section \<open>The receive loop\<close>

text \<open>What the \<open>select\<close> picks; an error of the stream comes with the error of the context.\<close>

datatype receive_event =
    RxCancelled string
  | RxError "string option" "string option"
  | RxNote notification

datatype receive_end = LoopCancelled string | StreamFailed string

definition handle_note :: "signal_settings \<Rightarrow> notification \<Rightarrow> signal \<Rightarrow> signal" where
  "handle_note s n b =
     (if no_method n \<noteq> ''receive'' then b
      else case decode_receive_notification (no_params n) (ss_config_dir s) of
        Inl e \<Rightarrow> b
      | Inr None \<Rightarrow> b
      | Inr (Some m) \<Rightarrow>
          (if sender_id m = ss_account s then b
           else if \<not> is_allowed (ss_allowed s) (sender_id m) then b
           else case claim (conversation_id m) (sg_active b) of
             (ok, a) \<Rightarrow>
               (let b = b\<lparr>sg_active := a\<rparr>
                in if \<not> ok then b else b\<lparr>sg_handled := sg_handled b @ [m]\<rparr>)))"

text \<open>The loop ends with its error, or is still blocked after the events given.\<close>

fun receive_loop :: "signal_settings \<Rightarrow> receive_event list \<Rightarrow> signal \<Rightarrow> receive_end option \<times> signal" where
  "receive_loop s [] b = (None, b)"
| "receive_loop s (ev # evs) b =
     (case ev of
        RxCancelled e \<Rightarrow> (Some (LoopCancelled e), b)
      | RxError None ctx \<Rightarrow> receive_loop s evs b
      | RxError (Some e) None \<Rightarrow> (Some (StreamFailed e), b)
      | RxError (Some e) (Some c) \<Rightarrow> (Some (LoopCancelled c), b)
      | RxNote n \<Rightarrow> receive_loop s evs (handle_note s n b))"

definition clear_rpc :: "signal \<Rightarrow> signal" where
  "clear_rpc b = b\<lparr>sg_rpc := False\<rparr>"

datatype run_end =
    NoBinary string
  | NotPrepared string
  | NotStarted string
  | NoSocket string
  | NotSubscribed signal_error
  | Ended receive_end

text \<open>
  \<open>Run\<close> with its deferred calls: the rounds of the wait and the events of the loop are given, and
  \<open>None\<close> means that it is still blocked.
\<close>

definition signal_run ::
    "signal_settings \<Rightarrow> string option \<Rightarrow> int \<Rightarrow> dial_round list \<Rightarrow> receive_event list \<Rightarrow> signal \<Rightarrow>
     run_end option \<times> signal" where
  "signal_run s look start rounds evs b =
     (case look of
        Some e \<Rightarrow> (Some (NoBinary (''signal-cli binary not found ('' @ ss_binary s @ ''): '' @ e)), b)
      | None \<Rightarrow>
     (case prepare_paths s b of
        (Some e, b) \<Rightarrow> (Some (NotPrepared e), b)
      | (None, b) \<Rightarrow>
     (case start_daemon s (b\<lparr>sg_cancel := True\<rparr>) of
        (Some e, b) \<Rightarrow> (Some (NotStarted e), b\<lparr>sg_cancel := False\<rparr>)
      | (None, b) \<Rightarrow>
     (case wait_for_socket (start + dial_window) s rounds of
        None \<Rightarrow> (None, b)
      | Some (Inl e) \<Rightarrow> (Some (NoSocket e), (stop_daemon b)\<lparr>sg_cancel := False\<rparr>)
      | Some (Inr _) \<Rightarrow>
     (case subscribe_receive (b\<lparr>sg_rpc := True\<rparr>) of
        (Some e, b) \<Rightarrow> (Some (NotSubscribed e), (stop_daemon (clear_rpc b))\<lparr>sg_cancel := False\<rparr>)
      | (None, b) \<Rightarrow>
     (case receive_loop s evs b of
        (None, b) \<Rightarrow> (None, b)
      | (Some e, b) \<Rightarrow>
          (Some (Ended e),
           (stop_daemon (clear_rpc (unsubscribe_receive b)))\<lparr>sg_cancel := False\<rparr>)))))))"

definition signal_close :: "signal \<Rightarrow> signal" where
  "signal_close b = stop_daemon (clear_rpc b)"


section \<open>Lemmas\<close>

lemma new_signal_ok:
  "new_signal s = Inr t \<Longrightarrow> ss_account t \<noteq> [] \<and> ss_binary t \<noteq> [] \<and> ss_socket t \<noteq> []"
  by (auto simp: new_signal_def default_binary_def Let_def split: if_splits)

lemma new_signal_accepts:
  "ss_account s \<noteq> [] \<Longrightarrow> ss_binary s \<noteq> [] \<Longrightarrow> ss_socket s \<noteq> [] \<Longrightarrow> new_signal s = Inr s"
  by (simp add: new_signal_def Let_def)

text \<open>The output kept of the daemon is the last lines of all it wrote.\<close>

definition last_lines :: "nat \<Rightarrow> 'a list \<Rightarrow> 'a list" where
  "last_lines n xs = drop (length xs - n) xs"

fun captured_lines :: "string \<Rightarrow> string list \<Rightarrow> string option \<Rightarrow> string list" where
  "captured_lines stream [] scan_err =
     (case scan_err of None \<Rightarrow> [] | Some e \<Rightarrow> [stream @ '' scanner error: '' @ e])"
| "captured_lines stream (l # ls) scan_err =
     (if trim_space l = [] then [] else [stream @ '': '' @ trim_space l]) @ captured_lines stream ls scan_err"

lemma last_lines_snoc: "last_lines n (last_lines n xs @ [x]) = last_lines n (xs @ [x])"
  by (cases "length xs \<le> n") (simp_all add: last_lines_def Suc_diff_le drop_Suc flip: tl_drop)

lemma last_lines_append: "last_lines n (last_lines n xs @ ys) = last_lines n (xs @ ys)"
proof (induction ys rule: rev_induct)
  case (snoc y ys)
  then show ?case
    by (metis append.assoc last_lines_snoc)
qed (simp add: last_lines_def)

lemma append_log_line: "sg_log_tail (append_daemon_log_line l b) = last_lines max_log_lines (sg_log_tail b @ [l])"
  by (simp add: append_daemon_log_line_def last_lines_def Let_def)

lemma capture_log_tail:
  "length (sg_log_tail b) \<le> max_log_lines \<Longrightarrow>
   sg_log_tail (capture_daemon_stream stream ls e b) =
     last_lines max_log_lines (sg_log_tail b @ captured_lines stream ls e)"
proof (induction stream ls e b rule: capture_daemon_stream.induct)
  case (1 stream e b)
  then show ?case by (cases e) (simp_all add: append_log_line last_lines_def)
next
  case (2 stream l ls e b)
  show ?case
  proof (cases "trim_space l = []")
    case False
    let ?b = "append_daemon_log_line (stream @ '': '' @ trim_space l) b"
    have "length (sg_log_tail ?b) \<le> max_log_lines"
      by (simp add: append_log_line last_lines_def)
    then show ?thesis
      using 2 False by (simp add: append_log_line last_lines_append Let_def)
  qed (use 2 in \<open>simp add: Let_def\<close>)
qed

text \<open>Stopping twice, as \<open>Run\<close> and \<open>Close\<close> do, is stopping once; SIGKILL follows only an ignored SIGTERM.\<close>

lemma stop_daemon_frame: "sg_daemon (stop_daemon b) = False"
  by (auto simp: stop_daemon_def daemon_exits_def split: list.splits bool.splits)

lemma stop_daemon_idem [simp]: "stop_daemon (stop_daemon b) = stop_daemon b"
  by (simp add: stop_daemon_def [of "stop_daemon b"] stop_daemon_frame)

lemma stop_daemon_signals:
  "sg_daemon b \<Longrightarrow> sg_signals (stop_daemon b) =
     sg_signals b @ (if sg_exits b \<noteq> [] \<and> \<not> hd (sg_exits b) then [SigTerm, SigKill] else [SigTerm])"
  by (auto simp: stop_daemon_def daemon_exits_def split: list.splits bool.splits)

text \<open>What the receive loop hands on.\<close>

lemma handle_note_handled:
  "\<exists>ms. sg_handled (handle_note s n b) = sg_handled b @ ms \<and>
    (\<forall>m \<in> set ms. sender_id m \<noteq> ss_account s \<and> is_allowed (ss_allowed s) (sender_id m) \<and>
       conversation_id m = sg_active (handle_note s n b) \<and> conversation_id m \<noteq> []) \<and>
    (sg_active b \<noteq> [] \<longrightarrow> sg_active (handle_note s n b) = sg_active b)"
  using claim_state claim_holds
  by (auto simp: handle_note_def Let_def split: sum.splits option.splits prod.splits)

lemma receive_loop_handled:
  "receive_loop s evs b = (r, b') \<Longrightarrow>
   \<exists>ms. sg_handled b' = sg_handled b @ ms \<and>
    (\<forall>m \<in> set ms. sender_id m \<noteq> ss_account s \<and> is_allowed (ss_allowed s) (sender_id m) \<and>
       conversation_id m = sg_active b') \<and>
    (sg_active b \<noteq> [] \<longrightarrow> sg_active b' = sg_active b)"
proof (induction s evs b arbitrary: r b' rule: receive_loop.induct)
  case (2 s ev evs b)
  show ?case
  proof (cases ev)
    case (RxNote n)
    obtain ms where ms: "sg_handled (handle_note s n b) = sg_handled b @ ms"
      "\<forall>m \<in> set ms. sender_id m \<noteq> ss_account s \<and> is_allowed (ss_allowed s) (sender_id m) \<and>
         conversation_id m = sg_active (handle_note s n b) \<and> conversation_id m \<noteq> []"
      "sg_active b \<noteq> [] \<longrightarrow> sg_active (handle_note s n b) = sg_active b"
      using handle_note_handled by blast
    obtain ns where ns: "sg_handled b' = sg_handled (handle_note s n b) @ ns"
      "\<forall>m \<in> set ns. sender_id m \<noteq> ss_account s \<and> is_allowed (ss_allowed s) (sender_id m) \<and>
         conversation_id m = sg_active b'"
      "sg_active (handle_note s n b) \<noteq> [] \<longrightarrow> sg_active b' = sg_active (handle_note s n b)"
      using 2(2) [OF RxNote] 2(3) RxNote by auto
    show ?thesis
      using ms ns by (intro exI [of _ "ms @ ns"]) auto
  qed (use 2 in \<open>auto split: option.splits\<close>)
qed auto

section \<open>Properties\<close>

lemma wait_undecided:
  "wait_for_socket dl s rs = None \<Longrightarrow> r \<in> set rs \<Longrightarrow> dr_now r \<le> dl"
  by (induction dl s rs rule: wait_for_socket.induct) (auto split: if_splits option.splits)

lemma rounds_apart:
  assumes "\<forall>k. Suc k < length rs \<longrightarrow> dr_now (rs ! k) + 200 \<le> dr_now (rs ! Suc k)"
  shows "k < length rs \<Longrightarrow> dr_now (rs ! 0) + 200 * int k \<le> dr_now (rs ! k)"
proof (induction k)
  case (Suc k)
  then show ?case using assms [rule_format, of k] by simp
qed simp

text \<open>
  C38. The wait for the daemon's socket ends: it sleeps at least 200 ms in every round, so after 77 rounds
  the deadline of 15 s has passed and it has returned, whatever the dials and the daemon do.
\<close>

theorem wait_for_socket_returns:
  assumes "\<forall>k. Suc k < length rs \<longrightarrow> dr_now (rs ! k) + 200 \<le> dr_now (rs ! Suc k)"
    "start \<le> dr_now (rs ! 0)" "77 \<le> length rs"
  shows "\<exists>res. wait_for_socket (start + dial_window) s rs = Some res"
proof (rule ccontr)
  assume "\<nexists>res. wait_for_socket (start + dial_window) s rs = Some res"
  then have none: "wait_for_socket (start + dial_window) s rs = None" by auto
  have "rs ! 76 \<in> set rs" using assms(3) by simp
  from wait_undecided [OF none this] rounds_apart [OF assms(1), of 76] assms(2,3)
  show False by (simp add: dial_window_def)
qed

theorem wait_for_socket_returns_witness:
  "\<exists>res. wait_for_socket (0 + dial_window) \<lparr>ss_binary = [], ss_account = [], ss_config_dir = [],
      ss_socket = ''s'', ss_allowed = []\<rparr>
    (map (\<lambda>k. \<lparr>dr_error = Some ''refused'', dr_ctx = None, dr_now = 250 * int k, dr_exit = None,
       dr_tail = []\<rparr>) [0..<77]) = Some res"
  by (rule wait_for_socket_returns) simp_all

end
