(* ===== verification/Socket.thy ===== *)
theory Socket
  imports Json Outbox Backend_Util "HOL-Library.Word"
begin

text \<open>
  The transport over a local UNIX socket (\<open>socket/backend.go\<close>): the lines of the protocol, the set of
  connections and the commands of the clients. Connections are numbers; the range over their set is
  the range over a list, and a write that fails takes an entry of the list of outcomes.
\<close>

section \<open>The protocol\<close>

record socket_message =
  sm_id :: string
  sm_pubkey :: string
  sm_content :: string
  sm_ts :: int
  sm_dir :: string
  sm_ack :: string
  sm_read :: bool
  sm_image :: string
  sm_reply_to :: string
  sm_state :: string
  sm_type :: string

record socket_event =
  se_kind :: string
  se_msg :: "socket_message option"
  se_target :: string
  se_mark :: string
  se_image :: string
  se_state :: string
  se_streaming :: bool
  se_relays_up :: int
  se_relays_total :: int
  se_name :: string
  se_unread :: int
  se_text :: string

record socket_command =
  cm_cmd :: string
  cm_text :: string
  cm_reply_to :: string
  cm_path :: string
  cm_n :: int
  cm_type :: string

definition zero_socket_message :: socket_message where
  "zero_socket_message = \<lparr>sm_id = [], sm_pubkey = [], sm_content = [], sm_ts = 0, sm_dir = [], sm_ack = [],
     sm_read = False, sm_image = [], sm_reply_to = [], sm_state = [], sm_type = []\<rparr>"

definition zero_socket_event :: socket_event where
  "zero_socket_event = \<lparr>se_kind = [], se_msg = None, se_target = [], se_mark = [], se_image = [],
     se_state = [], se_streaming = False, se_relays_up = 0, se_relays_total = 0, se_name = [],
     se_unread = 0, se_text = []\<rparr>"

text \<open>Members with \<open>omitempty\<close> are left out when they have their zero value.\<close>

definition omit_string :: "string \<Rightarrow> string \<Rightarrow> (string \<times> json) list" where
  "omit_string k s = (if s = [] then [] else [(k, JStr s)])"

definition omit_int :: "string \<Rightarrow> int \<Rightarrow> (string \<times> json) list" where
  "omit_int k i = (if i = 0 then [] else [(k, JNum (dec_int i))])"

definition enc_socket_message :: "socket_message \<Rightarrow> json" where
  "enc_socket_message m = JObj (
     [(''id'', JStr (sm_id m)), (''pubkey'', JStr (sm_pubkey m)), (''content'', JStr (sm_content m)),
      (''ts'', JNum (dec_int (sm_ts m))), (''dir'', JStr (sm_dir m)), (''ack'', JStr (sm_ack m)),
      (''read'', JBool (sm_read m))] @
     omit_string ''image'' (sm_image m) @ omit_string ''replyTo'' (sm_reply_to m) @
     [(''state'', JStr (sm_state m))] @ omit_string ''type'' (sm_type m))"

definition enc_socket_event :: "socket_event \<Rightarrow> json" where
  "enc_socket_event e = JObj (
     [(''kind'', JStr (se_kind e))] @
     (case se_msg e of None \<Rightarrow> [] | Some m \<Rightarrow> [(''msg'', enc_socket_message m)]) @
     omit_string ''target'' (se_target e) @ omit_string ''mark'' (se_mark e) @
     omit_string ''image'' (se_image e) @ omit_string ''state'' (se_state e) @
     [(''streaming'', JBool (se_streaming e)), (''relaysUp'', JNum (dec_int (se_relays_up e)))] @
     omit_int ''relaysTotal'' (se_relays_total e) @ omit_string ''name'' (se_name e) @
     omit_int ''unread'' (se_unread e) @ omit_string ''text'' (se_text e))"

definition dec_socket_command :: "json \<Rightarrow> socket_command option" where
  "dec_socket_command = dec_struct (\<lambda>fs c.
     Option.bind (dec_field ''cmd'' dec_string (cm_cmd c) fs) (\<lambda>cmd.
     Option.bind (dec_field ''text'' dec_string (cm_text c) fs) (\<lambda>t.
     Option.bind (dec_field ''replyTo'' dec_string (cm_reply_to c) fs) (\<lambda>r.
     Option.bind (dec_field ''path'' dec_string (cm_path c) fs) (\<lambda>p.
     Option.bind (dec_field ''n'' dec_int64 (cm_n c) fs) (\<lambda>n.
     Option.bind (dec_field ''type'' dec_string (cm_type c) fs) (\<lambda>ty.
     Some \<lparr>cm_cmd = cmd, cm_text = t, cm_reply_to = r, cm_path = p, cm_n = n, cm_type = ty\<rparr>)))))))
     \<lparr>cm_cmd = [], cm_text = [], cm_reply_to = [], cm_path = [], cm_n = 0, cm_type = []\<rparr>"

section \<open>State\<close>

record socket_settings =
  so_path :: string
  so_name :: string

text \<open>\<open>sk_written\<close> and \<open>sk_handled\<close> are the lines written and the messages handed on, in order.\<close>

record socket =
  sk_conns :: "nat list"
  sk_seq :: "64 word"
  sk_now :: int
  sk_faults :: outcomes
  sk_written :: "(nat \<times> json) list"
  sk_handled :: "message list"

definition socket_conversation :: string where "socket_conversation = ''local''"

definition new_socket :: "socket_settings \<Rightarrow> string + socket_settings" where
  "new_socket s =
     (if so_path s = [] then Inl ''socket path is required''
      else Inr (if so_name s = [] then s\<lparr>so_name := ''OpenCrow''\<rparr> else s))"

definition next_local_id :: "socket \<Rightarrow> string \<times> socket" where
  "next_local_id b =
     (let n = sk_seq b + 1 in (''local-'' @ dec_int (sint n), b\<lparr>sk_seq := n\<rparr>))"

definition socket_write :: "nat \<Rightarrow> json \<Rightarrow> socket \<Rightarrow> string option \<times> socket" where
  "socket_write c v b =
     (case next_fault (sk_faults b) of
        (None, fs) \<Rightarrow> (None, b\<lparr>sk_faults := fs, sk_written := sk_written b @ [(c, v)]\<rparr>)
      | (Some e, fs) \<Rightarrow> (Some e, b\<lparr>sk_faults := fs\<rparr>))"

definition drop_conn :: "nat \<Rightarrow> socket \<Rightarrow> socket" where
  "drop_conn c b = b\<lparr>sk_conns := removeAll c (sk_conns b)\<rparr>"

fun push_to_conns :: "nat list \<Rightarrow> json \<Rightarrow> socket \<Rightarrow> socket" where
  "push_to_conns [] v b = b"
| "push_to_conns (c # cs) v b =
     (case socket_write c v b of
        (None, b) \<Rightarrow> push_to_conns cs v b
      | (Some e, b) \<Rightarrow> push_to_conns cs v (drop_conn c b))"

definition push_event :: "socket_event \<Rightarrow> socket \<Rightarrow> socket" where
  "push_event e b = push_to_conns (sk_conns b) (enc_socket_event e) b"

definition push_to :: "nat \<Rightarrow> socket_event \<Rightarrow> socket \<Rightarrow> socket" where
  "push_to c e b = snd (socket_write c (enc_socket_event e) b)"

section \<open>Sending\<close>

definition message_event :: "socket_message \<Rightarrow> socket_event" where
  "message_event m = zero_socket_event\<lparr>se_kind := ''msg'', se_streaming := True, se_msg := Some m\<rparr>"

definition socket_send_message :: "string \<Rightarrow> string \<Rightarrow> socket \<Rightarrow> string \<times> socket" where
  "socket_send_message txt reply b =
     (case next_local_id b of
        (i, b) \<Rightarrow>
          (i, push_event (message_event (zero_socket_message\<lparr>sm_id := i, sm_content := txt,
                sm_ts := sk_now b, sm_dir := ''in'', sm_state := ''sent'', sm_reply_to := reply\<rparr>)) b))"

definition socket_send_delta :: "string \<Rightarrow> string \<Rightarrow> socket \<Rightarrow> socket" where
  "socket_send_delta i delta b =
     push_event (zero_socket_event\<lparr>se_kind := ''delta'', se_streaming := True, se_target := i,
       se_text := delta\<rparr>) b"

definition socket_send_file :: "string \<Rightarrow> socket \<Rightarrow> socket" where
  "socket_send_file path b =
     (case next_local_id b of
        (i, b) \<Rightarrow>
          push_event (message_event (zero_socket_message\<lparr>sm_id := i, sm_ts := sk_now b, sm_dir := ''in'',
             sm_state := ''sent'', sm_image := path\<rparr>)) b)"

definition socket_set_typing :: "bool \<Rightarrow> socket \<Rightarrow> socket" where
  "socket_set_typing typing b =
     (if typing then push_event (zero_socket_event\<lparr>se_kind := ''typing'', se_streaming := True\<rparr>) b else b)"

section \<open>Commands\<close>

definition socket_handler :: "message \<Rightarrow> socket \<Rightarrow> socket" where
  "socket_handler m b = b\<lparr>sk_handled := sk_handled b @ [m]\<rparr>"

definition handle_send :: "socket_command \<Rightarrow> socket \<Rightarrow> socket" where
  "handle_send cmd b =
     (if cm_text cmd = [] then b
      else case next_local_id b of
        (i, b) \<Rightarrow>
          (let b = push_event (message_event (zero_socket_message\<lparr>sm_id := i, sm_content := cm_text cmd,
                     sm_ts := sk_now b, sm_dir := ''out'', sm_state := ''sent'',
                     sm_reply_to := cm_reply_to cmd, sm_type := cm_type cmd\<rparr>)) b
           in socket_handler \<lparr>conversation_id = socket_conversation, sender_id = ''local'',
                msg_text = cm_text cmd, message_id = i, reply_to_id = cm_reply_to cmd\<rparr> b))"

definition handle_send_file :: "socket_command \<Rightarrow> socket \<Rightarrow> socket" where
  "handle_send_file cmd b =
     (if cm_path cmd = [] then b
      else case next_local_id b of
        (i, b) \<Rightarrow>
          (let b = push_event (message_event (zero_socket_message\<lparr>sm_id := i, sm_ts := sk_now b,
                     sm_dir := ''out'', sm_state := ''sent'', sm_image := cm_path cmd\<rparr>)) b
           in socket_handler \<lparr>conversation_id = socket_conversation, sender_id = ''local'',
                msg_text = attachment_text [] (cm_path cmd), message_id = i, reply_to_id = []\<rparr> b))"

definition handle_command :: "socket_settings \<Rightarrow> nat \<Rightarrow> socket_command \<Rightarrow> socket \<Rightarrow> socket" where
  "handle_command s c cmd b =
     (if cm_cmd cmd = ''send'' then handle_send cmd b
      else if cm_cmd cmd = ''send-file'' then handle_send_file cmd b
      else if cm_cmd cmd = ''replay'' then
        push_to c (zero_socket_event\<lparr>se_kind := ''status'', se_streaming := True, se_relays_up := 1,
          se_relays_total := 1, se_name := so_name s\<rparr>) b
      else b)"

section \<open>Runs\<close>

text \<open>
  A line read on a connection, which has no effect once the context is cancelled or when it is no
  command, and what else happens, each step atomic.
\<close>

datatype socket_op =
    Accept nat
  | Command nat "json option"
  | Hangup nat
  | SendText string string
  | SendFragment string string
  | SendPath string
  | Typing bool
  | Tick int

fun socket_step :: "socket_settings \<Rightarrow> socket_op \<Rightarrow> socket \<Rightarrow> socket" where
  "socket_step s (Accept c) b = b\<lparr>sk_conns := removeAll c (sk_conns b) @ [c]\<rparr>"
| "socket_step s (Command c line) b =
     (case Option.bind line dec_socket_command of None \<Rightarrow> b | Some cmd \<Rightarrow> handle_command s c cmd b)"
| "socket_step s (Hangup c) b = drop_conn c b"
| "socket_step s (SendText txt r) b = snd (socket_send_message txt r b)"
| "socket_step s (SendFragment i d) b = socket_send_delta i d b"
| "socket_step s (SendPath p) b = socket_send_file p b"
| "socket_step s (Typing t) b = socket_set_typing t b"
| "socket_step s (Tick t) b = b\<lparr>sk_now := t\<rparr>"

fun socket_run :: "socket_settings \<Rightarrow> socket_op list \<Rightarrow> socket \<Rightarrow> socket" where
  "socket_run s [] b = b"
| "socket_run s (op # ops) b = socket_run s ops (socket_step s op b)"

section \<open>Broadcasting\<close>

lemma socket_write_frame:
  assumes "socket_write c v b = (r, b')"
  shows "sk_conns b' = sk_conns b" "sk_seq b' = sk_seq b" "sk_handled b' = sk_handled b"
    "sk_written b' = sk_written b @ (if r = None then [(c, v)] else [])"
  using assms by (auto simp: socket_write_def split: prod.splits option.splits)

lemma push_to_conns_frame:
  "sk_seq (push_to_conns cs v b) = sk_seq b \<and> sk_handled (push_to_conns cs v b) = sk_handled b"
proof (induction cs v b rule: push_to_conns.induct)
  case (2 c cs v b)
  then show ?case
    by (cases "socket_write c v b") (auto simp: drop_conn_def dest: socket_write_frame split: option.splits)
qed simp

text \<open>A broadcast writes the line to every connection; it keeps exactly those it was written to.\<close>

lemma push_to_conns_writes:
  assumes "distinct cs"
  shows "\<exists>ok. set ok \<subseteq> set cs \<and>
     sk_written (push_to_conns cs v b) = sk_written b @ map (\<lambda>c. (c, v)) ok \<and>
     set (sk_conns (push_to_conns cs v b)) = set (sk_conns b) - (set cs - set ok)"
  using assms
proof (induction cs v b rule: push_to_conns.induct)
  case (2 c cs v b)
  obtain r b1 where w: "socket_write c v b = (r, b1)" by (cases "socket_write c v b")
  note f = socket_write_frame [OF w]
  show ?case
  proof (cases r)
    case None
    with 2(1) [OF w [symmetric] None] 2(3) obtain ok where ok: "set ok \<subseteq> set cs"
      "sk_written (push_to_conns cs v b1) = sk_written b1 @ map (\<lambda>c. (c, v)) ok"
      "set (sk_conns (push_to_conns cs v b1)) = set (sk_conns b1) - (set cs - set ok)" by auto
    with w None f 2(3) show ?thesis by (intro exI [of _ "c # ok"]) auto
  next
    case (Some e)
    with 2(2) [OF w [symmetric] Some] 2(3) obtain ok where ok: "set ok \<subseteq> set cs"
      "sk_written (push_to_conns cs v (drop_conn c b1)) = sk_written b1 @ map (\<lambda>c. (c, v)) ok"
      "set (sk_conns (push_to_conns cs v (drop_conn c b1))) = set (sk_conns b1) - {c} - (set cs - set ok)"
      by (auto simp: drop_conn_def)
    with w Some f 2(3) show ?thesis by (intro exI [of _ ok]) auto
  qed
qed (intro exI [of _ "[]"], simp)

lemma push_event_writes:
  assumes "distinct (sk_conns b)"
  shows "sk_written (push_event e b) =
       sk_written b @ map (\<lambda>c. (c, enc_socket_event e)) (drop (length (sk_written b)) (map fst (sk_written (push_event e b))))"
    "set (sk_conns (push_event e b)) = set (drop (length (sk_written b)) (map fst (sk_written (push_event e b))))"
proof -
  obtain ok where ok: "set ok \<subseteq> set (sk_conns b)"
    "sk_written (push_event e b) = sk_written b @ map (\<lambda>c. (c, enc_socket_event e)) ok"
    "set (sk_conns (push_event e b)) = set (sk_conns b) - (set (sk_conns b) - set ok)"
    using push_to_conns_writes [OF assms] unfolding push_event_def by blast
  have "drop (length (sk_written b)) (map fst (sk_written (push_event e b))) = ok"
    by (simp add: ok(2) drop_map comp_def)
  with ok show "sk_written (push_event e b) =
       sk_written b @ map (\<lambda>c. (c, enc_socket_event e)) (drop (length (sk_written b)) (map fst (sk_written (push_event e b))))"
    "set (sk_conns (push_event e b)) = set (drop (length (sk_written b)) (map fst (sk_written (push_event e b))))"
    by auto
qed

lemma push_event_frame [simp]:
  "sk_seq (push_event e b) = sk_seq b" "sk_handled (push_event e b) = sk_handled b"
  by (simp_all add: push_event_def push_to_conns_frame)

section \<open>Ids\<close>

definition local_id :: "nat \<Rightarrow> string" where
  "local_id n = ''local-'' @ dec_nat n"

lemma local_id_inject [simp]: "local_id m = local_id n \<longleftrightarrow> m = n"
  by (simp add: local_id_def)

lemma next_local_id_nat:
  assumes "unat (sk_seq b) < 2 ^ 63 - 1"
  shows "next_local_id b = (local_id (Suc (unat (sk_seq b))), b\<lparr>sk_seq := sk_seq b + 1\<rparr>)"
    "unat (sk_seq b + 1) = Suc (unat (sk_seq b))"
proof -
  show n: "unat (sk_seq b + 1) = Suc (unat (sk_seq b))" using assms by (simp add: unat_word_ariths)
  have "unat (sk_seq b + 1) < 2 ^ 63" using assms n by simp
  then have "uint (sk_seq b + 1) < 2 ^ 63"
    by (simp only: unat_eq_nat_uint nat_less_numeral_power_cancel_iff)
  moreover have "- (2 ^ 63) \<le> uint (sk_seq b + 1)" by (rule order_trans [of _ 0]) simp_all
  ultimately have "signed_take_bit 63 (uint (sk_seq b + 1)) = uint (sk_seq b + 1)"
    by (intro signed_take_bit_int_eq_self)
  then have "sint (sk_seq b + 1) = int (unat (sk_seq b + 1))" by (simp add: sint_uint)
  then have "sint (sk_seq b + 1) = int (Suc (unat (sk_seq b)))" by (simp only: n)
  moreover have "dec_int (int k) = dec_nat k" for k by (simp add: dec_int_def)
  ultimately show "next_local_id b = (local_id (Suc (unat (sk_seq b))), b\<lparr>sk_seq := sk_seq b + 1\<rparr>)"
    by (simp only: next_local_id_def local_id_def Let_def)
qed


definition socket_ok :: "socket \<Rightarrow> bool" where
  "socket_ok b \<longleftrightarrow> distinct (sk_conns b) \<and> distinct (map message_id (sk_handled b)) \<and>
     (\<forall>m \<in> set (sk_handled b). \<exists>n \<le> unat (sk_seq b). message_id m = local_id n)"

text \<open>Broadcasts and writes leave the counter and the handed-on messages alone.\<close>

definition same_messages :: "socket \<Rightarrow> socket \<Rightarrow> bool" where
  "same_messages b b' \<longleftrightarrow> sk_handled b' = sk_handled b \<and> distinct (sk_conns b') \<and>
     unat (sk_seq b) \<le> unat (sk_seq b') \<and> unat (sk_seq b') \<le> Suc (unat (sk_seq b))"

lemma same_messages_ok: "same_messages b b' \<Longrightarrow> socket_ok b \<Longrightarrow> socket_ok b'"
  unfolding same_messages_def socket_ok_def by (metis le_trans)

lemma push_to_conns_distinct: "distinct (sk_conns b) \<Longrightarrow> distinct (sk_conns (push_to_conns cs v b))"
proof (induction cs v b rule: push_to_conns.induct)
  case (2 c cs v b)
  then show ?case
    by (cases "socket_write c v b")
       (auto simp: drop_conn_def distinct_removeAll dest: socket_write_frame split: option.splits)
qed simp

lemma push_event_distinct: "distinct (sk_conns b) \<Longrightarrow> distinct (sk_conns (push_event e b))"
  by (simp add: push_event_def push_to_conns_distinct)

lemma command_ok:
  assumes ok: "socket_ok b" and n: "unat (sk_seq b) < 2 ^ 63 - 1"
  shows "socket_ok (handle_command s c cmd b)"
    "unat (sk_seq (handle_command s c cmd b)) \<le> Suc (unat (sk_seq b))"
proof -
  note i = next_local_id_nat [OF n]
  let ?n = "Suc (unat (sk_seq b))"
  have add: "socket_ok (socket_handler m (push_event e (b\<lparr>sk_seq := sk_seq b + 1\<rparr>)))"
    if "message_id m = local_id ?n" for m e
    using ok that push_event_distinct [of "b\<lparr>sk_seq := sk_seq b + 1\<rparr>" e]
    by (auto simp: socket_ok_def socket_handler_def i(2) intro: le_SucI)
  have w: "sk_conns (push_to c e b) = sk_conns b" "sk_seq (push_to c e b) = sk_seq b"
    "sk_handled (push_to c e b) = sk_handled b" for e
    using socket_write_frame [of c _ b] by (auto simp: push_to_def) (metis prod.collapse)+
  have "socket_ok (push_to c e b)" for e using ok w by (simp add: socket_ok_def)
  with add ok show "socket_ok (handle_command s c cmd b)"
    by (simp add: handle_command_def handle_send_def handle_send_file_def i(1) Let_def)
  show "unat (sk_seq (handle_command s c cmd b)) \<le> ?n"
    by (simp add: handle_command_def handle_send_def handle_send_file_def i socket_handler_def Let_def w)
qed

lemma socket_step_ok:
  assumes ok: "socket_ok b" and n: "unat (sk_seq b) < 2 ^ 63 - 1"
  shows "socket_ok (socket_step s op b) \<and> unat (sk_seq (socket_step s op b)) \<le> Suc (unat (sk_seq b))"
proof (cases "\<exists>c line. op = Command c line")
  case True
  then show ?thesis using ok command_ok [OF ok n] by (auto split: option.splits)
next
  case False
  note i = next_local_id_nat [OF n]
  have d: "distinct (sk_conns b)" using ok by (simp add: socket_ok_def)
  have "same_messages b (socket_step s op b)"
    using False d
    by (cases op)
       (simp_all add: same_messages_def drop_conn_def distinct_removeAll socket_send_message_def i
          socket_send_delta_def socket_send_file_def socket_set_typing_def push_event_distinct)
  with ok show ?thesis using same_messages_ok by (auto simp: same_messages_def)
qed

lemma socket_run_ok:
  "socket_ok b \<Longrightarrow> unat (sk_seq b) + length ops < 2 ^ 63 \<Longrightarrow> socket_ok (socket_run s ops b)"
proof (induction ops arbitrary: b)
  case (Cons op ops)
  have "socket_ok (socket_step s op b) \<and> unat (sk_seq (socket_step s op b)) \<le> Suc (unat (sk_seq b))"
    by (rule socket_step_ok) (use Cons.prems in simp_all)
  with Cons.IH [of "socket_step s op b"] Cons.prems(2) show ?case by simp
qed simp


section \<open>Properties\<close>

definition fresh_socket :: socket where
  "fresh_socket = \<lparr>sk_conns = [], sk_seq = 0, sk_now = 0, sk_faults = [], sk_written = [], sk_handled = []\<rparr>"

lemma socket_written_order:
  assumes "sk_written b' = ws @ map (\<lambda>c. (c, v)) ok" "length ws = n" "c \<in> set ok"
  shows "(c, v) \<in> set (drop n (sk_written b'))"
  using assms by auto

text \<open>
  A text a client sends is handed on once, under an id no other message of the process has, after it was
  written to every client that is still connected: with the id under which it is handed on, its text
  and the message it replies to. A client the line cannot be written to is disconnected.
\<close>

theorem socket_text_echoed_and_handled:
  assumes "length ops < 2 ^ 63 - 1" "b = socket_run s ops fresh_socket"
    "dec_socket_command line = Some cmd" "cm_cmd cmd = ''send''" "cm_text cmd \<noteq> []"
    "b' = socket_step s (Command c (Some line)) b"
  shows "\<exists>m e. sk_handled b' = sk_handled b @ [m] \<and> msg_text m = cm_text cmd \<and>
     reply_to_id m = cm_reply_to cmd \<and> message_id m \<notin> message_id ` set (sk_handled b) \<and>
     sm_id e = message_id m \<and> sm_content e = cm_text cmd \<and> sm_reply_to e = cm_reply_to cmd \<and>
     sm_dir e = ''out'' \<and>
     (\<forall>d \<in> set (sk_conns b'). (d, enc_socket_event (message_event e)) \<in> set (drop (length (sk_written b)) (sk_written b')))"
proof -
  have run: "socket_ok b'"
  proof -
    have app: "socket_run s (xs @ ys) x = socket_run s ys (socket_run s xs x)" for xs ys x
      by (induction xs arbitrary: x) simp_all
    have "socket_ok fresh_socket" by (simp add: socket_ok_def fresh_socket_def)
    then show ?thesis
      using socket_run_ok [of fresh_socket "ops @ [Command c (Some line)]" s] assms(1,2,6)
      by (simp add: app fresh_socket_def)
  qed
  obtain i b1 where i: "next_local_id b = (i, b1)" by (cases "next_local_id b")
  then have b1: "sk_conns b1 = sk_conns b" "sk_written b1 = sk_written b" "sk_handled b1 = sk_handled b"
    by (auto simp: next_local_id_def Let_def)
  let ?e = "zero_socket_message\<lparr>sm_id := i, sm_content := cm_text cmd, sm_ts := sk_now b1, sm_dir := ''out'',
     sm_state := ''sent'', sm_reply_to := cm_reply_to cmd, sm_type := cm_type cmd\<rparr>"
  let ?m = "\<lparr>conversation_id = socket_conversation, sender_id = ''local'', msg_text = cm_text cmd,
     message_id = i, reply_to_id = cm_reply_to cmd\<rparr>"
  have b': "b' = socket_handler ?m (push_event (message_event ?e) b1)"
    using assms(3-6) by (simp add: handle_command_def handle_send_def i Let_def)
  have h: "sk_handled b' = sk_handled b @ [?m]" by (simp add: b' socket_handler_def b1)
  with run have new: "i \<notin> message_id ` set (sk_handled b)" by (simp add: socket_ok_def)
  have "distinct (sk_conns b1)"
  proof -
    have "socket_ok b"
      using socket_run_ok [of fresh_socket ops s] assms(1,2)
      by (simp add: socket_ok_def fresh_socket_def)
    then show ?thesis by (simp add: socket_ok_def b1)
  qed
  note w = push_event_writes [OF this, of "message_event ?e"]
  have "(d, enc_socket_event (message_event ?e)) \<in> set (drop (length (sk_written b)) (sk_written b'))"
    if "d \<in> set (sk_conns b')" for d
    by (rule socket_written_order [OF _ _ that [unfolded b', simplified socket_handler_def, simplified, unfolded w(2)]])
       (use w(1) in \<open>simp_all add: b' socket_handler_def b1\<close>)
  with h new show ?thesis by (intro exI [of _ ?m] exI [of _ ?e]) auto
qed


lemma socket_fold_names [simp]:
  "fold_name ''cmd'' = ''CMD''" "fold_name ''text'' = ''TEXT''" "fold_name ''replyTo'' = ''REPLYTO''"
  "fold_name ''path'' = ''PATH''" "fold_name ''n'' = ''N''" "fold_name ''type'' = ''TYPE''"
  by code_simp+

theorem socket_text_echoed_and_handled_witness:
  "\<exists>m e. sk_handled (socket_step \<lparr>so_path = ''s'', so_name = ''OpenCrow''\<rparr>
      (Command 3 (Some (JObj [(''cmd'', JStr ''send''), (''text'', JStr ''hi'')])))
      (socket_run \<lparr>so_path = ''s'', so_name = ''OpenCrow''\<rparr> [Accept 3, Accept 4] fresh_socket)) = [m] \<and>
    msg_text m = ''hi'' \<and> sm_id e = message_id m \<and>
    (4, enc_socket_event (message_event e)) \<in> set (sk_written (socket_step \<lparr>so_path = ''s'', so_name = ''OpenCrow''\<rparr>
      (Command 3 (Some (JObj [(''cmd'', JStr ''send''), (''text'', JStr ''hi'')])))
      (socket_run \<lparr>so_path = ''s'', so_name = ''OpenCrow''\<rparr> [Accept 3, Accept 4] fresh_socket)))"
proof -
  let ?s = "\<lparr>so_path = ''s'', so_name = ''OpenCrow''\<rparr>" and ?ops = "[Accept 3, Accept 4]"
    and ?line = "JObj [(''cmd'', JStr ''send''), (''text'', JStr ''hi'')]"
  let ?b = "socket_run ?s ?ops fresh_socket"
  let ?b' = "socket_step ?s (Command 3 (Some ?line)) ?b"
  have len: "length ?ops < 2 ^ 63 - 1" by simp
  have cmd: "dec_socket_command ?line = Some \<lparr>cm_cmd = ''send'', cm_text = ''hi'', cm_reply_to = [],
      cm_path = [], cm_n = 0, cm_type = []\<rparr>"
    by (simp add: dec_socket_command_def dec_field_def obj_vals_def)
  have b: "sk_handled ?b = []" "sk_written ?b = []" by (simp_all add: fresh_socket_def)
  have conns: "4 \<in> set (sk_conns ?b')"
    by (simp add: cmd handle_command_def handle_send_def next_local_id_def Let_def push_event_def
        socket_handler_def fresh_socket_def socket_write_def)
  from socket_text_echoed_and_handled [OF len refl cmd _ _ refl, where c = 3 and s = ?s] b
  obtain m e where "sk_handled ?b' = [m]" "msg_text m = ''hi''" "sm_id e = message_id m"
    "\<forall>d \<in> set (sk_conns ?b'). (d, enc_socket_event (message_event e)) \<in> set (sk_written ?b')"
    by auto
  with conns show ?thesis by blast
qed

text \<open>
  The counter of ids starts again with the process, but the stored texts outlive it: the first
  message after a restart takes the id, and the place in the outbox, of the first one before it.
\<close>

theorem ids_repeat_after_restart:
  "let i = fst (socket_send_message t1 [] fresh_socket);
       j = fst (socket_send_message t2 [] fresh_socket);
       d = \<lparr>inbox = [], inbox_seq = 0, reminders = [], rem_seq = 0, sent = [], faults = []\<rparr>
   in fst (outbox_get ''local'' i (outbox_put ''local'' j t2 (outbox_put ''local'' i t1 d))) = t2"
proof -
  have i: "fst (socket_send_message t [] fresh_socket) = ''local-'' @ dec_int (sint (1 :: 64 word))" for t
    by (simp add: socket_send_message_def next_local_id_def fresh_socket_def Let_def)
  show ?thesis
    by (simp add: i Let_def outbox_put_faultless put_rows_def upserted_def max_outbox_def
        outbox_get_def q_get_outbox_def sql_faultless sent_key_def next_sent_rowid_def)
qed

end
