(* ===== verification/Matrix.thy ===== *)
theory Matrix
  imports Nostr_File
begin

text \<open>
  The Matrix transport (\<open>matrix/backend.go\<close>). The client library, the crypto helper, the Markdown
  renderer, the JSON texts and the MIME tables are parameters (\<open>mlib\<close>); what the homeserver answers is
  listed in the state, and files are those of \<open>nfs\<close>. The handlers of events run in goroutines of
  their own; an invitation, which gives up the mutex while it joins, is two steps.
\<close>

section \<open>Surroundings\<close>

record mlib =
  ml_files :: flib
  ml_parse_user :: "string \<Rightarrow> (string \<times> string) option"
  ml_render :: "string \<Rightarrow> string"
  ml_parse_mxc :: "string \<Rightarrow> string + string"
  ml_decrypt :: "string \<Rightarrow> string \<Rightarrow> string + string"
  ml_parse_json :: "string \<Rightarrow> json option"
  ml_print_json :: "json \<Rightarrow> string"
  ml_quote :: "string \<Rightarrow> string"

record matrix_settings =
  ms_homeserver :: string
  ms_user :: string
  ms_token :: string
  ms_password :: string
  ms_device :: string
  ms_allowed :: "string list"
  ms_pickle_key :: string
  ms_crypto_db :: string
  ms_base_dir :: string

datatype msg_type = MsgText | MsgImage | MsgFile | MsgAudio | MsgVideo | MsgOther

datatype matrix_content =
    TextContent string "string option"
  | FileContent msg_type string string string nat

record matrix =
  mx_token :: string
  mx_device :: string
  mx_synced :: bool
  mx_active :: string
  mx_crypto :: bool
  mx_fs :: nfs
  mx_calls :: outcomes
  mx_results :: "(string + string) list"
  mx_members :: "(string + nat) list"
  mx_uploads :: "(string + string) list"
  mx_whoami :: "(string + string \<times> string) list"
  mx_logins :: "(string + string \<times> string) list"
  mx_login_requests :: "(string \<times> string) list"
  mx_status :: "(string + bool \<times> bool) list"
  mx_sent :: "(string \<times> matrix_content) list"
  mx_joining :: "(nat \<times> string) list"
  mx_joined :: "string list"
  mx_left :: "string list"
  mx_cleaned :: "string list"
  mx_handled :: "message list"

fun pop :: "(string + 'a) list \<Rightarrow> (string + 'a) \<times> (string + 'a) list" where
  "pop [] = (Inl ''no answer'', [])"
| "pop (x # xs) = (x, xs)"

definition mx_call :: "matrix \<Rightarrow> string option \<times> matrix" where
  "mx_call b = (case next_fault (mx_calls b) of (f, fs) \<Rightarrow> (f, b\<lparr>mx_calls := fs\<rparr>))"

definition send_event :: "string \<Rightarrow> matrix_content \<Rightarrow> matrix \<Rightarrow> (string + string) \<times> matrix" where
  "send_event room c b =
     (case pop (mx_results b) of
        (Inl e, rs) \<Rightarrow> (Inl e, b\<lparr>mx_results := rs\<rparr>)
      | (Inr i, rs) \<Rightarrow> (Inr i, b\<lparr>mx_results := rs, mx_sent := mx_sent b @ [(room, c)]\<rparr>))"

definition on_fs :: "(nfs \<Rightarrow> 'a \<times> nfs) \<Rightarrow> matrix \<Rightarrow> 'a \<times> matrix" where
  "on_fs f b = (case f (mx_fs b) of (r, w) \<Rightarrow> (r, b\<lparr>mx_fs := w\<rparr>))"

section \<open>Login\<close>

definition session_path :: "matrix_settings \<Rightarrow> string" where
  "session_path s = path_join [path_dir (ms_crypto_db s), ''matrix-session.json'']"

definition dec_session :: "json \<Rightarrow> (string \<times> string) option" where
  "dec_session = (\<lambda>v. dec_struct (\<lambda>fs x.
     Option.bind (dec_field ''access_token'' dec_string (fst x) fs) (\<lambda>t.
     Option.bind (dec_field ''device_id'' dec_string (snd x) fs) (\<lambda>d. Some (t, d)))) ([], []) v)"

definition enc_session :: "string \<Rightarrow> string \<Rightarrow> json" where
  "enc_session token device = JObj [(''access_token'', JStr token), (''device_id'', JStr device)]"

definition whoami :: "matrix \<Rightarrow> (string + string \<times> string) \<times> matrix" where
  "whoami b = (case pop (mx_whoami b) of (r, rs) \<Rightarrow> (r, b\<lparr>mx_whoami := rs\<rparr>))"

text \<open>The stored session, if its token is valid and belongs to the configured user.\<close>

definition try_stored :: "mlib \<Rightarrow> matrix_settings \<Rightarrow> matrix \<Rightarrow> bool \<times> matrix" where
  "try_stored l s b =
     (case on_fs (fs_read (session_path s)) b of
        (Inl e, b) \<Rightarrow> (False, b)
      | (Inr data, b) \<Rightarrow>
          (case Option.bind (ml_parse_json l data) dec_session of
             None \<Rightarrow> (False, b)
           | Some (token, device) \<Rightarrow>
               (if token = [] then (False, b)
                else let b = b\<lparr>mx_token := token\<rparr>;
                         b = (if device \<noteq> [] then b\<lparr>mx_device := device\<rparr> else b)
                     in case whoami b of
                          (Inl e, b) \<Rightarrow> (False, b\<lparr>mx_token := []\<rparr>)
                        | (Inr (user, dev), b) \<Rightarrow>
                            (if user = ms_user s then (True, b) else (False, b\<lparr>mx_token := []\<rparr>)))))"

text \<open>\<open>StoreCredentials\<close> puts the token and the device of the login into the client.\<close>

definition password_login :: "mlib \<Rightarrow> matrix_settings \<Rightarrow> matrix \<Rightarrow> string option \<times> matrix" where
  "password_login l s b =
     (case (pop (mx_logins b), b\<lparr>mx_login_requests := mx_login_requests b @
              [(ms_user s, if ms_device s = [] then ''opencrow'' else ms_device s)]\<rparr>) of
        ((Inl e, rs), b) \<Rightarrow> (Some e, b\<lparr>mx_logins := rs\<rparr>)
      | ((Inr (token, device), rs), b) \<Rightarrow>
          (let b = b\<lparr>mx_logins := rs, mx_token := token, mx_device := device\<rparr>
           in case on_fs fs_call b of
                (Some e, b) \<Rightarrow> (Some e, b)
              | (None, b) \<Rightarrow>
                  (case on_fs (fs_write (session_path s) (ml_print_json l (enc_session token device))) b of
                     (Some e, b) \<Rightarrow> (Some (''persisting matrix session: '' @ e), b)
                   | (None, b) \<Rightarrow> (None, b))))"

definition ensure_password_login :: "mlib \<Rightarrow> matrix_settings \<Rightarrow> matrix \<Rightarrow> string option \<times> matrix" where
  "ensure_password_login l s b =
     (case try_stored l s b of
        (True, b) \<Rightarrow> (None, b)
      | (False, b) \<Rightarrow> password_login l s b)"

text \<open>\<open>client\<close> is the error of the client constructor.\<close>

definition new_matrix :: "mlib \<Rightarrow> matrix_settings \<Rightarrow> string option \<Rightarrow> matrix \<Rightarrow> string option \<times> matrix" where
  "new_matrix l s client b =
     (if (case ml_parse_user l (ms_user s) of None \<Rightarrow> True | Some (lp, hs) \<Rightarrow> lp = [] \<or> hs = [])
      then (Some (''OPENCROW_MATRIX_USER_ID must be a full Matrix ID like @bot:example.org, got '' @
              ml_quote l (ms_user s)), b)
      else case client of
        Some e \<Rightarrow> (Some (''creating matrix client: '' @ e), b)
      | None \<Rightarrow>
          (let b = b\<lparr>mx_token := ms_token s\<rparr>;
               b = (if ms_device s \<noteq> [] then b\<lparr>mx_device := ms_device s\<rparr> else b)
           in if ms_token s = [] then
                (case ensure_password_login l s b of
                   (Some e, b) \<Rightarrow> (Some (''matrix password login: '' @ e), b)
                 | (None, b) \<Rightarrow> (None, b))
              else (None, b)))"

section \<open>Encryption\<close>

definition cross_sign_status :: "matrix \<Rightarrow> (string + bool \<times> bool) \<times> matrix" where
  "cross_sign_status b = (case pop (mx_status b) of (r, rs) \<Rightarrow> (r, b\<lparr>mx_status := rs\<rparr>))"

definition ensure_cross_signing :: "matrix \<Rightarrow> string option \<times> matrix" where
  "ensure_cross_signing b =
     (case cross_sign_status b of
        (Inl e, b) \<Rightarrow> (Some (''checking verification status: '' @ e), b)
      | (Inr (has_keys, verified), b) \<Rightarrow>
          (if has_keys \<and> verified then (None, b)
           else case mx_call b of
             (Some e, b) \<Rightarrow> (Some (''generating cross-signing keys: '' @ e), b)
           | (None, b) \<Rightarrow> (None, b)))"

definition init_crypto_helper :: "matrix \<Rightarrow> string option \<times> matrix" where
  "init_crypto_helper b =
     (case mx_call b of
        (Some e, b) \<Rightarrow> (Some (''creating crypto helper: '' @ e), b)
      | (None, b) \<Rightarrow>
     (case mx_call b of
        (None, b) \<Rightarrow> (None, b)
      | (Some e, b) \<Rightarrow>
          (if \<not> contains e ''olm account is not marked as shared'' then (Some (''initializing crypto: '' @ e), b)
           else case mx_call b of
             (Some e, b) \<Rightarrow> (Some (''fixing shared flag in crypto database: '' @ e), b)
           | (None, b) \<Rightarrow>
          (case mx_call b of
             (Some e, b) \<Rightarrow> (Some (''creating crypto helper after flag fix: '' @ e), b)
           | (None, b) \<Rightarrow>
          (case mx_call b of
             (Some e, b) \<Rightarrow> (Some (''initializing crypto after flag fix: '' @ e), b)
           | (None, b) \<Rightarrow> (None, b))))))"

definition resolve_device :: "matrix \<Rightarrow> string option \<times> matrix" where
  "resolve_device b =
     (if mx_device b \<noteq> [] then (None, b)
      else case whoami b of
        (Inl e, b) \<Rightarrow> (Some (''fetching device ID from server: '' @ e), b)
      | (Inr (user, dev), b) \<Rightarrow>
          (if dev = [] then (Some ''server did not return a device ID; set OPENCROW_MATRIX_DEVICE_ID'', b)
           else (None, b\<lparr>mx_device := dev\<rparr>)))"

definition setup_crypto :: "matrix \<Rightarrow> string option \<times> matrix" where
  "setup_crypto b =
     (case resolve_device b of
        (Some e, b) \<Rightarrow> (Some e, b)
      | (None, b) \<Rightarrow>
     (case mx_call b of
        (Some e, b) \<Rightarrow> (Some (''opening crypto database: '' @ e), b)
      | (None, b) \<Rightarrow>
     (case mx_call b of
        (Some e, b) \<Rightarrow> (Some (''wrapping crypto database: '' @ e), b)
      | (None, b) \<Rightarrow>
     (case init_crypto_helper b of
        (Some e, b) \<Rightarrow> (Some e, b)
      | (None, b) \<Rightarrow> (None, snd (ensure_cross_signing (b\<lparr>mx_crypto := True\<rparr>)))))))"


section \<open>Sending\<close>

definition max_message_len :: nat where "max_message_len = 30000"

text \<open>\<open>strings.LastIndexByte\<close>; \<open>None\<close> for -1.\<close>

definition last_index :: "char \<Rightarrow> string \<Rightarrow> nat option" where
  "last_index c s =
     (let t = dropWhile (\<lambda>x. x \<noteq> c) (rev s) in if t = [] then None else Some (length t - 1))"

text \<open>The length of the first chunk: all of a short text, else up to the last line break that is not its first byte.\<close>

definition cut_length :: "string \<Rightarrow> nat" where
  "cut_length txt =
     (if length txt \<le> max_message_len then length txt
      else case last_index CHR 0x0A (take max_message_len txt) of
             Some idx \<Rightarrow> if 0 < idx then idx + 1 else max_message_len
           | None \<Rightarrow> max_message_len)"

lemma cut_length_pos: "txt \<noteq> [] \<Longrightarrow> 0 < cut_length txt"
  by (simp add: cut_length_def max_message_len_def split: option.splits)

definition reply_relation :: "bool \<Rightarrow> string \<Rightarrow> string option" where
  "reply_relation is_first reply = (if is_first \<and> reply \<noteq> [] then Some reply else None)"

function send_chunks :: "mlib \<Rightarrow> string \<Rightarrow> string \<Rightarrow> bool \<Rightarrow> string \<Rightarrow> string \<Rightarrow> matrix \<Rightarrow> string \<times> matrix" where
  "send_chunks l room reply is_first last_id txt b =
     (if txt = [] then (last_id, b)
      else case send_event room
                  (TextContent (ml_render l (take (cut_length txt) txt)) (reply_relation is_first reply)) b of
             (Inl e, b) \<Rightarrow> (last_id, b)
           | (Inr i, b) \<Rightarrow> send_chunks l room reply False i (drop (cut_length txt) txt) b)"
  by pat_completeness auto
termination
  by (relation "measure (\<lambda>(l, room, reply, is_first, last_id, txt, b). length txt)")
     (auto intro!: diff_less cut_length_pos)

declare send_chunks.simps [simp del]

definition matrix_send_message :: "mlib \<Rightarrow> string \<Rightarrow> string \<Rightarrow> string \<Rightarrow> matrix \<Rightarrow> string \<times> matrix" where
  "matrix_send_message l room txt reply b = send_chunks l room reply True [] txt b"

definition file_msg_type :: "string \<Rightarrow> msg_type" where
  "file_msg_type mime =
     (if has_prefix mime ''image/'' then MsgImage
      else if has_prefix mime ''audio/'' then MsgAudio
      else if has_prefix mime ''video/'' then MsgVideo else MsgFile)"

definition matrix_send_file :: "mlib \<Rightarrow> string \<Rightarrow> string \<Rightarrow> matrix \<Rightarrow> string option \<times> matrix" where
  "matrix_send_file l room path b =
     (case on_fs (fs_read path) b of
        (Inl e, b) \<Rightarrow> (Some (''reading file: '' @ e), b)
      | (Inr data, b) \<Rightarrow>
          (let mime = (let t = mime_of_ext (ml_files l) (path_ext path)
                       in if t \<noteq> [] then t else sniff (ml_files l) data)
           in case pop (mx_uploads b) of
                (Inl e, us) \<Rightarrow> (Some (''uploading media: '' @ e), b\<lparr>mx_uploads := us\<rparr>)
              | (Inr uri, us) \<Rightarrow>
                  (case send_event room (FileContent (file_msg_type mime) (path_base path) uri mime (length data))
                          (b\<lparr>mx_uploads := us\<rparr>) of
                     (Inl e, b) \<Rightarrow> (Some (''sending file message: '' @ e), b)
                   | (Inr i, b) \<Rightarrow> (None, b))))"

definition matrix_reset_conversation :: "string \<Rightarrow> matrix \<Rightarrow> matrix" where
  "matrix_reset_conversation conv b = b\<lparr>mx_active := reset_conv conv (mx_active b)\<rparr>"

section \<open>Membership\<close>

datatype membership = Invite | Leave | Ban | Join | Knock

record member_event =
  me_sender :: string
  me_target :: string
  me_room :: string
  me_membership :: "membership option"

definition cleanup_room :: "string \<Rightarrow> matrix \<Rightarrow> matrix" where
  "cleanup_room room b =
     b\<lparr>mx_active := reset_conv room (mx_active b), mx_cleaned := mx_cleaned b @ [room]\<rparr>"

text \<open>The part of \<open>handleInvite\<close> up to the join, by goroutine \<open>g\<close>, and the rest of it.\<close>

definition invite_begin :: "matrix_settings \<Rightarrow> nat \<Rightarrow> member_event \<Rightarrow> matrix \<Rightarrow> matrix" where
  "invite_begin s g ev b =
     (if me_target ev \<noteq> ms_user s then b
      else if \<not> is_allowed (ms_allowed s) (me_sender ev) then b
      else if mx_active b \<noteq> [] then b
      else b\<lparr>mx_joining := mx_joining b @ [(g, me_room ev)]\<rparr>)"

definition invite_end :: "nat \<Rightarrow> matrix \<Rightarrow> matrix" where
  "invite_end g b =
     (case map_of (mx_joining b) g of
        None \<Rightarrow> b
      | Some room \<Rightarrow>
          (case mx_call (b\<lparr>mx_joining := filter (\<lambda>(h, r). h \<noteq> g) (mx_joining b)\<rparr>) of
             (Some e, b) \<Rightarrow> b
           | (None, b) \<Rightarrow> b\<lparr>mx_joined := mx_joined b @ [room], mx_active := room\<rparr>))"

definition handle_leave :: "matrix_settings \<Rightarrow> member_event \<Rightarrow> matrix \<Rightarrow> matrix" where
  "handle_leave s ev b =
     (if me_target ev = ms_user s then cleanup_room (me_room ev) b
      else case pop (mx_members b) of
        (Inl e, ms) \<Rightarrow> b\<lparr>mx_members := ms\<rparr>
      | (Inr n, ms) \<Rightarrow>
          (if 1 < n then b\<lparr>mx_members := ms\<rparr>
           else case mx_call (b\<lparr>mx_members := ms\<rparr>) of
             (Some e, b) \<Rightarrow> cleanup_room (me_room ev) b
           | (None, b) \<Rightarrow> cleanup_room (me_room ev) (b\<lparr>mx_left := mx_left b @ [me_room ev]\<rparr>)))"

definition handle_membership :: "matrix_settings \<Rightarrow> nat \<Rightarrow> member_event \<Rightarrow> matrix \<Rightarrow> matrix" where
  "handle_membership s g ev b =
     (if \<not> mx_synced b then b
      else case me_membership ev of
        Some Invite \<Rightarrow> invite_begin s g ev b
      | Some Leave \<Rightarrow> handle_leave s ev b
      | Some Ban \<Rightarrow> handle_leave s ev b
      | _ \<Rightarrow> b)"


section \<open>Messages\<close>

record matrix_message_event =
  ev_sender :: string
  ev_room :: string
  ev_msg_id :: string

record encrypted_media =
  em_url :: string
  em_key :: string

record message_content =
  mc_type :: msg_type
  mc_body :: string
  mc_filename :: string
  mc_file :: "encrypted_media option"
  mc_url :: string
  mc_relates :: "string option"

definition filter_message :: "matrix_settings \<Rightarrow> matrix_message_event \<Rightarrow> message_content option \<Rightarrow> matrix \<Rightarrow> message_content option" where
  "filter_message s ev c b =
     (if \<not> mx_synced b then None
      else if ev_sender ev = ms_user s then None
      else if \<not> is_allowed (ms_allowed s) (ev_sender ev) then None
      else case c of
        None \<Rightarrow> None
      | Some m \<Rightarrow> if mc_type m = MsgOther then None else Some m)"

definition track_room :: "string \<Rightarrow> matrix \<Rightarrow> matrix" where
  "track_room room b = (if mx_active b = [] then b\<lparr>mx_active := room\<rparr> else b)"

definition handle_verify :: "mlib \<Rightarrow> string \<Rightarrow> matrix \<Rightarrow> matrix" where
  "handle_verify l room b =
     (case ensure_cross_signing b of
        (Some e, b) \<Rightarrow> snd (matrix_send_message l room
          (''Cross-signing failed: '' @ e @ [CHR 0x0A, CHR 0x0A] @
           ''If the homeserver requires browser approval, log in as the bot at:'' @ [CHR 0x0A] @
           ''https://account.matrix.org/account/?action=org.matrix.cross_signing_reset'' @ [CHR 0x0A, CHR 0x0A] @
           ''Approve the reset, then run `!verify` again.'') [] b)
      | (None, b) \<Rightarrow> snd (matrix_send_message l room ''Cross-signing verified.'' [] b))"

text \<open>The media URL, and whether the file is encrypted.\<close>

definition attachment_url :: "message_content \<Rightarrow> string \<times> bool" where
  "attachment_url m =
     (case mc_file m of
        Some f \<Rightarrow> if em_url f \<noteq> [] then (em_url f, True) else (mc_url m, False)
      | None \<Rightarrow> (mc_url m, False))"

text \<open>
  The prefix and suffix \<open>os.CreateTemp\<close> makes of a pattern: it is cut at its last \<open>*\<close>, and must not
  contain a separator.
\<close>

definition temp_pattern :: "string \<Rightarrow> (string \<times> string) option" where
  "temp_pattern p =
     (if CHR ''/'' \<in> set p then None
      else case last_index (CHR ''*'') p of
             None \<Rightarrow> Some (p, [])
           | Some i \<Rightarrow> Some (take i p, drop (Suc i) p))"

definition attachment_name :: "message_content \<Rightarrow> string" where
  "attachment_name m =
     (let n = mc_filename m;
          n = (if n = [] then mc_body m else n);
          n = (if n = [] then ''image.png'' else n)
      in path_base n)"

definition attachment_pattern :: "string \<Rightarrow> string" where
  "attachment_pattern name = trim_suffix name (path_ext name) @ ''_*'' @ path_ext name"

definition attachment_dest_path :: "string \<Rightarrow> message_content \<Rightarrow> nfs \<Rightarrow> (string + string) \<times> nfs" where
  "attachment_dest_path base_dir m w =
     (let dir = path_join [base_dir, ''attachments'']
      in case fs_call w of
           (Some e, w) \<Rightarrow> (Inl (''creating attachments dir: '' @ e), w)
         | (None, w) \<Rightarrow>
        (case temp_pattern (attachment_pattern (attachment_name m)) of
           None \<Rightarrow> (Inl (''creating attachment file: createtemp '' @ attachment_pattern (attachment_name m) @
                        '': pattern contains path separator''), w)
         | Some (pre, suf) \<Rightarrow>
        (case fs_call w of
           (Some e, w) \<Rightarrow> (Inl (''creating attachment file: '' @ e), w)
         | (None, w) \<Rightarrow>
        (case create_temp dir pre suf (nf_rand w) w of
           (Inl e, w) \<Rightarrow> (Inl (''creating attachment file: '' @ e), w)
         | (Inr path, w) \<Rightarrow>
        (case fs_call w of
           (Some e, w) \<Rightarrow> (Inl (''closing attachment file: '' @ e), fs_remove path w)
         | (None, w) \<Rightarrow> (Inr path, w))))))"

definition too_large :: "string \<Rightarrow> string" where
  "too_large what = what @ '' exceeds maximum size of '' @ dec_nat max_download_size @ '' bytes''"

definition download_encrypted :: "mlib \<Rightarrow> encrypted_media option \<Rightarrow> string \<Rightarrow> nfs \<Rightarrow> string option \<times> nfs" where
  "download_encrypted l f dest w =
     (case get_answer w of
        (BadRequest e, w) \<Rightarrow> (Some (''downloading encrypted media: '' @ e), w)
      | (NoResponse e, w) \<Rightarrow> (Some (''downloading encrypted media: '' @ e), w)
      | (GotResponse status body broken, w) \<Rightarrow>
          (case copy_limited body broken of
             (bytes, Some e) \<Rightarrow> (Some (''reading encrypted media: '' @ e), w)
           | (bytes, None) \<Rightarrow>
               (if max_download_size < length bytes then (Some (too_large ''encrypted attachment''), w)
                else case ml_decrypt l (case f of None \<Rightarrow> [] | Some f \<Rightarrow> em_key f) bytes of
                  Inl e \<Rightarrow> (Some (''decrypting media: '' @ e), w)
                | Inr plain \<Rightarrow>
                    (case fs_write dest plain w of
                       (Some e, w) \<Rightarrow> (Some (''writing decrypted file: '' @ e), w)
                     | (None, w) \<Rightarrow> (None, w)))))"

definition download_plain :: "string \<Rightarrow> nfs \<Rightarrow> string option \<times> nfs" where
  "download_plain dest w =
     (case get_answer w of
        (BadRequest e, w) \<Rightarrow> (Some (''downloading from matrix: '' @ e), w)
      | (NoResponse e, w) \<Rightarrow> (Some (''downloading from matrix: '' @ e), w)
      | (GotResponse status body broken, w) \<Rightarrow>
          (if status \<noteq> 200 then (Some (''download returned status '' @ dec_nat status), w)
           else case fs_write dest [] w of
             (Some e, w) \<Rightarrow> (Some (''creating file: '' @ e), w)
           | (None, w) \<Rightarrow>
          (case copy_limited body broken of
             (bytes, err) \<Rightarrow>
          (case fs_write dest bytes w of
             (Some e, w) \<Rightarrow> (Some (''writing file: '' @ e), w)
           | (None, w) \<Rightarrow>
               (case err of
                  Some e \<Rightarrow> (Some (''writing file: '' @ e), w)
                | None \<Rightarrow>
                    (if max_download_size < length bytes
                     then (Some (too_large ''attachment''), fs_remove dest w)
                     else (None, w)))))))"

definition download_attachment ::
    "mlib \<Rightarrow> matrix_settings \<Rightarrow> message_content \<Rightarrow> nfs \<Rightarrow> (string + string) \<times> nfs" where
  "download_attachment l s m w =
     (case attachment_url m of
        (url, encrypted) \<Rightarrow>
          (if url = [] then (Inl ''message has no media URL'', w)
           else case ml_parse_mxc l url of
             Inl e \<Rightarrow> (Inl (''parsing mxc URL: '' @ e), w)
           | Inr mxc \<Rightarrow>
          (case attachment_dest_path (ms_base_dir s) m w of
             (Inl e, w) \<Rightarrow> (Inl e, w)
           | (Inr dest, w) \<Rightarrow>
          (case (if encrypted then download_encrypted l (mc_file m) dest w else download_plain dest w) of
             (Some e, w) \<Rightarrow> (Inl e, fs_remove dest w)
           | (None, w) \<Rightarrow> (Inr dest, w)))))"

definition handle_attachment ::
    "mlib \<Rightarrow> matrix_settings \<Rightarrow> message_content \<Rightarrow> string \<Rightarrow> matrix \<Rightarrow> string \<times> matrix" where
  "handle_attachment l s m room b =
     (case on_fs (download_attachment l s m) b of
        (Inl e, b) \<Rightarrow> ([], snd (matrix_send_message l room (''Failed to download attachment: '' @ e) [] b))
      | (Inr path, b) \<Rightarrow>
          (attachment_text (if mc_body m = mc_filename m then [] else mc_body m) path, b))"

definition deliver :: "matrix_message_event \<Rightarrow> message_content \<Rightarrow> string \<Rightarrow> matrix \<Rightarrow> matrix" where
  "deliver ev m txt b = b\<lparr>mx_handled := mx_handled b @
     [\<lparr>conversation_id = ev_room ev, sender_id = ev_sender ev, msg_text = txt, message_id = ev_msg_id ev,
       reply_to_id = (case mc_relates m of None \<Rightarrow> [] | Some i \<Rightarrow> i)\<rparr>]\<rparr>"

definition matrix_handle_message ::
    "mlib \<Rightarrow> matrix_settings \<Rightarrow> matrix_message_event \<Rightarrow> message_content option \<Rightarrow> matrix \<Rightarrow> matrix" where
  "matrix_handle_message l s ev c b =
     (case filter_message s ev c b of
        None \<Rightarrow> b
      | Some m \<Rightarrow>
          (let b = track_room (ev_room ev) (snd (mx_call b))
           in if mc_body m = ''!verify'' then handle_verify l (ev_room ev) b
              else if mc_type m \<noteq> MsgText then
                (case handle_attachment l s m (ev_room ev) b of
                   (txt, b) \<Rightarrow> if txt = [] then b else deliver ev m txt b)
              else deliver ev m (mc_body m) b))"

section \<open>Runs\<close>

datatype matrix_op =
    MxSync string
  | MxMember nat member_event
  | MxJoined nat
  | MxMessage matrix_message_event "message_content option"
  | MxSendMessage string string string
  | MxSendFile string string
  | MxReset string

fun matrix_step :: "mlib \<Rightarrow> matrix_settings \<Rightarrow> matrix_op \<Rightarrow> matrix \<Rightarrow> matrix" where
  "matrix_step l s (MxSync since) b = (if since \<noteq> [] then b\<lparr>mx_synced := True\<rparr> else b)"
| "matrix_step l s (MxMember g ev) b = handle_membership s g ev b"
| "matrix_step l s (MxJoined g) b = invite_end g b"
| "matrix_step l s (MxMessage ev c) b = matrix_handle_message l s ev c b"
| "matrix_step l s (MxSendMessage room txt reply) b = snd (matrix_send_message l room txt reply b)"
| "matrix_step l s (MxSendFile room path) b = snd (matrix_send_file l room path b)"
| "matrix_step l s (MxReset conv) b = matrix_reset_conversation conv b"

fun matrix_run :: "mlib \<Rightarrow> matrix_settings \<Rightarrow> matrix_op list \<Rightarrow> matrix \<Rightarrow> matrix" where
  "matrix_run l s [] b = b"
| "matrix_run l s (op # ops) b = matrix_run l s ops (matrix_step l s op b)"


section \<open>Chunks\<close>

function chunks :: "string \<Rightarrow> string list" where
  "chunks tx =
     (if tx = [] then [] else take (cut_length tx) tx # chunks (drop (cut_length tx) tx))"
  by pat_completeness auto
termination
  by (relation "measure length") (auto intro!: diff_less cut_length_pos)

declare chunks.simps [simp del]

lemma chunks_Nil [simp]: "chunks [] = []" by (simp add: chunks.simps)

lemma chunks_step: "tx \<noteq> [] \<Longrightarrow> chunks tx = take (cut_length tx) tx # chunks (drop (cut_length tx) tx)"
  by (subst chunks.simps) simp

lemma last_index_lt: "last_index c s = Some i \<Longrightarrow> i < length s"
proof -
  assume "last_index c s = Some i"
  moreover have "length (dropWhile (\<lambda>x. x \<noteq> c) (rev s)) \<le> length s"
    using length_dropWhile_le [of "\<lambda>x. x \<noteq> c" "rev s"] by simp
  ultimately show ?thesis
    by (cases "dropWhile (\<lambda>x. x \<noteq> c) (rev s)") (auto simp: last_index_def Let_def)
qed

lemma cut_length_le: "cut_length tx \<le> max_message_len"
  by (auto simp: cut_length_def Suc_le_eq split: option.splits dest!: last_index_lt)

lemma chunks_ok: "c \<in> set (chunks tx) \<Longrightarrow> c \<noteq> [] \<and> length c \<le> max_message_len"
proof (induction tx rule: chunks.induct)
  case (1 tx)
  show ?case
  proof (cases "tx = []")
    case False
    with 1 cut_length_pos [OF False] cut_length_le [of tx] show ?thesis
      by (auto simp: chunks_step)
  qed (use 1 in simp)
qed

lemma concat_chunks: "concat (chunks tx) = tx"
proof (induction tx rule: chunks.induct)
  case (1 tx)
  then show ?case by (cases "tx = []") (simp_all add: chunks_step)
qed

definition chunk_contents :: "mlib \<Rightarrow> string \<Rightarrow> string \<Rightarrow> bool \<Rightarrow> string list \<Rightarrow> (string \<times> matrix_content) list" where
  "chunk_contents l room reply is_first cs =
     (case cs of
        [] \<Rightarrow> []
      | c # cs \<Rightarrow> (room, TextContent (ml_render l c) (reply_relation is_first reply)) #
                 map (\<lambda>c. (room, TextContent (ml_render l c) None)) cs)"

lemma chunk_contents_Cons:
  "chunk_contents l room reply b (c # cs) =
     (room, TextContent (ml_render l c) (reply_relation b reply)) # chunk_contents l room reply False cs"
  by (cases cs) (simp_all add: chunk_contents_def reply_relation_def)

text \<open>Whatever fails, what is sent is an initial part of the chunks.\<close>

lemma send_chunks_prefix:
  "\<exists>k. mx_sent (snd (send_chunks l room reply f i tx b)) =
     mx_sent b @ take k (chunk_contents l room reply f (chunks tx))"
proof (induction l room reply f i tx b rule: send_chunks.induct)
  case (1 l room reply f i tx b)
  show ?case
  proof (cases "tx = []")
    case True
    then show ?thesis by (intro exI [of _ 0]) (simp add: send_chunks.simps)
  next
    case False
    let ?c = "TextContent (ml_render l (take (cut_length tx) tx)) (reply_relation f reply)"
    obtain r b1 where r: "send_event room ?c b = (r, b1)" by (cases "send_event room ?c b")
    show ?thesis
    proof (cases r)
      case (Inl e)
      with r False show ?thesis
        by (intro exI [of _ 0]) (auto simp: send_chunks.simps [of l room reply f] send_event_def split: prod.splits sum.splits)
    next
      case (Inr j)
      with r have b1: "mx_sent b1 = mx_sent b @ [(room, ?c)]"
        by (auto simp: send_event_def split: prod.splits sum.splits)
      from 1 [OF False r [symmetric] Inr] obtain k where
        "mx_sent (snd (send_chunks l room reply False j (drop (cut_length tx) tx) b1)) =
           mx_sent b1 @ take k (chunk_contents l room reply False (chunks (drop (cut_length tx) tx)))" by blast
      with r Inr b1 False show ?thesis
        by (intro exI [of _ "Suc k"])
           (simp add: send_chunks.simps [of l room reply f] chunks_step chunk_contents_Cons)
    qed
  qed
qed

lemma send_chunks_all:
  "mx_results b = map Inr ids @ rest \<Longrightarrow> length ids = length (chunks tx) \<Longrightarrow>
   mx_sent (snd (send_chunks l room reply f i tx b)) = mx_sent b @ chunk_contents l room reply f (chunks tx) \<and>
   fst (send_chunks l room reply f i tx b) = (if ids = [] then i else last ids)"
proof (induction l room reply f i tx b arbitrary: ids rule: send_chunks.induct)
  case (1 l room reply f i tx b)
  show ?case
  proof (cases "tx = []")
    case True
    with 1(3) show ?thesis by (simp add: send_chunks.simps chunk_contents_def)
  next
    case False
    then obtain j js where ids: "ids = j # js" using 1(3) by (cases ids) (simp_all add: chunks_step)
    let ?c = "TextContent (ml_render l (take (cut_length tx) tx)) (reply_relation f reply)"
    let ?b = "b\<lparr>mx_results := map Inr js @ rest, mx_sent := mx_sent b @ [(room, ?c)]\<rparr>"
    have r: "send_event room ?c b = (Inr j, ?b)" using 1(2) by (simp add: send_event_def ids)
    have "mx_sent (snd (send_chunks l room reply False j (drop (cut_length tx) tx) ?b)) =
        mx_sent ?b @ chunk_contents l room reply False (chunks (drop (cut_length tx) tx)) \<and>
      fst (send_chunks l room reply False j (drop (cut_length tx) tx) ?b) = (if js = [] then j else last js)"
      by (rule 1(1) [OF False r [symmetric] refl]) (use 1(3) False ids in \<open>simp_all add: chunks_step\<close>)
    then show ?thesis
      using False by (simp add: send_chunks.simps [of l room reply f] r chunks_step chunk_contents_Cons ids)
  qed
qed


section \<open>Rooms and senders\<close>

text \<open>Most operations keep the active room, the messages handed on and the joins under way.\<close>

definition mx_kept :: "matrix \<Rightarrow> matrix \<Rightarrow> bool" where
  "mx_kept b b' \<longleftrightarrow> mx_active b' = mx_active b \<and> mx_handled b' = mx_handled b \<and>
     mx_joining b' = mx_joining b \<and> mx_synced b' = mx_synced b"

lemma kept_trans: "mx_kept b c \<Longrightarrow> mx_kept c d \<Longrightarrow> mx_kept b d"
  by (simp add: mx_kept_def)

lemma send_event_kept: "send_event r c b = (x, b') \<Longrightarrow> mx_kept b b'"
  by (auto simp: send_event_def mx_kept_def split: prod.splits sum.splits)

lemma mx_call_kept: "mx_call b = (x, b') \<Longrightarrow> mx_kept b b'"
  by (auto simp: mx_call_def mx_kept_def split: prod.splits)

lemma on_fs_kept: "on_fs f b = (x, b') \<Longrightarrow> mx_kept b b'"
  by (auto simp: on_fs_def mx_kept_def split: prod.splits)

lemma send_chunks_kept: "mx_kept b (snd (send_chunks l room reply f i tx b))"
proof (induction l room reply f i tx b rule: send_chunks.induct)
  case (1 l room reply f i tx b)
  let ?c = "TextContent (ml_render l (take (cut_length tx) tx)) (reply_relation f reply)"
  obtain r b1 where r: "send_event room ?c b = (r, b1)" by (cases "send_event room ?c b")
  note k = send_event_kept [OF r]
  have "mx_kept b b" by (simp add: mx_kept_def)
  with 1 [OF _ r [symmetric]] k show ?case
    by (cases r) (auto simp: send_chunks.simps [of l room reply f] r intro: kept_trans)
qed

lemma send_message_kept: "mx_kept b (snd (matrix_send_message l room tx reply b))"
  by (simp add: matrix_send_message_def send_chunks_kept)

lemma cross_signing_kept: "ensure_cross_signing b = (x, b') \<Longrightarrow> mx_kept b b'"
  by (auto simp: ensure_cross_signing_def cross_sign_status_def mx_kept_def
      split: prod.splits sum.splits option.splits if_splits dest!: mx_call_kept)

lemma handle_verify_kept: "mx_kept b (handle_verify l room b)"
proof -
  obtain x b1 where x: "ensure_cross_signing b = (x, b1)" by (cases "ensure_cross_signing b")
  show ?thesis
    using kept_trans [OF cross_signing_kept [OF x] send_message_kept]
    by (cases x) (simp_all add: handle_verify_def x)
qed

lemma handle_attachment_kept: "handle_attachment l s m room b = (tx, b') \<Longrightarrow> mx_kept b b'"
proof -
  assume a: "handle_attachment l s m room b = (tx, b')"
  obtain x b1 where x: "on_fs (download_attachment l s m) b = (x, b1)"
    by (cases "on_fs (download_attachment l s m) b")
  show ?thesis
    using a on_fs_kept [OF x] kept_trans [OF on_fs_kept [OF x] send_message_kept]
    by (cases x) (auto simp: handle_attachment_def x)
qed

text \<open>What is handed on comes from an allowed user, never from the bot itself.\<close>

definition from_user :: "matrix_settings \<Rightarrow> matrix_message_event \<Rightarrow> message \<Rightarrow> bool" where
  "from_user s ev m \<longleftrightarrow> sender_id m \<noteq> ms_user s \<and> is_allowed (ms_allowed s) (sender_id m) \<and>
     conversation_id m = ev_room ev \<and> message_id m = ev_msg_id ev"

lemma matrix_message_cases:
  obtains (ignored) "matrix_handle_message l s ev c b = b"
  | (kept) "mx_synced b" "mx_kept (track_room (ev_room ev) b) (matrix_handle_message l s ev c b)"
  | (handled) m b1 where "mx_synced b" "from_user s ev m" "mx_kept (track_room (ev_room ev) b) b1"
      "matrix_handle_message l s ev c b = b1\<lparr>mx_handled := mx_handled b1 @ [m]\<rparr>"
proof (cases "filter_message s ev c b")
  case None
  then show thesis by (intro ignored) (simp add: matrix_handle_message_def)
next
  case (Some m)
  then have ok: "ev_sender ev \<noteq> ms_user s" "is_allowed (ms_allowed s) (ev_sender ev)" "mx_synced b"
    by (auto simp: filter_message_def split: if_splits)
  obtain x b0 where x: "mx_call b = (x, b0)" by (cases "mx_call b")
  let ?b = "track_room (ev_room ev) b0"
  have t: "mx_kept (track_room (ev_room ev) b) ?b"
    using mx_call_kept [OF x] by (simp add: track_room_def mx_kept_def)
  obtain tx b1 where a: "handle_attachment l s m (ev_room ev) ?b = (tx, b1)"
    by (cases "handle_attachment l s m (ev_room ev) ?b")
  note k = kept_trans [OF t handle_attachment_kept [OF a]] kept_trans [OF t handle_verify_kept]
  have d: "\<exists>m'. from_user s ev m' \<and> deliver ev m y b2 = b2\<lparr>mx_handled := mx_handled b2 @ [m']\<rparr>" for y b2
    unfolding deliver_def by (rule exI, rule conjI [rotated], rule refl) (use ok in \<open>simp add: from_user_def\<close>)
  show thesis
  proof (cases "mc_body m = ''!verify''")
    case True
    with k show thesis by (intro kept) (simp_all add: ok matrix_handle_message_def Some x)
  next
    case verify: False
    show thesis
    proof (cases "mc_type m = MsgText")
      case True
      obtain m' where m': "from_user s ev m'"
        "deliver ev m (mc_body m) ?b = ?b\<lparr>mx_handled := mx_handled ?b @ [m']\<rparr>" using d by blast
      show thesis
        by (rule handled [OF ok(3) m'(1) t]) (simp add: matrix_handle_message_def Some x verify True m')
    next
      case False
      obtain m' where m': "from_user s ev m'"
        "deliver ev m tx b1 = b1\<lparr>mx_handled := mx_handled b1 @ [m']\<rparr>" using d by blast
      show thesis
      proof (cases "tx = []")
        case True
        with k verify False show thesis by (intro kept) (simp_all add: ok matrix_handle_message_def Some x a)
      next
        case tx: False
        show thesis
          by (rule handled [OF ok(3) m'(1) k(1)])
             (simp add: matrix_handle_message_def Some x verify False a tx m')
      qed
    qed
  qed
qed

lemma matrix_message_handled:
  "\<exists>ms. mx_handled (matrix_handle_message l s ev c b) = mx_handled b @ ms \<and>
     (\<forall>m \<in> set ms. from_user s ev m \<and> mx_synced b)"
proof (cases rule: matrix_message_cases [of l s ev c b])
  case ignored
  then show ?thesis by simp
next
  case kept
  then show ?thesis by (simp add: mx_kept_def track_room_def)
next
  case (handled m b1)
  then show ?thesis by (intro exI [of _ "[m]"]) (simp add: mx_kept_def track_room_def)
qed

text \<open>
  The active room stays the active room as long as nothing resets or leaves it and no join is under
  way.
\<close>

lemma matrix_message_active:
  assumes "mx_active b \<noteq> []"
  shows "mx_active (matrix_handle_message l s ev c b) = mx_active b \<and>
     mx_joining (matrix_handle_message l s ev c b) = mx_joining b"
  using assms
  by (cases rule: matrix_message_cases [of l s ev c b]) (simp_all add: mx_kept_def track_room_def)

lemma leave_other_room:
  assumes "me_room ev \<noteq> mx_active b"
  shows "mx_active (handle_leave s ev b) = mx_active b \<and> mx_joining (handle_leave s ev b) = mx_joining b"
proof -
  have clean: "mx_kept b b1 \<Longrightarrow> mx_active (cleanup_room (me_room ev) b1) = mx_active b \<and>
      mx_joining (cleanup_room (me_room ev) b1) = mx_joining b" for b1
    using assms by (auto simp: cleanup_room_def reset_conv_def mx_kept_def)
  obtain r ms where p: "pop (mx_members b) = (r, ms)" by (cases "pop (mx_members b)")
  obtain x b1 where x: "mx_call (b\<lparr>mx_members := ms\<rparr>) = (x, b1)" by (cases "mx_call (b\<lparr>mx_members := ms\<rparr>)")
  have "mx_kept b b1" "mx_kept b b" "mx_kept b (b1\<lparr>mx_left := mx_left b1 @ [me_room ev]\<rparr>)"
    using mx_call_kept [OF x] by (simp_all add: mx_kept_def)
  note c = this [THEN clean]
  show ?thesis
    using c by (cases r; cases x) (auto simp: handle_leave_def p x)
qed

fun about_room :: "string \<Rightarrow> matrix_op \<Rightarrow> bool" where
  "about_room r (MxMember g ev) = (me_room ev = r)"
| "about_room r (MxReset conv) = (conv = r)"
| "about_room r _ = False"

lemma send_file_kept: "matrix_send_file l room path b = (x, b') \<Longrightarrow> mx_kept b b'"
proof -
  assume a: "matrix_send_file l room path b = (x, b')"
  obtain r b1 where r: "on_fs (fs_read path) b = (r, b1)" by (cases "on_fs (fs_read path) b")
  obtain u us where u: "pop (mx_uploads b1) = (u, us)" by (cases "pop (mx_uploads b1)")
  have k: "mx_kept b (b1\<lparr>mx_uploads := us\<rparr>)" using on_fs_kept [OF r] by (simp add: mx_kept_def)
  show ?thesis
    using a on_fs_kept [OF r] k kept_trans [OF k send_event_kept]
    by (cases r; cases u) (auto simp: matrix_send_file_def r u Let_def split: prod.splits sum.splits)
qed

lemma active_step:
  assumes "mx_active b \<noteq> []" "mx_joining b = []" "\<not> about_room (mx_active b) op"
  shows "mx_active (matrix_step l s op b) = mx_active b \<and> mx_joining (matrix_step l s op b) = []"
proof (cases op)
  case (MxMember g ev)
  have leave: "mx_active (handle_leave s ev b) = mx_active b \<and> mx_joining (handle_leave s ev b) = []"
    using leave_other_room [of ev b s] assms MxMember by simp
  have inv: "invite_begin s g ev b = b" using assms by (simp add: invite_begin_def)
  with leave MxMember assms show ?thesis
    by (simp add: handle_membership_def split: option.splits membership.splits)
next
  case (MxMessage ev c)
  then show ?thesis using matrix_message_active assms by simp
next
  case (MxSendMessage room tx reply)
  then show ?thesis using send_message_kept [of b l room tx reply] assms by (simp add: mx_kept_def)
next
  case (MxSendFile room path)
  then show ?thesis
    using send_file_kept [of l room path b] assms
    by (cases "matrix_send_file l room path b") (simp add: mx_kept_def)
qed (use assms in \<open>auto simp: invite_end_def matrix_reset_conversation_def reset_conv_def\<close>)

lemma active_room_kept:
  "mx_active b \<noteq> [] \<Longrightarrow> mx_joining b = [] \<Longrightarrow> \<forall>op \<in> set ops. \<not> about_room (mx_active b) op \<Longrightarrow>
   mx_active (matrix_run l s ops b) = mx_active b"
proof (induction ops arbitrary: b)
  case (Cons op ops)
  have "mx_active (matrix_step l s op b) = mx_active b \<and> mx_joining (matrix_step l s op b) = []"
    by (rule active_step) (use Cons.prems in simp_all)
  with Cons.IH [of "matrix_step l s op b"] Cons.prems show ?case by simp
qed simp


section \<open>Sessions\<close>

lemma session_fold_names [simp]:
  "fold_name ''access_token'' = ''ACCESS_TOKEN''" "fold_name ''device_id'' = ''DEVICE_ID''"
  by code_simp+

lemma dec_enc_session: "dec_session (enc_session t d) = Some (t, d)"
  by (simp add: dec_session_def enc_session_def dec_field_def obj_vals_def)

text \<open>
  The session a login stores is the one a restart takes up again, on the same device, when the server
  still knows its token.
\<close>

lemma stored_session_reused:
  assumes "\<And>v. ml_parse_json l (ml_print_json l v) = Some v"
    "nf_files (mx_fs b) (session_path s) = Some (ml_print_json l (enc_session t d))"
    "nf_faults (mx_fs b) = []" "t \<noteq> []" "d \<noteq> []" "mx_whoami b = Inr (ms_user s, d) # rs"
  shows "\<exists>b'. ensure_password_login l s b = (None, b') \<and> mx_token b' = t \<and> mx_device b' = d \<and>
    mx_login_requests b' = mx_login_requests b"
  using assms
  by (simp add: ensure_password_login_def try_stored_def on_fs_def fs_read_def fs_call_def dec_enc_session
      whoami_def Let_def)

section \<open>Properties\<close>


definition sample_mlib :: mlib where
  "sample_mlib = \<lparr>ml_files = sample_flib, ml_parse_user = (\<lambda>u. Some (u, ''example.org'')), ml_render = id,
     ml_parse_mxc = Inr, ml_decrypt = (\<lambda>k c. Inr c), ml_parse_json = (\<lambda>_. None), ml_print_json = (\<lambda>_. []),
     ml_quote = id\<rparr>"

definition sample_room :: matrix where
  "sample_room = \<lparr>mx_token = ''t'', mx_device = ''d'', mx_synced = True, mx_active = [], mx_crypto = True,
     mx_fs = sample_nfs, mx_calls = [], mx_results = [Inr ''e1'', Inr ''e2''], mx_members = [], mx_uploads = [],
     mx_whoami = [], mx_logins = [], mx_login_requests = [], mx_status = [], mx_sent = [], mx_joining = [],
     mx_joined = [], mx_left = [], mx_cleaned = [], mx_handled = []\<rparr>"

lemma cut_no_break:
  "CHR 0x0A \<notin> set tx \<Longrightarrow> max_message_len < length tx \<Longrightarrow> cut_length tx = max_message_len"
proof -
  assume a: "CHR 0x0A \<notin> set tx" "max_message_len < length tx"
  have "CHR 0x0A \<notin> set (rev (take max_message_len tx))" using a(1) by (auto dest: in_set_takeD)
  then have "dropWhile (\<lambda>x. x \<noteq> CHR 0x0A) (rev (take max_message_len tx)) = []"
    by (auto simp: dropWhile_eq_Nil_conv)
  with a(2) show ?thesis by (simp add: cut_length_def last_index_def)
qed

lemma cut_short: "length tx \<le> max_message_len \<Longrightarrow> cut_length tx = length tx"
  by (simp add: cut_length_def)

text \<open>A text of 30001 bytes without a line break.\<close>

lemma chunks_two:
  assumes "CHR 0x0A \<notin> set u" "length u = max_message_len" "v \<noteq> []" "length v \<le> max_message_len"
    "CHR 0x0A \<notin> set v"
  shows "chunks (u @ v) = [u, v]"
proof -
  have "cut_length (u @ v) = max_message_len"
    by (rule cut_no_break) (use assms in \<open>auto simp: Suc_le_eq\<close>)
  then have "chunks (u @ v) = u # chunks v"
    using assms(2,3) by (subst chunks_step) simp_all
  with assms(3,4) show ?thesis by (simp add: chunks_step cut_short)
qed


text \<open>The cut does not look at characters: a two-byte character at the limit is torn apart.\<close>

theorem chunk_splits_character:
  "chunks (replicate 29999 CHR ''a'' @ [CHR 0xC3, CHR 0xA9]) =
     [replicate 29999 CHR ''a'' @ [CHR 0xC3], [CHR 0xA9]]"
proof -
  have "chunks ((replicate 29999 CHR ''a'' @ [CHR 0xC3]) @ [CHR 0xA9]) =
      [replicate 29999 CHR ''a'' @ [CHR 0xC3], [CHR 0xA9]]"
    by (rule chunks_two) (simp_all add: max_message_len_def)
  then show ?thesis by simp
qed

text \<open>
  Two invitations that are handled at the same time are both accepted, although the bot is to be in
  one room: the check and the join are not one step.
\<close>

theorem two_invites_accepted:
  assumes "is_allowed (ms_allowed s) u" "r1 \<noteq> []"
  shows "mx_joined (matrix_run l s
      [MxMember 1 \<lparr>me_sender = u, me_target = ms_user s, me_room = r1, me_membership = Some Invite\<rparr>,
       MxMember 2 \<lparr>me_sender = u, me_target = ms_user s, me_room = r2, me_membership = Some Invite\<rparr>,
       MxJoined 1, MxJoined 2] sample_room) = [r1, r2]"
  using assms
  by (simp add: sample_room_def handle_membership_def invite_begin_def invite_end_def mx_call_def)


text \<open>
  Being removed from any room, not only the active one, calls the clean-up callback, which restarts
  the agent of the active conversation.
\<close>

theorem unrelated_leave_cleans_up:
  "handle_leave s \<lparr>me_sender = u, me_target = ms_user s, me_room = ''!other'', me_membership = Some Leave\<rparr>
     (b\<lparr>mx_active := ''!room'', mx_cleaned := []\<rparr>) =
   b\<lparr>mx_active := ''!room'', mx_cleaned := [''!other'']\<rparr>"
  by (simp add: handle_leave_def cleanup_room_def reset_conv_def)

end
