(* ===== verification/Backends.thy ===== *)
theory Backends
  imports Config Signal Socket Matrix
begin

text \<open>
  The choice of the transport (\<open>createBackend\<close> in \<open>main.go\<close>): the settings each transport gets from the
  loaded configuration, and the answer of its constructor. What the constructors of Matrix and Nostr
  ask of the network and the key decoder are the arguments of \<open>new_matrix\<close> and \<open>new_nostr_backend\<close>.
\<close>

section \<open>Settings\<close>

definition create_matrix_settings :: "config \<Rightarrow> matrix_settings" where
  "create_matrix_settings c =
     \<lparr>ms_homeserver = mc_homeserver (c_matrix c), ms_user = mc_user_id (c_matrix c),
       ms_token = mc_access_token (c_matrix c), ms_password = mc_password (c_matrix c),
       ms_device = mc_device_id (c_matrix c), ms_allowed = mc_allowed (c_matrix c),
       ms_pickle_key = mc_pickle_key (c_matrix c), ms_crypto_db = mc_crypto_db (c_matrix c),
       ms_base_dir = session_dir (c_pi c)\<rparr>"

definition create_signal_settings :: "config \<Rightarrow> signal_settings" where
  "create_signal_settings c =
     \<lparr>ss_binary = sc_binary (c_signal c), ss_account = sc_account (c_signal c),
       ss_config_dir = sc_config_dir (c_signal c), ss_socket = sc_socket (c_signal c),
       ss_allowed = sc_allowed (c_signal c)\<rparr>"

definition create_socket_settings :: "config \<Rightarrow> socket_settings" where
  "create_socket_settings c = \<lparr>so_path = kc_socket (c_socket c), so_name = kc_name (c_socket c)\<rparr>"

datatype backend_settings =
    MatrixBackend matrix_settings matrix
  | NostrBackend nostr_config nostr
  | SignalBackend signal_settings
  | SocketBackend socket_settings

definition create_backend ::
    "mlib \<Rightarrow> string option \<Rightarrow> matrix \<Rightarrow> nlib \<Rightarrow> string option \<Rightarrow> (string \<Rightarrow> bool) \<Rightarrow> nostr \<Rightarrow>
     (string \<Rightarrow> string) \<Rightarrow> config \<Rightarrow> string + backend_settings" where
  "create_backend l client mx lib open_error event_ok nb quoted c =
     (if c_backend c = ''matrix'' then
        (case new_matrix l (create_matrix_settings c) client mx of
           (Some e, b) \<Rightarrow> Inl (''creating matrix backend: '' @ e)
         | (None, b) \<Rightarrow> Inr (MatrixBackend (create_matrix_settings c) b))
      else if c_backend c = ''nostr'' then
        (case new_nostr_backend lib (create_nostr_config c) open_error event_ok nb of
           (Inl e, b) \<Rightarrow> Inl (''creating nostr backend: '' @ e)
         | (Inr (pk, nc), b) \<Rightarrow> Inr (NostrBackend nc b))
      else if c_backend c = ''signal'' then
        (case new_signal (create_signal_settings c) of
           Inl e \<Rightarrow> Inl (''creating signal backend: '' @ e)
         | Inr s \<Rightarrow> Inr (SignalBackend s))
      else if c_backend c = ''socket'' then
        (case new_socket (create_socket_settings c) of
           Inl e \<Rightarrow> Inl (''creating socket backend: '' @ e)
         | Inr s \<Rightarrow> Inr (SocketBackend s))
      else Inl (''unsupported backend type: '' @ quoted (c_backend c)))"

section \<open>A configuration that loads is accepted\<close>

text \<open>
  The checks of \<open>loadConfig\<close> cover those of the constructors: with Signal or the socket a loaded
  configuration always gives a transport, which gets its settings unchanged.
\<close>

lemma loaded_config_accepted:
  assumes "config_ok c"
  shows "c_backend c = ''signal'' \<Longrightarrow>
      create_backend l client mx lib oe ok nb q c = Inr (SignalBackend (create_signal_settings c))"
    "c_backend c = ''socket'' \<Longrightarrow>
      create_backend l client mx lib oe ok nb q c = Inr (SocketBackend (create_socket_settings c))"
  using assms
  by (simp_all add: config_ok_def create_backend_def new_signal_accepts create_signal_settings_def
      new_socket_def create_socket_settings_def)

end
