(* ===== verification/Gatekeeper.thy ===== *)
theory Gatekeeper
  imports Nostr_Safety Signal Socket Matrix
begin

text \<open>
  The contract every transport keeps towards the application: it only hands on messages of senders it
  was told to accept. It is stated once, as the locale \<open>gatekeeper\<close>, and each of the four transports is
  an interpretation.
\<close>

section \<open>The contract\<close>

text \<open>
  A transport is a step function with the list of messages handed on so far; \<open>accepted\<close> says which
  messages may be.
\<close>

locale gatekeeper =
  fixes step :: "'op \<Rightarrow> 's \<Rightarrow> 's"
    and handed_on :: "'s \<Rightarrow> message list"
    and accepted :: "message \<Rightarrow> bool"
  assumes step_hands_on: "\<exists>ms. handed_on (step op b) = handed_on b @ ms \<and> list_all accepted ms"
begin

lemma run_hands_on: "\<exists>ms. handed_on (fold step ops b) = handed_on b @ ms \<and> list_all accepted ms"
proof (induction ops arbitrary: b)
  case (Cons op ops)
  obtain ms where ms: "handed_on (step op b) = handed_on b @ ms" "list_all accepted ms"
    using step_hands_on by blast
  obtain ns where ns: "handed_on (fold step ops (step op b)) = handed_on (step op b) @ ns" "list_all accepted ns"
    using Cons.IH by blast
  show ?case using ms ns by (intro exI [of _ "ms @ ns"]) simp
qed simp

lemma run_accepted:
  "list_all accepted (handed_on b) \<Longrightarrow> list_all accepted (handed_on (fold step ops b))"
  using run_hands_on [of ops b] by auto

lemma since_accepted: "m \<in> set (drop (length (handed_on b)) (handed_on (fold step ops b))) \<Longrightarrow> accepted m"
  using run_hands_on [of ops b] by (auto simp: list_all_iff)

text \<open>Nothing that was handed on is taken back or reordered.\<close>

lemma run_keeps: "take (length (handed_on b)) (handed_on (fold step ops b)) = handed_on b"
  using run_hands_on [of ops b] by auto

end

section \<open>The transports\<close>

definition from_allowed :: "string \<Rightarrow> string list \<Rightarrow> message \<Rightarrow> bool" where
  "from_allowed own allowed m \<longleftrightarrow> sender_id m \<noteq> own \<and> is_allowed allowed (sender_id m)"

definition from_local :: "message \<Rightarrow> bool" where
  "from_local m \<longleftrightarrow> sender_id m = ''local'' \<and> conversation_id m = socket_conversation"

interpretation signal_gate: gatekeeper "handle_note s" sg_handled
    "from_allowed (ss_account s) (ss_allowed s)" for s
proof
  fix n b
  show "\<exists>ms. sg_handled (handle_note s n b) = sg_handled b @ ms \<and>
      list_all (from_allowed (ss_account s) (ss_allowed s)) ms"
    using handle_note_handled [of s n b] by (auto simp: list_all_iff from_allowed_def)
qed

lemma invite_handled: "mx_handled (invite_end g b) = mx_handled b"
  by (auto simp: invite_end_def mx_call_def split: option.splits prod.splits)

lemma leave_handled: "mx_handled (handle_leave s ev b) = mx_handled b"
  by (auto simp: handle_leave_def cleanup_room_def mx_call_def split: option.splits prod.splits sum.splits)

lemma matrix_step_handled:
  "\<exists>ms. mx_handled (matrix_step l s op b) = mx_handled b @ ms \<and>
     list_all (from_allowed (ms_user s) (ms_allowed s)) ms"
proof (cases op)
  case (MxMessage ev c)
  then show ?thesis
    using matrix_message_handled [of l s ev c b] by (auto simp: list_all_iff from_allowed_def from_user_def)
next
  case (MxMember g ev)
  then show ?thesis
    by (simp add: handle_membership_def invite_begin_def leave_handled split: option.splits membership.splits)
next
  case (MxSendFile room path)
  then show ?thesis
    using send_file_kept [of l room path b] by (cases "matrix_send_file l room path b") (simp add: mx_kept_def)
next
  case (MxSendMessage room tx reply)
  then show ?thesis using send_message_kept [of b l room tx reply] by (simp add: mx_kept_def)
qed (simp_all add: invite_handled matrix_reset_conversation_def)

interpretation matrix_gate: gatekeeper "matrix_step l s" mx_handled
    "from_allowed (ms_user s) (ms_allowed s)" for l s
  by unfold_locales (rule matrix_step_handled)

lemma socket_step_handled:
  "\<exists>ms. sk_handled (socket_step s op b) = sk_handled b @ ms \<and> list_all from_local ms"
proof -
  have id: "sk_handled (snd (next_local_id b)) = sk_handled b" by (simp add: next_local_id_def Let_def)
  have to: "sk_handled (push_to c e b) = sk_handled b" for c e
    using socket_write_frame(3) [of c "enc_socket_event e" b]
    by (cases "socket_write c (enc_socket_event e) b") (simp add: push_to_def)
  obtain i b1 where i: "next_local_id b = (i, b1)" by (cases "next_local_id b")
  with id have b1: "sk_handled b1 = sk_handled b" by simp
  have cmd: "\<exists>ms. sk_handled (handle_command s c cmd b) = sk_handled b @ ms \<and> list_all from_local ms" for c cmd
    by (simp add: handle_command_def handle_send_def handle_send_file_def i b1 to Let_def socket_handler_def
        from_local_def)
  show ?thesis
    using cmd
    by (cases op) (auto simp: drop_conn_def socket_send_message_def socket_send_delta_def socket_send_file_def
        socket_set_typing_def i b1 split: option.splits)
qed

interpretation socket_gate: gatekeeper "socket_step s" sk_handled from_local for s
  by unfold_locales (rule socket_step_handled)

text \<open>A run-time panic of the Nostr handler ends the process; the step function then stays where it is.\<close>

definition nostr_next :: "nlib \<Rightarrow> nostr_config \<Rightarrow> string \<Rightarrow> nostr_op \<Rightarrow> nostr \<Rightarrow> nostr" where
  "nostr_next l c own op b = (case nostr_step l c own op b of None \<Rightarrow> b | Some b' \<Rightarrow> b')"

lemma gift_wrap_senders:
  assumes "process_gift_wrap l c own late evt b = Some b'"
  shows "\<exists>ms. nb_handled b' = nb_handled b @ ms \<and> list_all (from_allowed own (nc_allowed c)) ms"
proof (cases "gift_unwrap l evt")
  case (Inl e)
  with assms show ?thesis by (simp add: process_gift_wrap_def)
next
  case (Inr r)
  obtain fresh b1 where d: "dedup_rumor (ru_id r) b = (fresh, b1)" by (cases "dedup_rumor (ru_id r) b")
  have b1: "nb_handled b1 = nb_handled b" using dedup_run [OF d] by simp
  obtain ok a where cl: "claim (ru_pk r) (nb_active b1) = (ok, a)" by (cases "claim (ru_pk r) (nb_active b1)")
  show ?thesis
  proof (cases "fresh \<and> ru_pk r \<noteq> own \<and> is_allowed (nc_allowed c) (ru_pk r) \<and> ok")
    case True
    then have "dispatch_rumor l c own late r (b1\<lparr>nb_active := a\<rparr>) = Some b'"
      using assms by (simp add: process_gift_wrap_def Inr d cl)
    from dispatch_run [OF this] obtain m where "nb_handled b' = nb_handled b1 @ [m]" "sender_id m = ru_pk r"
      by auto
    with True b1 show ?thesis by (intro exI [of _ "[m]"]) (simp add: from_allowed_def)
  next
    case False
    with assms b1 show ?thesis by (auto simp: process_gift_wrap_def Inr d cl split: if_splits)
  qed
qed

lemma nostr_next_handled:
  "\<exists>ms. nb_handled (nostr_next l c own op b) = nb_handled b @ ms \<and>
     list_all (from_allowed own (nc_allowed c)) ms"
proof (cases op)
  case (Arrives late evt)
  then show ?thesis
    using gift_wrap_senders [of l c own late evt b] by (simp add: nostr_next_def split: option.splits)
qed (use prune_run send_message_run in \<open>simp_all add: nostr_next_def nostr_reset_conversation_def\<close>)

interpretation nostr_gate: gatekeeper "nostr_next l c own" nb_handled
    "from_allowed own (nc_allowed c)" for l c own
  by unfold_locales (rule nostr_next_handled)

section \<open>What the application may rely on\<close>

lemma receive_loop_notes:
  "receive_loop s (map RxNote ns) b = (None, fold (handle_note s) ns b)"
  by (induction ns arbitrary: b) simp_all

lemma socket_run_fold: "socket_run s ops b = fold (socket_step s) ops b"
  by (induction ops arbitrary: b) simp_all

lemma matrix_run_fold: "matrix_run l s ops b = fold (matrix_step l s) ops b"
  by (induction ops arbitrary: b) simp_all

text \<open>
  C30. Whatever arrives over Matrix, Signal or the socket, and however it interleaves with the bot's own sends,
  joins and resets: every message handed to the application comes from a user on the allow-list and
  not from the bot itself, or over the socket from the local user.
\<close>

theorem only_accepted_senders:
  assumes "mx_handled mx = []" "sg_handled sg = []" "sk_handled so = []"
  shows "list_all (from_allowed (ms_user s) (ms_allowed s)) (mx_handled (matrix_run l s ops mx)) \<and>
    list_all (from_allowed (ss_account t) (ss_allowed t))
      (sg_handled (snd (receive_loop t (map RxNote ns) sg))) \<and>
    list_all from_local (sk_handled (socket_run u cmds so))"
  unfolding matrix_run_fold receive_loop_notes snd_conv socket_run_fold
  using matrix_gate.run_accepted [of s mx l ops] signal_gate.run_accepted [of t sg ns]
    socket_gate.run_accepted [of so u cmds] assms by simp

definition sample_signal :: signal where
  "sample_signal = \<lparr>sg_active = [], sg_cancel = True, sg_rpc = True, sg_daemon = True, sg_log_tail = [],
     sg_subscription = 0, sg_faults = [], sg_exits = [], sg_answers = [], sg_calls = [], sg_handled = [],
     sg_spawned = [], sg_signals = []\<rparr>"

theorem only_accepted_senders_witness:
  "\<exists>m. mx_handled (matrix_run sample_mlib
      \<lparr>ms_homeserver = ''h'', ms_user = ''@bot'', ms_token = ''t'', ms_password = [], ms_device = [],
        ms_allowed = [''@alice''], ms_pickle_key = [], ms_crypto_db = [], ms_base_dir = ''/s''\<rparr>
      [MxMessage \<lparr>ev_sender = ''@eve'', ev_room = ''!r'', ev_msg_id = ''1''\<rparr>
         (Some \<lparr>mc_type = MsgText, mc_body = ''x'', mc_filename = [], mc_file = None, mc_url = [], mc_relates = None\<rparr>),
       MxMessage \<lparr>ev_sender = ''@alice'', ev_room = ''!r'', ev_msg_id = ''2''\<rparr>
         (Some \<lparr>mc_type = MsgText, mc_body = ''y'', mc_filename = [], mc_file = None, mc_url = [], mc_relates = None\<rparr>)]
      sample_room) = [m] \<and> from_allowed ''@bot'' [''@alice''] m"
proof -
  let ?s = "\<lparr>ms_homeserver = ''h'', ms_user = ''@bot'', ms_token = ''t'', ms_password = [], ms_device = [],
        ms_allowed = [''@alice''], ms_pickle_key = [], ms_crypto_db = [], ms_base_dir = ''/s''\<rparr>"
    and ?ops = "[MxMessage \<lparr>ev_sender = ''@eve'', ev_room = ''!r'', ev_msg_id = ''1''\<rparr>
         (Some \<lparr>mc_type = MsgText, mc_body = ''x'', mc_filename = [], mc_file = None, mc_url = [], mc_relates = None\<rparr>),
       MxMessage \<lparr>ev_sender = ''@alice'', ev_room = ''!r'', ev_msg_id = ''2''\<rparr>
         (Some \<lparr>mc_type = MsgText, mc_body = ''y'', mc_filename = [], mc_file = None, mc_url = [], mc_relates = None\<rparr>)]"
  have start: "mx_handled sample_room = []" "sg_handled sample_signal = []" "sk_handled fresh_socket = []"
    by (simp_all add: sample_room_def sample_signal_def fresh_socket_def)
  have run: "\<exists>m. mx_handled (matrix_run sample_mlib ?s ?ops sample_room) = [m]"
    by (simp add: sample_room_def matrix_handle_message_def filter_message_def is_allowed_def mx_call_def
        track_room_def deliver_def Let_def)
  from only_accepted_senders [OF start, of ?s sample_mlib ?ops
      "\<lparr>ss_binary = [], ss_account = ''bot'', ss_config_dir = [], ss_socket = ''s'', ss_allowed = []\<rparr>" "[]"
      "\<lparr>so_path = ''s'', so_name = ''OpenCrow''\<rparr>" "[]"] run
  show ?thesis by auto
qed

end
