(* ===== verification/Go_Bufio.thy ===== *)
theory Go_Bufio
  imports Prelude
begin

text \<open>
  What the sources use of Go's \<open>bufio.Scanner\<close> with its default splitter \<open>ScanLines\<close>: lines without
  their terminator, an optional carriage return dropped, a final unterminated line returned at the end of
  the input, and the error \<open>ErrTooLong\<close> when a line does not fit into the buffer. The trigger pipe and
  the socket read with the default limit of 64 KiB.
\<close>

section \<open>Reading\<close>

text \<open>What one call of \<open>Read\<close> on the underlying file or connection gives.\<close>

datatype read_result = Bytes string | AtEof | ReadFault string

text \<open>The scanner waits for more input with what it has buffered, or has stopped with \<open>Err()\<close>.\<close>

datatype scan_state = Waiting string | Stopped "string option"

definition max_scan_token_size :: nat where "max_scan_token_size = 64 * 1024"

definition err_too_long :: string where "err_too_long = ''bufio.Scanner: token too long''"

definition drop_cr :: "string \<Rightarrow> string" where
  "drop_cr s = (if s \<noteq> [] \<and> last s = CHR 0x0D then butlast s else s)"

text \<open>
  The lines completed by the bytes of one read, and what stays in the buffer: \<open>None\<close> when the buffer is
  full and holds no line end. Only then does the scanner give up, so the sizes of the reads do not matter.
\<close>

fun feed :: "nat \<Rightarrow> string \<Rightarrow> string \<Rightarrow> string list \<times> string option" where
  "feed m buf [] = ([], Some buf)"
| "feed m buf (c # cs) =
     (if c = CHR 0x0A then (case feed m [] cs of (ls, st) \<Rightarrow> (drop_cr buf # ls, st))
      else if m \<le> Suc (length buf) then ([], None)
      else feed m (buf @ [c]) cs)"

text \<open>\<open>ScanLines\<close> at the end of the input returns what is left, if anything.\<close>

definition final_token :: "string \<Rightarrow> string list" where
  "final_token buf = (if buf = [] then [] else [drop_cr buf])"

fun scan_lines :: "nat \<Rightarrow> string \<Rightarrow> read_result list \<Rightarrow> string list \<times> scan_state" where
  "scan_lines m buf [] = ([], Waiting buf)"
| "scan_lines m buf (AtEof # rs) = (final_token buf, Stopped None)"
| "scan_lines m buf (ReadFault e # rs) = (final_token buf, Stopped (Some e))"
| "scan_lines m buf (Bytes s # rs) =
     (case feed m buf s of
        (ls, None) \<Rightarrow> (ls, Stopped (Some err_too_long))
      | (ls, Some buf) \<Rightarrow> (case scan_lines m buf rs of (ls', st) \<Rightarrow> (ls @ ls', st)))"

section \<open>Lemmas\<close>

lemma drop_cr_plain [simp]: "CHR 0x0D \<notin> set s \<Longrightarrow> drop_cr s = s"
  by (cases s rule: rev_cases) (auto simp: drop_cr_def)

lemma feed_append:
  "feed m buf (xs @ ys) =
     (case feed m buf xs of
        (ls, None) \<Rightarrow> (ls, None)
      | (ls, Some buf) \<Rightarrow> (case feed m buf ys of (ls', st) \<Rightarrow> (ls @ ls', st)))"
  by (induction m buf xs rule: feed.induct) (auto split: prod.splits option.splits)

text \<open>However the bytes are split into reads, the lines are those of the whole text.\<close>

lemma scan_lines_chunks:
  "scan_lines m buf (map Bytes cs @ rs) =
     (case feed m buf (concat cs) of
        (ls, None) \<Rightarrow> (ls, Stopped (Some err_too_long))
      | (ls, Some buf) \<Rightarrow> (case scan_lines m buf rs of (ls', st) \<Rightarrow> (ls @ ls', st)))"
proof (induction cs arbitrary: buf)
  case (Cons c cs)
  then show ?case by (auto simp: feed_append split: prod.splits option.splits)
qed simp

lemma feed_line:
  "CHR 0x0A \<notin> set l \<Longrightarrow> length buf + length l < m \<Longrightarrow>
   feed m buf (l @ CHR 0x0A # s) = (case feed m [] s of (ls, st) \<Rightarrow> (drop_cr (buf @ l) # ls, st))"
  by (induction l arbitrary: buf) auto

text \<open>Short lines come back as they were written.\<close>

definition terminated :: "string list \<Rightarrow> string" where
  "terminated ls = concat (map (\<lambda>l. l @ [CHR 0x0A]) ls)"

lemma feed_terminated:
  "\<forall>l \<in> set ls. CHR 0x0A \<notin> set l \<and> length l < m \<Longrightarrow>
   feed m [] (terminated ls) = (map drop_cr ls, Some [])"
  by (induction ls) (simp_all add: terminated_def feed_line)

lemma scan_terminated:
  assumes "\<forall>l \<in> set ls. CHR 0x0A \<notin> set l \<and> length l < m" "concat cs = terminated ls"
  shows "scan_lines m [] (map Bytes cs) = (map drop_cr ls, Waiting [])"
  using scan_lines_chunks [of m "[]" cs "[]"] feed_terminated [OF assms(1)] assms(2) by simp

text \<open>A line that is too long ends the scan, whatever follows it.\<close>

lemma feed_too_long:
  "CHR 0x0A \<notin> set l \<Longrightarrow> length buf < m \<Longrightarrow> m \<le> length buf + length l \<Longrightarrow>
   feed m buf (l @ s) = ([], None)"
  by (induction l arbitrary: buf) auto

lemma trim_space_cr: "trim_space (s @ [CHR 0x0D]) = trim_space s"
proof -
  have tails: "\<forall>r \<in> set space_runes. CHR 0x0D \<notin> set (tl r)" by (simp add: space_runes_def)
  have one: "strip_one rs (u @ [CHR 0x0D]) = map_option (\<lambda>t. t @ [CHR 0x0D]) (strip_one rs u)"
    if "u \<noteq> []" "\<forall>r \<in> set rs. CHR 0x0D \<notin> set (tl r)" for u rs
    using that
  proof (induction rs)
    case (Cons r rs)
    have "has_prefix (u @ [CHR 0x0D]) r \<longleftrightarrow> has_prefix u r"
      using has_prefix_shorten [of u "CHR 0x0D" "[]" r] Cons.prems
      by (auto simp: has_prefix_iff)
    with Cons show ?case by (auto simp: has_prefix_iff)
  qed simp
  have last_cr: "strip_one (map rev space_runes) (CHR 0x0D # v) = Some v" for v
    by (simp add: space_runes_def)
  have cr: "strip_one space_runes [CHR 0x0D] = Some []" by (simp add: space_runes_def)
  have none: "strip_one space_runes [] = None" by (simp add: space_runes_def)
  have left: "strip_all space_runes (u @ [CHR 0x0D]) =
      (if strip_all space_runes u = [] then [] else strip_all space_runes u @ [CHR 0x0D])" for u
  proof (induction "length u" arbitrary: u rule: less_induct)
    case less
    show ?case
    proof (cases "u = []")
      case True
      with cr none show ?thesis by (simp add: strip_all.simps)
    next
      case False
      show ?thesis
      proof (cases "strip_one space_runes u")
        case None
        with one [OF False tails] False show ?thesis by (simp add: strip_all_id)
      next
        case (Some t)
        with strip_one_length [OF Some] less [of t] one [OF False tails] show ?thesis
          by (simp add: strip_all.simps [of _ u] strip_all.simps [of _ "u @ [CHR 0x0D]"])
      qed
    qed
  qed
  have right: "trim_right_space (u @ [CHR 0x0D]) = trim_right_space u" for u
    using last_cr [of "rev u"] by (simp add: trim_right_space_def strip_all.simps [of _ "CHR 0x0D # rev u"])
  show ?thesis
    using left [of s] right by (simp add: trim_space_def trim_left_space_def)
qed

lemma trim_space_drop_cr [simp]: "trim_space (drop_cr s) = trim_space s"
proof (cases "s \<noteq> [] \<and> last s = CHR 0x0D")
  case True
  then have "s = butlast s @ [CHR 0x0D]" by (metis append_butlast_last_id)
  then have "trim_space s = trim_space (butlast s)" by (metis trim_space_cr)
  with True show ?thesis by (simp add: drop_cr_def)
qed (auto simp: drop_cr_def)

end
