(* ===== verification/Trigger_Pipe.thy ===== *)
theory Trigger_Pipe
  imports Environment Go_Bufio
begin

text \<open>
  The trigger pipe (\<open>trigger_pipe.go\<close>): the FIFO is made, a goroutine opens it for reading and writing
  and turns every non-blank line into an item of the inbox. The line itself is the step \<open>trigger_line\<close>
  of the theory \<open>Scheduler\<close>; here are the bytes, the scanner and the loop around it.
\<close>

section \<open>Operations\<close>

text \<open>
  The body of the loop of \<open>triggerReadLoop\<close> for the lines the scanner returns: false when the loop
  returned because the context is done. A blank line is skipped before the context is looked at.
\<close>

fun handle_lines :: "string list \<Rightarrow> world \<Rightarrow> bool \<times> world" where
  "handle_lines [] w = (True, w)"
| "handle_lines (l # ls) w =
     (if trim_space l = [] then handle_lines ls w
      else if root_cancelled w then (False, w)
      else handle_lines ls (trigger_line l w))"

text \<open>
  The goroutine over what its reads give: whether it is still reading when they are used up. The FIFO is
  open for writing as well, so it has no end; closing it at the shutdown is a failing read.
\<close>

definition trigger_read_loop :: "string option \<Rightarrow> read_result list \<Rightarrow> world \<Rightarrow> bool \<times> world" where
  "trigger_read_loop open_error rs w =
     (case open_error of
        Some e \<Rightarrow> (False, w)
      | None \<Rightarrow>
          (case scan_lines max_scan_token_size [] rs of
             (ls, st) \<Rightarrow>
               (case handle_lines ls w of
                  (go, w) \<Rightarrow> (go \<and> (case st of Waiting _ \<Rightarrow> True | Stopped _ \<Rightarrow> False), w))))"

definition start_trigger_pipe ::
    "string \<Rightarrow> string option \<Rightarrow> read_result list \<Rightarrow> world \<Rightarrow> bool \<times> world" where
  "start_trigger_pipe dir open_error rs w =
     (case ensure_fifo (trigger_pipe_path dir) w of
        (Some e, w) \<Rightarrow> (False, w)
      | (None, w) \<Rightarrow> trigger_read_loop open_error rs w)"

section \<open>Lemmas\<close>

text \<open>The loop is a schedule of its lines: other goroutines run between its steps, not inside them.\<close>

lemma handle_lines_schedule: "snd (handle_lines ls w) = fold env (map ATrigger ls) w"
proof (induction ls arbitrary: w)
  case (Cons l ls)
  have idle: "fold env (map ATrigger xs) v = v" if "root_cancelled v" for xs v
    using that by (induction xs) (auto simp: trigger_line_def Let_def)
  show ?case
    using Cons [of w] Cons [of "trigger_line l w"] idle [of w "l # ls"]
    by (auto simp: trigger_line_def Let_def)
qed simp

definition line_rows :: "string list \<Rightarrow> nat \<Rightarrow> inbox_row list" where
  "line_rows ts n = map (\<lambda>(i, t). \<lparr>row_id = i, priority = priority_trigger, source = source_trigger,
     content = t, reply_to = []\<rparr>) (zip [Suc n..<Suc n + length ts] ts)"

lemma line_rows_Nil [simp]: "line_rows [] n = []"
  by (simp add: line_rows_def)

lemma line_rows_Cons: "line_rows (t # ts) n =
   \<lparr>row_id = Suc n, priority = priority_trigger, source = source_trigger, content = t, reply_to = []\<rparr>
     # line_rows ts (Suc n)"
  by (simp add: line_rows_def upt_rec)

text \<open>The lines that become items.\<close>

definition trigger_texts :: "string list \<Rightarrow> string list" where
  "trigger_texts ls = filter (\<lambda>t. t \<noteq> []) (map trim_space ls)"

lemma trigger_texts_drop_cr [simp]: "trigger_texts (map drop_cr ls) = trigger_texts ls"
  by (simp add: trigger_texts_def comp_def)

lemma trigger_line_runs:
  assumes "trim_space l \<noteq> []" "\<not> root_cancelled w" "faults (wdb w) = []"
  shows "trigger_line l w = notify priority_trigger (w\<lparr>wdb := (wdb w)\<lparr>
    faults := [], inbox := inbox (wdb w) @ [\<lparr>row_id = Suc (inbox_seq (wdb w)), priority = priority_trigger,
      source = source_trigger, content = trim_space l, reply_to = []\<rparr>],
    inbox_seq := Suc (inbox_seq (wdb w))\<rparr>\<rparr>)"
  using assms by (simp add: trigger_line_def with_db_def enqueue_run Let_def)

lemma handle_lines_run:
  assumes "\<not> root_cancelled w" "faults (wdb w) = []"
  shows "\<exists>w'. handle_lines ls w = (True, w') \<and>
    inbox (wdb w') = inbox (wdb w) @ line_rows (trigger_texts ls) (inbox_seq (wdb w)) \<and>
    (trigger_texts ls \<noteq> [] \<longrightarrow> wake w')"
  using assms
proof (induction ls arbitrary: w)
  case Nil
  then show ?case by (simp add: trigger_texts_def)
next
  case (Cons l ls)
  show ?case
  proof (cases "trim_space l = []")
    case True
    with Cons show ?thesis by (simp add: trigger_texts_def)
  next
    case False
    let ?w = "trigger_line l w"
    note run = trigger_line_runs [OF False Cons.prems]
    have "\<not> root_cancelled ?w" "faults (wdb ?w) = []" "wake ?w"
      using Cons.prems by (simp_all add: run notify_def Let_def)
    moreover from this Cons.IH [of ?w] obtain w' where "handle_lines ls ?w = (True, w')"
      "inbox (wdb w') = inbox (wdb ?w) @ line_rows (trigger_texts ls) (inbox_seq (wdb ?w))"
      "trigger_texts ls \<noteq> [] \<longrightarrow> wake w'" by blast
    moreover have "handle_lines ls ?w = (True, ?w)" if "trigger_texts ls = []"
      using that by (induction ls) (auto simp: trigger_texts_def split: if_splits)
    ultimately show ?thesis
      using False Cons.prems
      by (auto simp: trigger_texts_def line_rows_Cons run notify_def Let_def)
  qed
qed

section \<open>Properties\<close>



text \<open>
  One line of 64 KiB ends the goroutine: the scanner gives up, the FIFO is closed, and no later line, however
  short, becomes a trigger until the process is started again.
\<close>

theorem overlong_line_ends_trigger_pipe:
  assumes "CHR 0x0A \<notin> set l" "65536 \<le> length l"
  shows "trigger_read_loop None (Bytes (l @ s) # rs) w = (False, w)"
  using feed_too_long [of l "[]" max_scan_token_size s] assms
  by (simp add: trigger_read_loop_def max_scan_token_size_def)

end
