(* ===== verification/Nostr_Run.thy ===== *)
theory Nostr_Run
  imports Nostr_Safety "HOL-Library.Multiset"
begin

text \<open>
  The life of the Nostr transport between \<open>Run\<close> and its return (\<open>nostr/backend.go\<close>: the event loop of
  \<open>Run\<close>, \<open>Stop\<close>, \<open>drainAndShutdown\<close>, \<open>pruneSeenLoop\<close>; \<open>nostr/publish_queue.go\<close>: \<open>run\<close>). Five
  kinds of goroutines take turns: the event loop, one reaction per accepted message, the publish queue,
  the pruning loop, and the callers of the other operations. A step is what one of them does between two
  points where it may have to wait; a step that is not possible changes nothing, so a run is any list
  of steps and every interleaving is one.
\<close>

section \<open>An incoming event in two steps\<close>

text \<open>
  \<open>processGiftWrap\<close> up to the start of the reaction: the message to handle, if it is accepted.
\<close>

definition receive_wrap ::
    "nlib \<Rightarrow> nostr_config \<Rightarrow> string \<Rightarrow> string \<Rightarrow> nostr \<Rightarrow> rumor option \<times> nostr" where
  "receive_wrap l c own evt b =
     (case gift_unwrap l evt of
        Inl e \<Rightarrow> (None, b)
      | Inr r \<Rightarrow>
          (case dedup_rumor (ru_id r) b of
             (fresh, b) \<Rightarrow>
               (if \<not> fresh then (None, b)
                else if ru_pk r = own \<or> \<not> is_allowed (nc_allowed c) (ru_pk r) then (None, b)
                else case claim (ru_pk r) (nb_active b) of
                       (ok, a) \<Rightarrow> (if ok then Some r else None, b\<lparr>nb_active := a\<rparr>))))"

text \<open>The rest: the text and the call of the handler; false when it panics.\<close>

definition hand_on_rumor :: "nlib \<Rightarrow> nostr_config \<Rightarrow> rumor \<Rightarrow> nostr \<Rightarrow> bool \<times> nostr" where
  "hand_on_rumor l c r b =
     (case rumor_text l c r (ru_pk r) b of
        (None, b) \<Rightarrow> (False, b)
      | (Some txt, b) \<Rightarrow>
          (True, b\<lparr>nb_handled := nb_handled b @ [\<lparr>conversation_id = ru_pk r, sender_id = ru_pk r,
             msg_text = txt, message_id = ru_id r, reply_to_id = rumor_reply_target r\<rparr>]\<rparr>))"

definition react_to :: "nlib \<Rightarrow> nostr_config \<Rightarrow> string \<Rightarrow> rumor \<Rightarrow> nostr \<Rightarrow> nostr" where
  "react_to l c own r b = send_reaction l c own (ru_id r) (ru_pk r) (ru_kind r) b"

text \<open>
  The atomic step of the theory \<open>Nostr\<close> is the two steps and the reaction, with the reaction at either end.
\<close>

lemma process_gift_wrap_steps:
  "process_gift_wrap l c own late evt b =
     (case receive_wrap l c own evt b of
        (None, b) \<Rightarrow> Some b
      | (Some r, b) \<Rightarrow>
          (case hand_on_rumor l c r (if late then b else react_to l c own r b) of
             (False, b) \<Rightarrow> None
           | (True, b) \<Rightarrow> Some (if late then react_to l c own r b else b)))"
  by (simp add: process_gift_wrap_def receive_wrap_def dispatch_rumor_def hand_on_rumor_def react_to_def
      Let_def split: sum.splits prod.splits option.splits)

section \<open>The machine\<close>

datatype run_phase =
    Receiving
  | Handling rumor
  | Draining
  | AwaitingQueue
  | Returned "string option"
  | Panicked

text \<open>The publish queue: in a pass, asleep after one (until a time, or for a signal only), or ended.\<close>

datatype pub_phase = Passing | Asleep "int option" | Ended

text \<open>\<open>nr_accepted\<close> and \<open>nr_reacted\<close> record the accepted messages and the reactions that are done.\<close>

record nostr_proc =
  nr_state :: nostr
  nr_phase :: run_phase
  nr_parent_done :: bool
  nr_stopped :: bool
  nr_reactions :: "rumor list"
  nr_pub_cancelled :: bool
  nr_pub :: pub_phase
  nr_pruning :: bool
  nr_accepted :: "rumor list"
  nr_reacted :: "rumor list"

definition nr_done :: "nostr_proc \<Rightarrow> bool" where
  "nr_done s \<longleftrightarrow> nr_parent_done s \<or> nr_stopped s"

definition remove_nth :: "nat \<Rightarrow> 'a list \<Rightarrow> 'a list" where
  "remove_nth i xs = take i xs @ drop (Suc i) xs"

datatype nostr_move =
    WrapArrives string
  | StreamEnds
  | HandlerRuns
  | ReactionRuns nat
  | StopCalled
  | ParentDone
  | ReactionsDone
  | PassRuns "string list"
  | TimerFires
  | QueueSignalled
  | QueueEnds
  | QueueJoined
  | PruneRuns
  | PruneEnds
  | ReplySent string string string
  | ConversationReset string

definition loop_error :: string where "loop_error = ''nostr event loop: context canceled''"

definition wrap_arrives ::
    "nlib \<Rightarrow> nostr_config \<Rightarrow> string \<Rightarrow> string \<Rightarrow> nostr_proc \<Rightarrow> nostr_proc" where
  "wrap_arrives l c own evt s =
     (if nr_phase s \<noteq> Receiving then s
      else if nr_done s then s\<lparr>nr_phase := Draining\<rparr>
      else case receive_wrap l c own evt (nr_state s) of
             (None, b) \<Rightarrow> s\<lparr>nr_state := b\<rparr>
           | (Some r, b) \<Rightarrow> s\<lparr>nr_state := b, nr_phase := Handling r, nr_reactions := nr_reactions s @ [r],
                 nr_accepted := nr_accepted s @ [r]\<rparr>)"

definition handler_runs :: "nlib \<Rightarrow> nostr_config \<Rightarrow> nostr_proc \<Rightarrow> nostr_proc" where
  "handler_runs l c s =
     (case nr_phase s of
        Handling r \<Rightarrow>
          (case hand_on_rumor l c r (nr_state s) of
             (ok, b) \<Rightarrow> s\<lparr>nr_state := b, nr_phase := if ok then Receiving else Panicked\<rparr>)
      | _ \<Rightarrow> s)"

definition reaction_runs :: "nlib \<Rightarrow> nostr_config \<Rightarrow> string \<Rightarrow> nat \<Rightarrow> nostr_proc \<Rightarrow> nostr_proc" where
  "reaction_runs l c own i s =
     (if i < length (nr_reactions s)
      then let r = nr_reactions s ! i
           in s\<lparr>nr_state := react_to l c own r (nr_state s), nr_reactions := remove_nth i (nr_reactions s),
                nr_reacted := nr_reacted s @ [r]\<rparr>
      else s)"

text \<open>\<open>drainAndShutdown\<close>: wait for the reactions, cancel the queue, wait for it, return.\<close>

definition reactions_done :: "nostr_proc \<Rightarrow> nostr_proc" where
  "reactions_done s =
     (if nr_phase s = Draining \<and> nr_reactions s = []
      then s\<lparr>nr_phase := AwaitingQueue, nr_pub_cancelled := True\<rparr> else s)"

definition queue_joined :: "nostr_proc \<Rightarrow> nostr_proc" where
  "queue_joined s =
     (if nr_phase s = AwaitingQueue \<and> nr_pub s = Ended
      then s\<lparr>nr_phase := Returned (if nr_done s then Some loop_error else None), nr_stopped := True\<rparr>
      else s)"

text \<open>A pass of the queue and the decision after it.\<close>

definition pass_runs :: "string list \<Rightarrow> nostr_proc \<Rightarrow> nostr_proc" where
  "pass_runs order s =
     (if nr_pub s \<noteq> Passing then s
      else case q_drain_once order (nb_queue (nr_state s)) of
             (nxt, q) \<Rightarrow>
               (let s = s\<lparr>nr_state := (nr_state s)\<lparr>nb_queue := q\<rparr>\<rparr>
                in case q_run_next nxt (nr_pub_cancelled s) q of
                     Return \<Rightarrow> s\<lparr>nr_pub := Ended\<rparr>
                   | SleepFor t \<Rightarrow> s\<lparr>nr_pub := Asleep (Some t)\<rparr>
                   | AwaitSignal \<Rightarrow> s\<lparr>nr_pub := Asleep None\<rparr>
                   | GoOn \<Rightarrow> s))"

definition timer_fires :: "nostr_proc \<Rightarrow> nostr_proc" where
  "timer_fires s = (case nr_pub s of Asleep (Some t) \<Rightarrow> s\<lparr>nr_pub := Passing\<rparr> | _ \<Rightarrow> s)"

definition queue_signalled :: "nostr_proc \<Rightarrow> nostr_proc" where
  "queue_signalled s =
     (case nr_pub s of
        Asleep _ \<Rightarrow>
          (if q_wake (nb_queue (nr_state s))
           then s\<lparr>nr_pub := Passing, nr_state := (nr_state s)\<lparr>nb_queue := (nb_queue (nr_state s))\<lparr>q_wake := False\<rparr>\<rparr>\<rparr>
           else s)
      | _ \<Rightarrow> s)"

definition queue_ends :: "nostr_proc \<Rightarrow> nostr_proc" where
  "queue_ends s =
     (case nr_pub s of Asleep _ \<Rightarrow> if nr_pub_cancelled s then s\<lparr>nr_pub := Ended\<rparr> else s | _ \<Rightarrow> s)"

text \<open>One tick of \<open>pruneSeenLoop\<close>, and its return.\<close>

definition prune_runs :: "nostr_proc \<Rightarrow> nostr_proc" where
  "prune_runs s =
     (if nr_pruning s then s\<lparr>nr_state := prune_stale_seen seen_rumor_ttl (nr_state s)\<rparr> else s)"

definition prune_ends :: "nostr_proc \<Rightarrow> nostr_proc" where
  "prune_ends s = (if nr_done s then s\<lparr>nr_pruning := False\<rparr> else s)"

fun nostr_act :: "nlib \<Rightarrow> nostr_config \<Rightarrow> string \<Rightarrow> nostr_move \<Rightarrow> nostr_proc \<Rightarrow> nostr_proc" where
  "nostr_act l c own (WrapArrives evt) s = wrap_arrives l c own evt s"
| "nostr_act l c own StreamEnds s = (if nr_phase s = Receiving then s\<lparr>nr_phase := Draining\<rparr> else s)"
| "nostr_act l c own HandlerRuns s = handler_runs l c s"
| "nostr_act l c own (ReactionRuns i) s = reaction_runs l c own i s"
| "nostr_act l c own StopCalled s = s\<lparr>nr_stopped := True\<rparr>"
| "nostr_act l c own ParentDone s = s\<lparr>nr_parent_done := True\<rparr>"
| "nostr_act l c own ReactionsDone s = reactions_done s"
| "nostr_act l c own (PassRuns order) s = pass_runs order s"
| "nostr_act l c own TimerFires s = timer_fires s"
| "nostr_act l c own QueueSignalled s = queue_signalled s"
| "nostr_act l c own QueueEnds s = queue_ends s"
| "nostr_act l c own QueueJoined s = queue_joined s"
| "nostr_act l c own PruneRuns s = prune_runs s"
| "nostr_act l c own PruneEnds s = prune_ends s"
| "nostr_act l c own (ReplySent conv txt reply) s =
     s\<lparr>nr_state := snd (nostr_send_message l c conv txt reply (nr_state s))\<rparr>"
| "nostr_act l c own (ConversationReset conv) s =
     s\<lparr>nr_state := nostr_reset_conversation conv (nr_state s)\<rparr>"

abbreviation nostr_acts ::
    "nlib \<Rightarrow> nostr_config \<Rightarrow> string \<Rightarrow> nostr_move list \<Rightarrow> nostr_proc \<Rightarrow> nostr_proc" where
  "nostr_acts l c own acts s \<equiv> fold (nostr_act l c own) acts s"

text \<open>The state in which \<open>Run\<close> enters its event loop.\<close>

definition enter_loop :: "nostr \<Rightarrow> nostr_proc" where
  "enter_loop b = \<lparr>nr_state = b, nr_phase = Receiving, nr_parent_done = False, nr_stopped = False,
     nr_reactions = [], nr_pub_cancelled = False, nr_pub = Passing, nr_pruning = True,
     nr_accepted = [], nr_reacted = []\<rparr>"

section \<open>Invariants\<close>

text \<open>The messages of which the handler has already been called.\<close>

fun handed :: "run_phase \<Rightarrow> rumor list \<Rightarrow> rumor list" where
  "handed (Handling r) rs = butlast rs"
| "handed Panicked rs = butlast rs"
| "handed _ rs = rs"

text \<open>
  Reactions are accounted for; every accepted message is handed on, in order; the queue is cancelled only
  when no reaction is left, and ends only when it is cancelled.
\<close>

definition run_ok :: "message list \<Rightarrow> nostr_proc \<Rightarrow> bool" where
  "run_ok ms s \<longleftrightarrow>
     mset (nr_accepted s) = mset (nr_reacted s) + mset (nr_reactions s) \<and>
     map message_id (nb_handled (nr_state s)) =
       map message_id ms @ map ru_id (handed (nr_phase s) (nr_accepted s)) \<and>
     (\<forall>r. nr_phase s = Handling r \<longrightarrow> nr_accepted s \<noteq> [] \<and> last (nr_accepted s) = r) \<and>
     (nr_pub_cancelled s \<longleftrightarrow> nr_phase s = AwaitingQueue \<or> (\<exists>e. nr_phase s = Returned e)) \<and>
     (nr_pub_cancelled s \<longrightarrow> nr_reactions s = []) \<and>
     (nr_pub s = Ended \<longrightarrow> nr_pub_cancelled s) \<and>
     (\<forall>e. nr_phase s = Returned e \<longrightarrow> nr_pub s = Ended \<and> nr_stopped s)"

lemma enter_loop_ok: "run_ok (nb_handled b) (enter_loop b)"
  by (simp add: run_ok_def enter_loop_def)

text \<open>Steps on the state of the transport that hand nothing on leave the invariant alone.\<close>

lemma run_ok_state:
  "run_ok ms s \<Longrightarrow> nb_handled b = nb_handled (nr_state s) \<Longrightarrow> run_ok ms (s\<lparr>nr_state := b\<rparr>)"
  by (auto simp: run_ok_def)

lemma receive_wrap_handled: "receive_wrap l c own evt b = (r, b') \<Longrightarrow> nb_handled b' = nb_handled b"
  by (auto simp: receive_wrap_def split: sum.splits prod.splits if_splits dest: dedup_run)

lemma hand_on_handled:
  "hand_on_rumor l c r b = (ok, b') \<Longrightarrow>
   map message_id (nb_handled b') = map message_id (nb_handled b) @ (if ok then [ru_id r] else [])"
  by (auto simp: hand_on_rumor_def rumor_text_def split: prod.splits option.splits if_splits
      dest!: on_files_run)

lemma wrap_arrives_ok: "run_ok ms s \<Longrightarrow> run_ok ms (wrap_arrives l c own evt s)"
proof (cases "nr_phase s = Receiving \<and> \<not> nr_done s")
  case True
  obtain r b where rw: "receive_wrap l c own evt (nr_state s) = (r, b)"
    by (cases "receive_wrap l c own evt (nr_state s)")
  assume "run_ok ms s"
  with True receive_wrap_handled [OF rw] show ?thesis
    by (cases r) (auto simp: wrap_arrives_def rw run_ok_def)
qed (auto simp: wrap_arrives_def run_ok_def)

lemma handler_runs_ok: "run_ok ms s \<Longrightarrow> run_ok ms (handler_runs l c s)"
proof (cases "nr_phase s")
  case (Handling r)
  obtain ok b where h: "hand_on_rumor l c r (nr_state s) = (ok, b)"
    by (cases "hand_on_rumor l c r (nr_state s)")
  assume ok: "run_ok ms s"
  then have acc: "nr_accepted s \<noteq> []" "last (nr_accepted s) = r"
    using Handling by (simp_all add: run_ok_def)
  then have "map ru_id (nr_accepted s) = map ru_id (butlast (nr_accepted s)) @ [ru_id r]"
    by (metis append_butlast_last_id list.simps(8) list.simps(9) map_append)
  with ok acc Handling hand_on_handled [OF h] show ?thesis
    by (cases ok) (auto simp: handler_runs_def h run_ok_def)
qed (auto simp: handler_runs_def)

lemma remove_nth_mset: "i < length xs \<Longrightarrow> add_mset (xs ! i) (mset (remove_nth i xs)) = mset xs"
proof -
  assume "i < length xs"
  then have "xs = take i xs @ xs ! i # drop (Suc i) xs" by (rule id_take_nth_drop)
  then have "mset xs = mset (take i xs @ xs ! i # drop (Suc i) xs)" by metis
  then show ?thesis by (simp add: remove_nth_def)
qed

lemma reaction_runs_ok: "run_ok ms s \<Longrightarrow> run_ok ms (reaction_runs l c own i s)"
proof (cases "i < length (nr_reactions s)")
  case True
  assume ok: "run_ok ms s"
  then have "\<not> nr_pub_cancelled s" using True by (auto simp: run_ok_def)
  with ok True remove_nth_mset [OF True]
    send_reaction_run [of "nr_state s" l c own]
  show ?thesis by (auto simp: reaction_runs_def Let_def react_to_def run_ok_def)
qed (simp add: reaction_runs_def)

lemma pass_runs_ok: "run_ok ms s \<Longrightarrow> run_ok ms (pass_runs order s)"
proof (cases "nr_pub s = Passing")
  case True
  obtain n q where d: "q_drain_once order (nb_queue (nr_state s)) = (n, q)"
    by (cases "q_drain_once order (nb_queue (nr_state s))")
  assume "run_ok ms s"
  with True show ?thesis
    by (cases "q_run_next n (nr_pub_cancelled s) q")
       (auto simp: pass_runs_def d Let_def run_ok_def q_run_next_def split: if_splits)
qed (simp add: pass_runs_def)

lemma shutdown_steps_ok:
  assumes "run_ok ms s"
  shows "run_ok ms (reactions_done s)" "run_ok ms (queue_joined s)"
  using assms by (auto simp: reactions_done_def queue_joined_def run_ok_def)

lemma queue_steps_ok:
  assumes "run_ok ms s"
  shows "run_ok ms (timer_fires s)" "run_ok ms (queue_signalled s)" "run_ok ms (queue_ends s)"
  using assms
  by (cases "nr_pub s"; auto simp: timer_fires_def queue_signalled_def queue_ends_def run_ok_def split: option.splits)+

lemma context_steps_ok:
  assumes "run_ok ms s"
  shows "run_ok ms (s\<lparr>nr_stopped := True\<rparr>)" "run_ok ms (s\<lparr>nr_parent_done := True\<rparr>)"
    "run_ok ms (s\<lparr>nr_pruning := False\<rparr>)" "nr_phase s = Receiving \<Longrightarrow> run_ok ms (s\<lparr>nr_phase := Draining\<rparr>)"
  using assms by (auto simp: run_ok_def)

lemma other_steps_ok:
  assumes "run_ok ms s"
  shows "run_ok ms (prune_runs s)"
    "run_ok ms (s\<lparr>nr_state := snd (nostr_send_message l c conv body reply (nr_state s))\<rparr>)"
    "run_ok ms (s\<lparr>nr_state := nostr_reset_conversation conv (nr_state s)\<rparr>)"
  using assms prune_run [of "nr_state s" seen_rumor_ttl]
    send_message_run [of "nr_state s" l c conv body reply]
  by (simp_all add: prune_runs_def nostr_reset_conversation_def run_ok_state)

lemmas run_ok_steps = wrap_arrives_ok handler_runs_ok reaction_runs_ok pass_runs_ok shutdown_steps_ok
  queue_steps_ok context_steps_ok other_steps_ok

lemma nostr_act_ok: "run_ok ms s \<Longrightarrow> run_ok ms (nostr_act l c own a s)"
  by (cases a) (simp_all add: run_ok_steps prune_ends_def)

lemma nostr_acts_ok: "run_ok ms s \<Longrightarrow> run_ok ms (nostr_acts l c own acts s)"
  by (induction acts arbitrary: s) (simp_all add: nostr_act_ok)

section \<open>The way out\<close>

text \<open>
  Once the event loop is left, these steps end the run: every reaction, the queue wherever it is, the joins.
\<close>

definition way_out :: "nostr_proc \<Rightarrow> nostr_move list" where
  "way_out s = replicate (length (nr_reactions s)) (ReactionRuns 0) @ [ReactionsDone, PassRuns [], QueueEnds, QueueJoined]"

lemma remove_first [simp]: "remove_nth 0 xs = tl xs"
  by (cases xs) (simp_all add: remove_nth_def)

lemma reactions_run_out:
  "nr_phase s = Draining \<Longrightarrow>
   \<exists>b rs. nostr_acts l c own (replicate (length (nr_reactions s)) (ReactionRuns 0)) s =
     s\<lparr>nr_state := b, nr_reactions := [], nr_reacted := rs\<rparr>"
proof (induction "length (nr_reactions s)" arbitrary: s)
  case 0
  then show ?case by (intro exI [of _ "nr_state s"] exI [of _ "nr_reacted s"]) simp
next
  case (Suc n)
  let ?s = "reaction_runs l c own 0 s"
  have s: "?s = s\<lparr>nr_state := nr_state ?s, nr_reactions := tl (nr_reactions s), nr_reacted := nr_reacted ?s\<rparr>"
    using Suc.hyps(2) by (simp add: reaction_runs_def Let_def)
  have "n = length (nr_reactions ?s)" "nr_phase ?s = Draining"
    using Suc.hyps(2) Suc.prems by (subst s; simp)+
  from Suc.hyps(1) [OF this] obtain b rs where
    "nostr_acts l c own (replicate n (ReactionRuns 0)) ?s = ?s\<lparr>nr_state := b, nr_reactions := [], nr_reacted := rs\<rparr>"
    using \<open>n = length (nr_reactions ?s)\<close> by auto
  moreover have "?s\<lparr>nr_state := b, nr_reactions := [], nr_reacted := rs\<rparr> =
      s\<lparr>nr_state := b, nr_reactions := [], nr_reacted := rs\<rparr>" by (subst s) simp
  ultimately show ?case using Suc.hyps(2) [symmetric] by auto
qed

lemma way_out_returns:
  assumes "run_ok ms s" "nr_phase s = Draining"
  shows "\<exists>e. nr_phase (nostr_acts l c own (way_out s) s) = Returned e"
proof -
  obtain b rs where r: "nostr_acts l c own (replicate (length (nr_reactions s)) (ReactionRuns 0)) s =
      s\<lparr>nr_state := b, nr_reactions := [], nr_reacted := rs\<rparr>"
    using reactions_run_out [OF assms(2)] by blast
  obtain n q where d: "q_drain_once [] (nb_queue b) = (n, q)" by (cases "q_drain_once [] (nb_queue b)")
  have "nr_pub s \<noteq> Ended" using assms by (auto simp: run_ok_def)
  with assms(2) d show ?thesis
    by (cases "nr_pub s")
       (simp_all add: way_out_def r reactions_done_def pass_runs_def queue_ends_def queue_joined_def
          q_run_next_def Let_def del: fold_replicate)
qed

lemma awaiting_returns:
  assumes "nr_phase s = AwaitingQueue" "run_ok ms s"
  shows "\<exists>e. nr_phase (nostr_acts l c own [PassRuns [], QueueEnds, QueueJoined] s) = Returned e"
proof -
  obtain n q where d: "q_drain_once [] (nb_queue (nr_state s)) = (n, q)"
    by (cases "q_drain_once [] (nb_queue (nr_state s))")
  have "nr_pub_cancelled s" using assms by (simp add: run_ok_def)
  with assms(1) d show ?thesis
    by (cases "nr_pub s") (simp_all add: pass_runs_def queue_ends_def queue_joined_def q_run_next_def Let_def)
qed

section \<open>Properties\<close>

definition sample_stop :: "nostr_move list" where
  "sample_stop = [WrapArrives ''m1'', HandlerRuns, PassRuns [''wss://d''], ReactionRuns 0, StopCalled, StreamEnds,
     ReactionsDone, QueueEnds, QueueJoined]"





section \<open>What the shutdown does not do\<close>

text \<open>
  The comment in \<open>drainAndShutdown\<close> says that the queue ends after it has processed the final items. Here
  the reaction is enqueued while the queue sleeps; at the shutdown the queue ends without another pass,
  and \<open>Run\<close> returns with the event offered to no relay. It stays in the table for the next start.
\<close>

theorem last_reaction_unpublished:
  "case nostr_acts sample_nlib sample_nostr_config ''bot'' sample_stop (enter_loop sample_nostr) of s \<Rightarrow>
     nr_phase s = Returned (Some loop_error) \<and> map event (q_items (nb_queue (nr_state s))) = [''wrap alice''] \<and>
     map delivered (q_items (nb_queue (nr_state s))) = [False] \<and>
     map pr_event (q_rows (nb_queue (nr_state s))) = [''wrap alice'']"
  by code_simp

text \<open>
  When the stream of events ends although nobody stopped the transport, \<open>Run\<close> returns no error, so that
  the process exits with status 0.
\<close>

theorem lost_stream_is_no_error:
  "nr_phase (nostr_acts l c own [StreamEnds, ReactionsDone, PassRuns [], QueueEnds, QueueJoined] (enter_loop b)) =
     Returned None"
proof -
  obtain n q where "q_drain_once [] (nb_queue b) = (n, q)" by (cases "q_drain_once [] (nb_queue b)")
  then show ?thesis
    by (simp add: enter_loop_def reactions_done_def pass_runs_def queue_ends_def queue_joined_def
        q_run_next_def nr_done_def Let_def)
qed

end
