(* ===== verification/Transports.thy ===== *)
theory Transports
  imports App Signal Socket Matrix Nostr_Run Go_Bufio
begin

text \<open>
  What the transports tell the rest of the program about themselves: the text each adds to the system
  prompt, how much Markdown its clients render, whether it streams (\<open>SystemPromptExtra\<close>,
  \<open>MarkdownFlavor\<close> and the optional interface \<open>Streamer\<close>); the remaining operations of Matrix
  (\<open>Run\<close>, \<open>SetTyping\<close>, \<open>Close\<close>); and the bytes of a connection of the socket.
\<close>

section \<open>System prompts\<close>

definition matrix_prompt_extra :: string where
  "matrix_prompt_extra = join nl
     [''You are living in a Matrix chat room.'',
      [],
      ''## Sending files to the user'',
      [],
      ''You can send files back to the user in the Matrix chat. To do this, include a <sendfile> tag'',
      ''in your response with the absolute path to the file:'',
      [],
      ''<sendfile>/path/to/file.png</sendfile>'',
      [],
      ''The bot will upload the file and deliver it as an attachment. You can include multiple'',
      ''<sendfile> tags in a single response. The tags will be stripped from the text message.'',
      ''Use this whenever you create a file the user should receive (charts, images, PDFs, scripts, etc.).'',
      [],
      ''## File attachments from the user'',
      [],
      ''When users send files (images, documents, etc.) in the chat, they are downloaded locally'',
      ''and you'll see them as '' @ [CHR 0x22] @ ''[User sent a file (<caption>): <path>]'' @ [CHR 0x22] @ ''. Use the read tool to'',
      ''view the file at the given path.'']"

definition nostr_prompt_lines :: string where
  "nostr_prompt_lines = join nl
     [''You are communicating via Nostr encrypted DMs (NIP-17).'',
      [],
      ''## Sending files to the user'',
      [],
      ''You can send files back to the user. To do this, include a <sendfile> tag'',
      ''in your response with the absolute path to the file:'',
      [],
      ''<sendfile>/path/to/file.png</sendfile>'',
      [],
      ''The bot will upload the file to a Blossom server and send the URL in a DM.'',
      ''You can include multiple <sendfile> tags in a single response.'']"

text \<open>\<open>%v\<close> prints a slice of strings in brackets, separated by spaces.\<close>

definition nostr_prompt_extra :: "nostr_config \<Rightarrow> string" where
  "nostr_prompt_extra c = nostr_prompt_lines @
     (if nc_blossom c \<noteq> [] then nl @ nl @ ''Blossom servers: ['' @ join '' '' (nc_blossom c) @ '']'' else [])"

definition signal_prompt_extra :: string where
  "signal_prompt_extra = join nl
     [''You are communicating via Signal (signal-cli backend).'',
      [],
      ''## Sending files to the user'',
      [],
      ''You can send files back to the user in Signal. To do this, include a <sendfile> tag'',
      ''in your response with the absolute path to the file:'',
      [],
      ''<sendfile>/path/to/file.png</sendfile>'',
      [],
      ''The bot will send the file as an attachment via signal-cli.'',
      ''You can include multiple <sendfile> tags in a single response.'',
      [],
      ''## File attachments from the user'',
      [],
      ''When users send files in Signal, you'll receive a message like:'',
      [CHR 0x22] @ ''[User sent a file (...): /path/to/file]'' @ [CHR 0x22],
      ''Use the read tool to inspect the file.'']"

definition socket_prompt_extra :: string where "socket_prompt_extra = []"

section \<open>Markdown\<close>

definition matrix_flavor :: markdown_flavor where "matrix_flavor = MarkdownFull"
definition nostr_flavor :: markdown_flavor where "nostr_flavor = MarkdownBasic"
definition signal_flavor :: markdown_flavor where "signal_flavor = MarkdownNone"
definition socket_flavor :: markdown_flavor where "socket_flavor = MarkdownFull"

section \<open>The example in the prompts\<close>

text \<open>The paths of the tags in a text, and what makes a mention of the tag none.\<close>

definition tag_paths :: "string \<Rightarrow> string list" where
  "tag_paths s = fst (send_file_matches s)"

lemma tag_paths_text: "CHR ''<'' \<notin> set t \<Longrightarrow> tag_paths (t @ s) = tag_paths s"
  by (simp add: tag_paths_def matches_text split: prod.splits)

lemma tag_paths_tagged: "plain_path p \<Longrightarrow> tag_paths (tagged p @ s) = p # tag_paths s"
  by (simp add: tag_paths_def matches_tagged split: prod.splits)

lemma tag_paths_skip: "match_tag (c # s) = None \<Longrightarrow> tag_paths (c # s) = tag_paths s"
  by (simp add: tag_paths_def send_file_matches.simps [of "c # s"] split: prod.splits)

lemma close_after_contains: "close_after s = Some r \<Longrightarrow> contains s close_tag"
proof -
  assume "close_after s = Some r"
  then have "contains (dropWhile re_space s) close_tag"
    by (auto simp: close_after_def Let_def split: if_splits dest: contains_prefix)
  then show ?thesis by (metis contains_append1 takeWhile_dropWhile_id)
qed

lemma scan_body_contains: "scan_body s = Some (b, r) \<Longrightarrow> contains s close_tag"
proof (induction s arbitrary: b)
  case Nil
  then show ?case by (subst (asm) scan_body.simps) (auto split: option.splits dest: close_after_contains)
next
  case (Cons c s)
  then show ?case
    by (subst (asm) scan_body.simps) (auto split: option.splits if_splits dest: close_after_contains)
qed

lemma match_tag_contains: "match_tag s = Some (b, r) \<Longrightarrow> contains s close_tag"
proof -
  assume "match_tag s = Some (b, r)"
  then have "contains (dropWhile re_space (drop (length open_tag) s)) close_tag"
    by (auto simp: match_tag_def split: if_splits dest: scan_body_contains)
  moreover have "s = take (length open_tag) s @ takeWhile re_space (drop (length open_tag) s) @
      dropWhile re_space (drop (length open_tag) s)" by simp
  ultimately show ?thesis by (metis contains_append1)
qed

lemma tag_paths_unclosed: "\<not> contains s close_tag \<Longrightarrow> tag_paths s = []"
proof (induction s)
  case (Cons c s)
  then have "match_tag (c # s) = None" using match_tag_contains [of "c # s"] by (cases "match_tag (c # s)") auto
  with Cons show ?case by (simp add: tag_paths_skip)
qed (simp add: tag_paths_def send_file_matches.simps)

text \<open>A tag whose line ends with plain words is none.\<close>

lemma scan_body_line:
  assumes "CHR ''<'' \<notin> set u" "CHR 0x0A \<notin> set u" "\<not> re_space c" "c \<noteq> CHR ''<''"
  shows "scan_body (u @ CHR 0x0A # c # s) = None"
  using assms
proof (induction u)
  case Nil
  then show ?case by (subst scan_body.simps) (simp add: close_after_def re_space_def close_tag_def)
next
  case (Cons x u)
  let ?t = "(x # u) @ CHR 0x0A # c # s"
  have "close_after ?t = None"
  proof (cases "\<exists>y \<in> set (x # u). \<not> re_space y")
    case True
    then have "dropWhile re_space (x # u) \<noteq> []" by (simp only: dropWhile_eq_Nil_conv) blast
    then obtain y v where "dropWhile re_space (x # u) = y # v" "y \<in> set (x # u)"
      by (metis list.exhaust list.set_intros(1) set_dropWhileD)
    moreover have "y \<noteq> CHR ''<''" using calculation(2) Cons.prems(1) by auto
    moreover have "dropWhile re_space ?t = dropWhile re_space (x # u) @ CHR 0x0A # c # s"
      using True dropWhile_append1 [of _ "x # u" re_space] by auto
    ultimately show ?thesis by (simp add: close_after_def close_tag_def)
  next
    case False
    then have "dropWhile re_space ?t = c # s"
      using Cons.prems(3) by (subst dropWhile_append2) (auto simp: re_space_def)
    with Cons.prems(4) show ?thesis by (simp add: close_after_def close_tag_def)
  qed
  with Cons show ?case by (subst scan_body.simps) auto
qed

lemma tag_paths_line:
  assumes "CHR ''<'' \<notin> set (w # u)" "CHR 0x0A \<notin> set (w # u)" "\<not> re_space w" "\<not> re_space c" "c \<noteq> CHR ''<''"
  shows "tag_paths (open_tag @ CHR '' '' # w # u @ CHR 0x0A # c # s) = tag_paths (c # s)"
proof -
  let ?t = "CHR '' '' # w # u @ CHR 0x0A # c # s"
  have "scan_body ((w # u) @ CHR 0x0A # c # s) = None" by (rule scan_body_line) (use assms in auto)
  moreover have "dropWhile re_space ?t = w # u @ CHR 0x0A # c # s"
    using assms(3) by (simp add: re_space_def)
  ultimately have "match_tag (open_tag @ ?t) = None" by (simp add: match_tag_def)
  then have "tag_paths (open_tag @ ?t) = tag_paths (tl open_tag @ ?t)"
    using tag_paths_skip [of "hd open_tag" "tl open_tag @ ?t"] by (simp add: open_tag_def)
  also have "\<dots> = tag_paths ((w # u @ [CHR 0x0A]) @ c # s)"
    using tag_paths_text [of "tl open_tag @ '' ''"] by (simp add: open_tag_def)
  also have "\<dots> = tag_paths (c # s)"
    by (rule tag_paths_text) (use assms(1) in auto)
  finally show ?thesis .
qed

definition example_path :: string where "example_path = ''/path/to/file.png''"

lemma example_path_plain: "plain_path example_path"
  by (simp add: plain_path_def example_path_def) (rule trim_space_id; simp add: space_runes_def)

text \<open>The shape of the three prompts: two mentions before and after the example.\<close>

lemma tag_paths_prompt:
  assumes "CHR ''<'' \<notin> set before" "CHR ''<'' \<notin> set (c # middle)" "\<not> re_space c" "\<not> contains rest close_tag"
  shows "tag_paths (before @ open_tag @ '' tag'' @ CHR 0x0A # c # middle @ tagged example_path @ rest) = [example_path]"
proof -
  have "c \<noteq> CHR ''<''" using assms(2) by auto
  then have "tag_paths (open_tag @ '' tag'' @ CHR 0x0A # c # middle @ tagged example_path @ rest) =
      tag_paths ((c # middle) @ tagged example_path @ rest)"
    using tag_paths_line [of "CHR ''t''" "''ag''" c "middle @ tagged example_path @ rest"] assms(2,3)
    by (simp add: re_space_def)
  then show ?thesis
    using assms example_path_plain tag_paths_text [of before] tag_paths_text [of "c # middle"]
    by (simp add: tag_paths_tagged tag_paths_unclosed)
qed

text \<open>Two adjacent bytes that open a closing tag; cheaper to look for than the tag.\<close>

fun closing_pair :: "string \<Rightarrow> bool" where
  "closing_pair (a # b # s) \<longleftrightarrow> (a = CHR ''<'' \<and> b = CHR ''/'') \<or> closing_pair (b # s)"
| "closing_pair _ \<longleftrightarrow> False"

lemma closing_pair_append: "closing_pair s \<Longrightarrow> closing_pair (u @ s)"
proof (induction u)
  case (Cons a u)
  then show ?case by (cases "u @ s") auto
qed simp

lemma closing_pair_first: "closing_pair s \<Longrightarrow> CHR ''<'' \<in> set s"
  by (induction s rule: closing_pair.induct) auto

lemma contains_closing: "contains s close_tag \<Longrightarrow> closing_pair s"
  by (auto simp: contains_iff close_tag_def intro!: closing_pair_append)

text \<open>A prompt: text, the mention at the end of a line, text, the example, text without a closing tag.\<close>

definition shows_example :: "string \<Rightarrow> bool" where
  "shows_example p \<longleftrightarrow>
     (let before = takeWhile (\<lambda>c. c \<noteq> CHR ''<'') p;
          t = drop 15 (dropWhile (\<lambda>c. c \<noteq> CHR ''<'') p);
          middle = takeWhile (\<lambda>c. c \<noteq> CHR ''<'') t;
          rest = drop 38 (dropWhile (\<lambda>c. c \<noteq> CHR ''<'') t)
      in p = before @ open_tag @ '' tag'' @ nl @ middle @ tagged example_path @ rest \<and>
         middle \<noteq> [] \<and> \<not> re_space (hd middle) \<and> \<not> closing_pair rest)"

lemma closing_pair_plain:
  assumes "CHR ''<'' \<notin> set x" "\<not> has_prefix x ''/''"
  shows "closing_pair (s @ x) \<Longrightarrow> closing_pair s"
proof (induction s)
  case Nil
  with assms(1) show ?case by (auto dest: closing_pair_first)
next
  case (Cons a s)
  show ?case
  proof (cases s)
    case Nil
    with Cons.prems assms show ?thesis by (cases x) (auto dest: closing_pair_first)
  next
    case (Cons b t)
    with Cons.IH Cons.prems show ?thesis by auto
  qed
qed

lemma shows_example_paths:
  assumes s: "shows_example p" and x: "CHR ''<'' \<notin> set x" "\<not> has_prefix x ''/''"
  shows "tag_paths (p @ x) = [example_path]"
proof -
  let ?before = "takeWhile (\<lambda>c. c \<noteq> CHR ''<'') p"
    and ?t = "drop 15 (dropWhile (\<lambda>c. c \<noteq> CHR ''<'') p)"
  let ?middle = "takeWhile (\<lambda>c. c \<noteq> CHR ''<'') ?t"
    and ?rest = "drop 38 (dropWhile (\<lambda>c. c \<noteq> CHR ''<'') ?t)"
  from s obtain c u where c: "?middle = c # u" by (cases ?middle) (auto simp: shows_example_def Let_def)
  note h = s [unfolded shows_example_def Let_def c list.sel]
  have words: "CHR ''<'' \<notin> set ?before" "CHR ''<'' \<notin> set (c # u)"
    unfolding c [symmetric] by (auto dest: set_takeWhileD)
  have "\<not> contains (?rest @ x) close_tag" using h x contains_closing closing_pair_plain by blast
  then have "tag_paths (?before @ open_tag @ '' tag'' @ CHR 0x0A # c # u @ tagged example_path @ ?rest @ x) = [example_path]"
    by (intro tag_paths_prompt) (use h words in blast)+
  moreover have "p = ?before @ open_tag @ '' tag'' @ CHR 0x0A # c # u @ tagged example_path @ ?rest"
    using conjunct1 [OF h] by (simp only: nl_def append.simps)
  then have "p @ x = ?before @ open_tag @ '' tag'' @ CHR 0x0A # c # u @ tagged example_path @ ?rest @ x"
    by (metis append.assoc append_Cons)
  ultimately show ?thesis by metis
qed

lemma shows_example_prompts:
  "shows_example matrix_prompt_extra" "shows_example nostr_prompt_lines" "shows_example signal_prompt_extra"
  by code_simp+

lemma extract_example: "tag_paths p = [example_path] \<Longrightarrow> snd (extract_send_files p) = [example_path]"
  using example_path_plain
  by (auto simp: tag_paths_def extract_send_files_def plain_path_def split: prod.splits)

lemma join_plain:
  "c \<notin> set sep \<Longrightarrow> \<forall>u \<in> set us. c \<notin> set u \<Longrightarrow> c \<notin> set (join sep us)"
  by (induction us rule: induct_list012) auto

section \<open>Matrix: running, typing, closing\<close>

text \<open>
  \<open>Run\<close>: the encryption is set up, the handlers are registered, and the sync loop of the client library
  delivers the events, here \<open>ops\<close>, until it returns; \<open>default_syncer\<close> says that the client has the
  library's own syncer.
\<close>

definition matrix_serve ::
    "mlib \<Rightarrow> matrix_settings \<Rightarrow> bool \<Rightarrow> matrix_op list \<Rightarrow> string option \<Rightarrow> matrix \<Rightarrow> string option \<times> matrix" where
  "matrix_serve l s default_syncer ops sync b =
     (case setup_crypto b of
        (Some e, b) \<Rightarrow> (Some (''setting up e2ee: '' @ e), b)
      | (None, b) \<Rightarrow>
          (if \<not> default_syncer then (Some ''unexpected syncer type'', b)
           else (map_option (\<lambda>e. ''matrix sync: '' @ e) sync, matrix_run l s ops b)))"

text \<open>What \<open>SetTyping\<close> asks of the homeserver: the room, the state and its lifetime; a failure is only logged.\<close>

definition matrix_set_typing :: "string \<Rightarrow> bool \<Rightarrow> matrix \<Rightarrow> (string \<times> bool \<times> int) \<times> matrix" where
  "matrix_set_typing room typing b =
     ((room, typing, if typing then 30 * second else 0), snd (mx_call b))"

definition matrix_close :: "matrix \<Rightarrow> string option \<times> matrix" where
  "matrix_close b =
     (if \<not> mx_crypto b then (None, b)
      else case mx_call b of
        (Some e, b) \<Rightarrow> (Some (''closing crypto helper: '' @ e), b)
      | (None, b) \<Rightarrow> (None, b))"

lemma mx_call_handled: "mx_call b = (r, b') \<Longrightarrow> mx_handled b' = mx_handled b"
  by (auto simp: mx_call_def split: prod.splits)

lemma resolve_device_handled: "resolve_device b = (r, b') \<Longrightarrow> mx_handled b' = mx_handled b"
  by (auto simp: resolve_device_def whoami_def split: if_splits sum.splits prod.splits)

lemma cross_signing_handled: "mx_handled (snd (ensure_cross_signing b)) = mx_handled b"
  by (auto simp: ensure_cross_signing_def cross_sign_status_def split: sum.splits prod.splits option.splits
      dest: mx_call_handled)

lemma init_crypto_handled: "init_crypto_helper b = (r, b') \<Longrightarrow> mx_handled b' = mx_handled b"
  unfolding init_crypto_helper_def
  by (auto split: prod.splits option.splits if_splits dest!: mx_call_handled)

lemma setup_crypto_handled:
  assumes "setup_crypto b = (r, b')"
  shows "mx_handled b' = mx_handled b"
proof -
  obtain r1 b1 where 1: "resolve_device b = (r1, b1)" by (cases "resolve_device b")
  obtain r2 b2 where 2: "mx_call b1 = (r2, b2)" by (cases "mx_call b1")
  obtain r3 b3 where 3: "mx_call b2 = (r3, b3)" by (cases "mx_call b2")
  obtain r4 b4 where 4: "init_crypto_helper b3 = (r4, b4)" by (cases "init_crypto_helper b3")
  have h: "mx_handled b1 = mx_handled b" "mx_handled b2 = mx_handled b" "mx_handled b3 = mx_handled b"
    "mx_handled b4 = mx_handled b"
    using resolve_device_handled [OF 1] mx_call_handled [OF 2] mx_call_handled [OF 3] init_crypto_handled [OF 4]
    by simp_all
  show ?thesis
    using assms h cross_signing_handled [of "b4\<lparr>mx_crypto := True\<rparr>"]
    by (auto simp: setup_crypto_def 1 2 3 4 split: option.splits)
qed

section \<open>Properties\<close>

text \<open>
  What the prompts of the transports teach the agent is what the parser of its replies understands: of the
  mentions of the tag in such a prompt exactly the example counts as a tag, with the path between the
  tags, whatever servers the Nostr prompt lists.
\<close>

theorem prompt_example_understood:
  assumes "\<forall>u \<in> set (nc_blossom c). CHR ''<'' \<notin> set u"
  shows "snd (extract_send_files (nostr_prompt_extra c)) = [''/path/to/file.png''] \<and>
    snd (extract_send_files matrix_prompt_extra) = [''/path/to/file.png''] \<and>
    snd (extract_send_files signal_prompt_extra) = [''/path/to/file.png'']"
proof -
  have "CHR ''<'' \<notin> set (if nc_blossom c \<noteq> [] then nl @ nl @ ''Blossom servers: ['' @ join '' '' (nc_blossom c) @ '']'' else [])"
    using join_plain [of "CHR ''<''" "'' ''" "nc_blossom c"] assms by (simp add: nl_def)
  then have "tag_paths (nostr_prompt_extra c) = [example_path]"
    unfolding nostr_prompt_extra_def
    by (rule shows_example_paths [OF shows_example_prompts(2)]) (simp add: nl_def)
  moreover have "tag_paths matrix_prompt_extra = [example_path]" "tag_paths signal_prompt_extra = [example_path]"
    using shows_example_paths [OF shows_example_prompts(1), of "[]"]
      shows_example_paths [OF shows_example_prompts(3), of "[]"] by simp_all
  ultimately show ?thesis using extract_example unfolding example_path_def by blast
qed

theorem prompt_example_understood_witness:
  "snd (extract_send_files (nostr_prompt_extra (sample_nostr_config\<lparr>nc_blossom := [''https://b'']\<rparr>))) =
     [''/path/to/file.png'']"
  using prompt_example_understood [of "sample_nostr_config\<lparr>nc_blossom := [''https://b'']\<rparr>"] by simp

end
