(* ===== verification/Socket_Server.thy ===== *)
theory Socket_Server
  imports Socket Go_Bufio "HOL-Library.Multiset"
begin

text \<open>
  The server of the socket transport (\<open>Run\<close>, \<open>handleConn\<close> and \<open>Stop\<close> in \<open>socket/backend.go\<close>) with the
  goroutines apart: the accept loop, one reader per connection and the callers of \<open>SendMessage\<close>. A
  command that carries a message is three steps of its reader, taking an id, writing to all
  connections and calling the handler, and a send of the bot is two; between them anyone else may run.
  In the theory \<open>Socket\<close> each is one step.
\<close>

section \<open>A command in steps\<close>

datatype task = Echo socket_message message | HandOn message

definition local_message :: "string \<Rightarrow> string \<Rightarrow> string \<Rightarrow> message" where
  "local_message txt i reply = \<lparr>conversation_id = socket_conversation, sender_id = ''local'', msg_text = txt,
     message_id = i, reply_to_id = reply\<rparr>"

text \<open>\<open>handleCommand\<close> up to the first write: the work that is left, if there is any.\<close>

definition begin_command :: "socket_settings \<Rightarrow> nat \<Rightarrow> socket_command \<Rightarrow> socket \<Rightarrow> task option \<times> socket" where
  "begin_command s c cmd b =
     (if cm_cmd cmd = ''send'' then
        (if cm_text cmd = [] then (None, b)
         else case next_local_id b of
           (i, b) \<Rightarrow> (Some (Echo (zero_socket_message\<lparr>sm_id := i, sm_content := cm_text cmd, sm_ts := sk_now b,
                      sm_dir := ''out'', sm_state := ''sent'', sm_reply_to := cm_reply_to cmd, sm_type := cm_type cmd\<rparr>)
                    (local_message (cm_text cmd) i (cm_reply_to cmd))), b))
      else if cm_cmd cmd = ''send-file'' then
        (if cm_path cmd = [] then (None, b)
         else case next_local_id b of
           (i, b) \<Rightarrow> (Some (Echo (zero_socket_message\<lparr>sm_id := i, sm_ts := sk_now b, sm_dir := ''out'',
                      sm_state := ''sent'', sm_image := cm_path cmd\<rparr>)
                    (local_message (attachment_text [] (cm_path cmd)) i [])), b))
      else (None, handle_command s c cmd b))"

fun advance :: "task \<Rightarrow> socket \<Rightarrow> task option \<times> socket" where
  "advance (Echo e m) b = (Some (HandOn m), push_event (message_event e) b)"
| "advance (HandOn m) b = (None, socket_handler m b)"

text \<open>A task that nobody interrupts.\<close>

definition finish :: "task option \<Rightarrow> socket \<Rightarrow> socket" where
  "finish t b =
     (case t of
        None \<Rightarrow> b
      | Some t \<Rightarrow> (case advance t b of (None, b) \<Rightarrow> b | (Some t, b) \<Rightarrow> snd (advance t b)))"

text \<open>The atomic command of the theory \<open>Socket\<close> is the uninterrupted one.\<close>

lemma handle_command_steps:
  "handle_command s c cmd b = (case begin_command s c cmd b of (t, b) \<Rightarrow> finish t b)"
  by (simp add: begin_command_def handle_command_def handle_send_def handle_send_file_def finish_def
      local_message_def split: prod.splits)

section \<open>The server\<close>

text \<open>
  \<open>sv_readers\<close> are the connections whose goroutine waits for a line, \<open>sv_tasks\<close> those in the middle of a
  command, \<open>sv_sends\<close> the messages of the bot that have an id but are not written yet; \<open>sv_sent\<close> are
  those that are. \<open>sv_result\<close> is what \<open>Run\<close> returned.
\<close>

record socket_server =
  sv_state :: socket
  sv_done :: bool
  sv_listening :: bool
  sv_result :: "string option option"
  sv_readers :: "nat list"
  sv_tasks :: "(nat \<times> task) list"
  sv_sends :: "socket_message list"
  sv_sent :: "string list"

text \<open>
  \<open>Run\<close> up to its accept loop; a failing \<open>chmod\<close> is only logged, and removing the old socket may fail.
\<close>

definition socket_listen :: "socket_settings \<Rightarrow> outcomes \<Rightarrow> string option" where
  "socket_listen s fs =
     (case next_fault fs of
        (Some e, fs) \<Rightarrow> Some (''creating socket parent dir: '' @ e)
      | (None, fs) \<Rightarrow>
          (case next_fault fs of
             (Some e, fs) \<Rightarrow> Some (''listening on '' @ so_path s @ '': '' @ e)
           | (None, fs) \<Rightarrow> None))"

definition socket_serve :: "socket_settings \<Rightarrow> outcomes \<Rightarrow> socket \<Rightarrow> socket_server" where
  "socket_serve s fs b =
     (let r = socket_listen s fs
      in \<lparr>sv_state = b\<lparr>sk_conns := []\<rparr>, sv_done = False, sv_listening = (r = None),
           sv_result = (case r of None \<Rightarrow> None | Some e \<Rightarrow> Some (Some e)),
           sv_readers = [], sv_tasks = [], sv_sends = [], sv_sent = []\<rparr>)"

datatype server_move =
    Dial nat
  | AcceptFails
  | ListenerCloses
  | StopServer
  | LineRead nat "json option"
  | TaskRuns nat
  | ReadEnds nat
  | BotTakesId string string
  | BotTakesIdForFile string
  | BotWrites nat
  | BotStreams string string
  | BotTypes bool
  | ClockTicks int

definition dial :: "nat \<Rightarrow> socket_server \<Rightarrow> socket_server" where
  "dial c v =
     (if sv_listening v \<and> sv_result v = None \<and> c \<notin> set (sv_readers v) \<and> c \<notin> fst ` set (sv_tasks v)
      then v\<lparr>sv_state := (sv_state v)\<lparr>sk_conns := removeAll c (sk_conns (sv_state v)) @ [c]\<rparr>,
             sv_readers := sv_readers v @ [c]\<rparr>
      else v)"

text \<open>The end of \<open>handleConn\<close>: the connection is forgotten.\<close>

definition end_conn :: "nat \<Rightarrow> socket_server \<Rightarrow> socket_server" where
  "end_conn c v = v\<lparr>sv_state := drop_conn c (sv_state v), sv_readers := removeAll c (sv_readers v)\<rparr>"

definition line_read :: "socket_settings \<Rightarrow> nat \<Rightarrow> json option \<Rightarrow> socket_server \<Rightarrow> socket_server" where
  "line_read s c line v =
     (if c \<notin> set (sv_readers v) then v
      else if sv_done v then end_conn c v
      else case Option.bind line dec_socket_command of
             None \<Rightarrow> v
           | Some cmd \<Rightarrow>
               (case begin_command s c cmd (sv_state v) of
                  (None, b) \<Rightarrow> v\<lparr>sv_state := b\<rparr>
                | (Some t, b) \<Rightarrow> v\<lparr>sv_state := b, sv_readers := removeAll c (sv_readers v),
                      sv_tasks := sv_tasks v @ [(c, t)]\<rparr>))"

definition task_runs :: "nat \<Rightarrow> socket_server \<Rightarrow> socket_server" where
  "task_runs k v =
     (if k < length (sv_tasks v)
      then case sv_tasks v ! k of
             (c, t) \<Rightarrow>
               (case advance t (sv_state v) of
                  (None, b) \<Rightarrow> v\<lparr>sv_state := b, sv_tasks := take k (sv_tasks v) @ drop (Suc k) (sv_tasks v),
                      sv_readers := sv_readers v @ [c]\<rparr>
                | (Some t, b) \<Rightarrow> v\<lparr>sv_state := b, sv_tasks := (sv_tasks v)[k := (c, t)]\<rparr>)
      else v)"

definition bot_takes_id :: "(string \<Rightarrow> socket \<Rightarrow> socket_message) \<Rightarrow> socket_server \<Rightarrow> socket_server" where
  "bot_takes_id msg v =
     (case next_local_id (sv_state v) of
        (i, b) \<Rightarrow> v\<lparr>sv_state := b, sv_sends := sv_sends v @ [msg i b]\<rparr>)"

definition bot_text :: "string \<Rightarrow> string \<Rightarrow> string \<Rightarrow> socket \<Rightarrow> socket_message" where
  "bot_text txt reply i b = zero_socket_message\<lparr>sm_id := i, sm_content := txt, sm_ts := sk_now b,
     sm_dir := ''in'', sm_state := ''sent'', sm_reply_to := reply\<rparr>"

definition bot_file :: "string \<Rightarrow> string \<Rightarrow> socket \<Rightarrow> socket_message" where
  "bot_file path i b = zero_socket_message\<lparr>sm_id := i, sm_ts := sk_now b, sm_dir := ''in'',
     sm_state := ''sent'', sm_image := path\<rparr>"

definition bot_writes :: "nat \<Rightarrow> socket_server \<Rightarrow> socket_server" where
  "bot_writes k v =
     (if k < length (sv_sends v)
      then v\<lparr>sv_state := push_event (message_event (sv_sends v ! k)) (sv_state v),
             sv_sent := sv_sent v @ [sm_id (sv_sends v ! k)],
             sv_sends := take k (sv_sends v) @ drop (Suc k) (sv_sends v)\<rparr>
      else v)"

text \<open>An error of \<open>Accept\<close> ends \<open>Run\<close> without an error once the context is done, and is only logged before.\<close>

fun server_act :: "socket_settings \<Rightarrow> server_move \<Rightarrow> socket_server \<Rightarrow> socket_server" where
  "server_act s (Dial c) v = dial c v"
| "server_act s AcceptFails v =
     (if sv_result v = None \<and> sv_done v then v\<lparr>sv_result := Some None\<rparr> else v)"
| "server_act s ListenerCloses v = (if sv_done v then v\<lparr>sv_listening := False\<rparr> else v)"
| "server_act s StopServer v = v\<lparr>sv_done := True\<rparr>"
| "server_act s (LineRead c line) v = line_read s c line v"
| "server_act s (TaskRuns k) v = task_runs k v"
| "server_act s (ReadEnds c) v = (if c \<in> set (sv_readers v) then end_conn c v else v)"
| "server_act s (BotTakesId txt reply) v = bot_takes_id (bot_text txt reply) v"
| "server_act s (BotTakesIdForFile path) v = bot_takes_id (bot_file path) v"
| "server_act s (BotWrites k) v = bot_writes k v"
| "server_act s (BotStreams i d) v = v\<lparr>sv_state := socket_send_delta i d (sv_state v)\<rparr>"
| "server_act s (BotTypes t) v = v\<lparr>sv_state := socket_set_typing t (sv_state v)\<rparr>"
| "server_act s (ClockTicks t) v = v\<lparr>sv_state := (sv_state v)\<lparr>sk_now := t\<rparr>\<rparr>"

abbreviation server_run :: "socket_settings \<Rightarrow> server_move list \<Rightarrow> socket_server \<Rightarrow> socket_server" where
  "server_run s moves v \<equiv> fold (server_act s) moves v"

text \<open>
  The moves of the goroutine of one connection over what its reads give; \<open>parse\<close> is the JSON decoder.
\<close>

definition conn_moves :: "(string \<Rightarrow> json option) \<Rightarrow> nat \<Rightarrow> read_result list \<Rightarrow> server_move list" where
  "conn_moves parse c rs =
     (case scan_lines max_scan_token_size [] rs of
        (ls, st) \<Rightarrow> map (\<lambda>l. LineRead c (parse l)) ls @
          (case st of Waiting _ \<Rightarrow> [] | Stopped _ \<Rightarrow> [ReadEnds c]))"

section \<open>Every id is used once\<close>

fun task_id :: "task \<Rightarrow> string" where
  "task_id (Echo e m) = message_id m"
| "task_id (HandOn m) = message_id m"

definition ids_in_use :: "socket_server \<Rightarrow> string multiset" where
  "ids_in_use v = mset (map message_id (sk_handled (sv_state v))) +
     mset (map (\<lambda>(c, t). task_id t) (sv_tasks v)) + mset (map sm_id (sv_sends v)) + mset (sv_sent v)"

definition ids_issued :: "nat \<Rightarrow> string multiset" where
  "ids_issued n = mset (map local_id [1..<Suc n])"

lemma ids_issued_Suc: "ids_issued (Suc n) = add_mset (local_id (Suc n)) (ids_issued n)"
  by (simp add: ids_issued_def)

lemma ids_issued_distinct: "mset xs \<subseteq># ids_issued n \<Longrightarrow> distinct xs"
proof -
  assume sub: "mset xs \<subseteq># ids_issued n"
  have "distinct (map local_id [1..<Suc n])" by (simp add: distinct_map inj_on_def del: upt_Suc)
  then have one: "count (ids_issued n) i \<le> 1" for i
    unfolding ids_issued_def distinct_count_atmost_1 by (simp del: upt_Suc)
  have "count (mset xs) i = (if i \<in> set xs then 1 else 0)" for i
  proof (cases "i \<in> set xs")
    case True
    then have "1 \<le> count (mset xs) i" by (simp add: Suc_le_eq)
    moreover have "count (mset xs) i \<le> 1" using one mset_subset_eq_count [OF sub] order_trans by blast
    ultimately have "count (mset xs) i = 1" by (rule antisym [symmetric])
    with True show ?thesis by (simp only: if_True)
  qed (simp add: count_mset_0_iff)
  then show "distinct xs" by (simp add: distinct_count_atmost_1)
qed

definition ids_ok :: "socket_server \<Rightarrow> bool" where
  "ids_ok v \<longleftrightarrow> ids_in_use v = ids_issued (unat (sk_seq (sv_state v)))"

lemma ids_ok_updates [simp]:
  "ids_ok (v\<lparr>sv_done := x1\<rparr>) = ids_ok v" "ids_ok (v\<lparr>sv_listening := x2\<rparr>) = ids_ok v"
  "ids_ok (v\<lparr>sv_result := x3\<rparr>) = ids_ok v" "ids_ok (v\<lparr>sv_readers := x4\<rparr>) = ids_ok v"
  by (simp_all add: ids_ok_def ids_in_use_def)

text \<open>Steps that take no id and hand nothing on.\<close>

lemma ids_ok_state:
  "ids_ok v \<Longrightarrow> sk_seq b = sk_seq (sv_state v) \<Longrightarrow> sk_handled b = sk_handled (sv_state v) \<Longrightarrow>
   ids_ok (v\<lparr>sv_state := b\<rparr>)"
  by (simp add: ids_ok_def ids_in_use_def)

lemma end_conn_ok: "ids_ok v \<Longrightarrow> ids_ok (end_conn c v)"
  by (simp add: ids_ok_def ids_in_use_def end_conn_def drop_conn_def)

lemma push_to_frame [simp]: "sk_seq (push_to c e b) = sk_seq b" "sk_handled (push_to c e b) = sk_handled b"
proof -
  obtain r b' where w: "socket_write c (enc_socket_event e) b = (r, b')"
    by (cases "socket_write c (enc_socket_event e) b")
  show "sk_seq (push_to c e b) = sk_seq b" "sk_handled (push_to c e b) = sk_handled b"
    using socket_write_frame(2,3) [OF w] by (simp_all add: push_to_def w)
qed

text \<open>A command takes at most one id, for the task it leaves.\<close>

lemma other_command_frame:
  assumes "cm_cmd cmd \<noteq> ''send''" "cm_cmd cmd \<noteq> ''send-file''"
  shows "sk_seq (handle_command s c cmd b) = sk_seq b" "sk_handled (handle_command s c cmd b) = sk_handled b"
  using assms by (simp_all add: handle_command_def)

lemma begin_command_run:
  assumes "unat (sk_seq b) < 2 ^ 63 - 1" "begin_command s c cmd b = (t, b')"
  shows "sk_handled b' = sk_handled b \<and>
    (case t of None \<Rightarrow> sk_seq b' = sk_seq b
     | Some t \<Rightarrow> task_id t = local_id (Suc (unat (sk_seq b))) \<and> sk_seq b' = sk_seq b + 1)"
proof -
  note i = next_local_id_nat(1) [OF assms(1)]
  consider "cm_cmd cmd = ''send''" | "cm_cmd cmd = ''send-file''"
    | "cm_cmd cmd \<noteq> ''send''" "cm_cmd cmd \<noteq> ''send-file''" by blast
  then show ?thesis
  proof cases
    case 1
    with assms(2) show ?thesis
      unfolding begin_command_def i by (cases "cm_text cmd") (auto simp: local_message_def)
  next
    case 2
    with assms(2) show ?thesis
      unfolding begin_command_def i by (cases "cm_path cmd") (auto simp: local_message_def)
  next
    case 3
    with assms(2) other_command_frame [OF 3, of s c b] show ?thesis by (auto simp: begin_command_def)
  qed
qed

lemma line_read_ok:
  assumes "ids_ok v" "unat (sk_seq (sv_state v)) < 2 ^ 63 - 1"
  shows "ids_ok (line_read s c line v)"
proof (cases "c \<in> set (sv_readers v) \<and> \<not> sv_done v")
  case True
  show ?thesis
  proof (cases "Option.bind line dec_socket_command")
    case (Some cmd)
    obtain t b where bc: "begin_command s c cmd (sv_state v) = (t, b)"
      by (cases "begin_command s c cmd (sv_state v)")
    note run = begin_command_run [OF assms(2) bc]
    show ?thesis
    proof (cases t)
      case None
      with True Some bc run assms(1) show ?thesis by (simp add: line_read_def ids_ok_state)
    next
      case (Some t')
      with True \<open>Option.bind line dec_socket_command = Some cmd\<close> bc run assms(1) next_local_id_nat(2) [OF assms(2)]
      show ?thesis by (simp add: line_read_def ids_ok_def ids_in_use_def ids_issued_Suc)
    qed
  qed (use True assms(1) in \<open>simp add: line_read_def\<close>)
qed (auto simp: line_read_def end_conn_ok assms(1))

lemma mset_split_nth:
  "k < length xs \<Longrightarrow> mset (map f xs) = add_mset (f (xs ! k)) (mset (map f (take k xs @ drop (Suc k) xs)))"
proof -
  assume "k < length xs"
  then have "xs = take k xs @ xs ! k # drop (Suc k) xs" by (rule id_take_nth_drop)
  then have "mset (map f xs) = mset (map f (take k xs @ xs ! k # drop (Suc k) xs))" by metis
  then show ?thesis by simp
qed

lemma task_runs_ok: "ids_ok v \<Longrightarrow> ids_ok (task_runs k v)"
proof (cases "k < length (sv_tasks v)")
  case True
  obtain c t where ct: "sv_tasks v ! k = (c, t)" by (cases "sv_tasks v ! k")
  note split = mset_split_nth [OF True, of "\<lambda>(c, t). task_id t", unfolded ct]
  assume ok: "ids_ok v"
  show ?thesis
  proof (cases t)
    case (Echo e m)
    have "map (\<lambda>(c, t). task_id t) ((sv_tasks v)[k := (c, HandOn m)]) = map (\<lambda>(c, t). task_id t) (sv_tasks v)"
      using True ct Echo by (simp add: map_update list_update_same_conv)
    with ok True ct Echo show ?thesis by (simp add: task_runs_def ids_ok_def ids_in_use_def)
  next
    case (HandOn m)
    with ok True ct split show ?thesis
      by (simp add: task_runs_def ids_ok_def ids_in_use_def socket_handler_def)
  qed
qed (simp add: task_runs_def)

lemma bot_takes_id_ok:
  assumes "ids_ok v" "unat (sk_seq (sv_state v)) < 2 ^ 63 - 1" "\<And>i b. sm_id (msg i b) = i"
  shows "ids_ok (bot_takes_id msg v)"
  using assms(1,3) next_local_id_nat [OF assms(2)]
  by (simp add: bot_takes_id_def ids_ok_def ids_in_use_def ids_issued_Suc)

lemma bot_writes_ok: "ids_ok v \<Longrightarrow> ids_ok (bot_writes k v)"
proof (cases "k < length (sv_sends v)")
  case True
  from mset_split_nth [OF this, of sm_id] show "ids_ok v \<Longrightarrow> ?thesis"
    using True by (simp add: bot_writes_def ids_ok_def ids_in_use_def)
qed (simp add: bot_writes_def)

lemma server_act_ok:
  assumes "ids_ok v" "unat (sk_seq (sv_state v)) < 2 ^ 63 - 1"
  shows "ids_ok (server_act s a v)"
  using assms
  by (cases a)
     (simp_all add: dial_def end_conn_ok line_read_ok task_runs_ok bot_takes_id_ok bot_writes_ok
        bot_text_def bot_file_def ids_ok_state socket_send_delta_def socket_set_typing_def)

lemma server_act_seq:
  assumes "unat (sk_seq (sv_state v)) < 2 ^ 63 - 1"
  shows "unat (sk_seq (sv_state (server_act s a v))) \<le> Suc (unat (sk_seq (sv_state v)))"
proof -
  note n = next_local_id_nat [OF assms]
  have cmd: "unat (sk_seq b) \<le> Suc (unat (sk_seq (sv_state v)))"
    if "begin_command s c cmd (sv_state v) = (t, b)" for c cmd t b
    using begin_command_run [OF assms that] n(2) by (auto split: option.splits)
  have task: "advance t b = (r, b') \<Longrightarrow> sk_seq b' = sk_seq b" for t b r b'
    by (cases t) (auto simp: socket_handler_def)
  show ?thesis
    using n cmd task
    by (cases a)
       (auto simp: dial_def end_conn_def drop_conn_def line_read_def task_runs_def bot_takes_id_def bot_writes_def
          socket_send_delta_def socket_set_typing_def split: option.splits prod.splits)
qed

lemma server_run_ok:
  "ids_ok v \<Longrightarrow> unat (sk_seq (sv_state v)) + length moves < 2 ^ 63 \<Longrightarrow> ids_ok (server_run s moves v)"
proof (induction moves arbitrary: v)
  case (Cons a moves)
  have "unat (sk_seq (sv_state v)) < 2 ^ 63 - 1" using Cons.prems(2) by simp
  from server_act_ok [OF Cons.prems(1) this] server_act_seq [OF this, of s a] Cons.IH [of "server_act s a v"] Cons.prems(2)
  show ?case by simp
qed simp

section \<open>Properties\<close>

text \<open>
  C40. Under every interleaving of the clients, the accept loop and the bot's own sends, no two messages of one
  process have the same id: neither those handed to the application, nor those the bot has written, nor
  one of each.
\<close>

theorem socket_ids_unique:
  assumes "v = server_run s moves (socket_serve s fs fresh_socket)" "length moves < 2 ^ 63"
  shows "distinct (map message_id (sk_handled (sv_state v)) @ sv_sent v)"
proof -
  have "ids_ok (socket_serve s fs fresh_socket)"
    by (simp add: ids_ok_def ids_in_use_def ids_issued_def socket_serve_def fresh_socket_def Let_def)
  from server_run_ok [OF this, of moves s] assms have "ids_ok v"
    by (simp add: socket_serve_def fresh_socket_def Let_def)
  then have "mset (map message_id (sk_handled (sv_state v)) @ sv_sent v) +
      (mset (map (\<lambda>(c, t). task_id t) (sv_tasks v)) + mset (map sm_id (sv_sends v))) =
      ids_issued (unat (sk_seq (sv_state v)))"
    by (simp add: ids_ok_def ids_in_use_def ac_simps)
  then have "mset (map message_id (sk_handled (sv_state v)) @ sv_sent v) \<subseteq>#
      ids_issued (unat (sk_seq (sv_state v)))" by (metis mset_subset_eq_add_left)
  then show ?thesis by (rule ids_issued_distinct)
qed

definition sample_talk :: "server_move list" where
  "sample_talk = [Dial 3, LineRead 3 (Some (JObj [(''cmd'', JStr ''send''), (''text'', JStr ''hi'')])),
     BotTakesId ''hello'' [], BotWrites 0, TaskRuns 0, TaskRuns 0]"

theorem socket_ids_unique_witness:
  "\<exists>v. server_run \<lparr>so_path = ''s'', so_name = ''OpenCrow''\<rparr> sample_talk
      (socket_serve \<lparr>so_path = ''s'', so_name = ''OpenCrow''\<rparr> [] fresh_socket) = v \<and>
    length (sk_handled (sv_state v)) = 1 \<and> length (sv_sent v) = 1 \<and>
    distinct (map message_id (sk_handled (sv_state v)) @ sv_sent v)"
proof -
  let ?s = "\<lparr>so_path = ''s'', so_name = ''OpenCrow''\<rparr>"
  let ?v = "server_run ?s sample_talk (socket_serve ?s [] fresh_socket)"
  have cmd: "dec_socket_command (JObj [(''cmd'', JStr ''send''), (''text'', JStr ''hi'')]) =
      Some \<lparr>cm_cmd = ''send'', cm_text = ''hi'', cm_reply_to = [], cm_path = [], cm_n = 0, cm_type = []\<rparr>"
    by (simp add: dec_socket_command_def dec_field_def obj_vals_def)
  have "length (sk_handled (sv_state ?v)) = 1 \<and> length (sv_sent ?v) = 1"
    by (simp add: sample_talk_def socket_serve_def socket_listen_def dial_def line_read_def cmd begin_command_def
        next_local_id_def task_runs_def bot_takes_id_def bot_writes_def fresh_socket_def socket_handler_def Let_def)
  moreover have "length sample_talk < 2 ^ 63" by (simp add: sample_talk_def)
  ultimately show ?thesis using socket_ids_unique [OF refl] by blast
qed

section \<open>The bytes of a connection\<close>

text \<open>Lines shorter than 64 KiB are the commands of the connection, in order, however the bytes arrive.\<close>

theorem client_lines_are_commands:
  assumes "\<forall>l \<in> set ls. CHR 0x0A \<notin> set l \<and> CHR 0x0D \<notin> set l \<and> length l < 65536"
    "concat cs = terminated ls"
  shows "conn_moves parse c (map Bytes cs) = map (\<lambda>l. LineRead c (parse l)) ls"
proof -
  have "scan_lines max_scan_token_size [] (map Bytes cs) = (map drop_cr ls, Waiting [])"
    by (rule scan_terminated) (use assms in \<open>simp_all add: max_scan_token_size_def\<close>)
  then show ?thesis using assms(1) by (simp add: conn_moves_def)
qed

text \<open>A longer line ends the connection: the client is dropped without an answer.\<close>

theorem long_command_disconnects:
  assumes "CHR 0x0A \<notin> set l" "65536 \<le> length l"
  shows "conn_moves parse c (Bytes (l @ s) # rs) = [ReadEnds c]"
  using feed_too_long [of l "[]" max_scan_token_size s] assms
  by (simp add: conn_moves_def max_scan_token_size_def)

end
