(* ===== verification/Worker_Shutdown.thy ===== *)
theory Worker_Shutdown
  imports Worker_Loop
begin

text \<open>
  How the worker ends (\<open>Run\<close> in \<open>worker.go\<close>): when it has returned, its agent is stopped, whatever the run
  was; and what a cancellation does not reach: an agent that says nothing.
\<close>

section \<open>A worker that has returned\<close>

lemma run_loop_stops:
  "run_loop as w = Done u rest w' \<Longrightarrow> pi_proc w' = None \<and> root_cancelled w'"
proof (induction as w rule: run_loop.induct)
  case (2 a as w)
  show ?case
  proof (cases "a = PCtx \<and> root_cancelled w")
    case True
    with "2.prems" show ?thesis by (auto simp: stop_pi_def kill_pi_def emit_def split: option.splits)
  next
    case c1: False
    show ?thesis
    proof (cases "a = PWake \<and> wake w")
      case True
      show ?thesis
      proof (cases "drain_once as (w\<lparr>wake := False\<rparr>)")
        case (Blocked w1)
        with "2.prems" c1 True show ?thesis by simp
      next
        case (Done u1 as1 w1)
        with "2.prems" c1 True have "run_loop as1 w1 = Done u rest w'" by simp
        with "2.IH"(1) [OF c1 True Done] show ?thesis by blast
      qed
    next
      case False
      with "2.prems" c1 have "run_loop as (env a w) = Done u rest w'" by simp
      with "2.IH"(2) [OF c1 False] show ?thesis by blast
    qed
  qed
qed simp

lemma run_worker_stops:
  assumes "run_worker as w = Done u rest w'"
  shows "pi_proc w' = None \<and> root_cancelled w'"
  using assms run_loop_stops by (auto simp: run_worker_def and_io_def split: io.splits)

section \<open>What is written to the agent\<close>

fun stdin_of :: "effect \<Rightarrow> (nat \<times> json) option" where
  "stdin_of (Stdin p j) = Some (p, j)"
| "stdin_of _ = None"

definition writes :: "world \<Rightarrow> (nat \<times> json) list" where
  "writes w = List.map_filter stdin_of (out w)"

text \<open>The lines written to agents, with the two fixed prompts; nothing but a command of the worker touches them.\<close>

definition outlet :: "world \<Rightarrow> (nat \<times> json) list \<times> string \<times> string" where
  "outlet w = (writes w, hb_prompt w, trigger_prompt w)"

named_theorems outlet_frame

lemma outlet_emit [outlet_frame]: "stdin_of e = None \<Longrightarrow> outlet (emit e w) = outlet w"
  by (simp add: outlet_def writes_def emit_def map_filter_append List.map_filter_simps)

lemma outlet_same:
  "out w' = out w \<Longrightarrow> hb_prompt w' = hb_prompt w \<Longrightarrow> trigger_prompt w' = trigger_prompt w \<Longrightarrow>
   outlet w' = outlet w"
  by (simp add: outlet_def writes_def)

lemma outlet_with_db [outlet_frame]: "outlet (snd (with_db f w)) = outlet w"
  by (rule outlet_same) (simp_all add: with_db_def split: prod.splits)

lemma outlet_updates [outlet_frame]:
  "outlet (w\<lparr>root_cancelled := x1\<rparr>) = outlet w" "outlet (w\<lparr>dead := x2\<rparr>) = outlet w"
  "outlet (w\<lparr>now_ns := x3\<rparr>) = outlet w" "outlet (w\<lparr>waiters := x4\<rparr>) = outlet w"
  "outlet (w\<lparr>fresh_start := x5\<rparr>) = outlet w" "outlet (w\<lparr>send_ids := x6\<rparr>) = outlet w"
  "outlet (w\<lparr>compact_chan := x7\<rparr>) = outlet w" "outlet (w\<lparr>pi_proc := x8\<rparr>) = outlet w"
  "outlet (w\<lparr>item_cancelled := x9\<rparr>) = outlet w" "outlet (w\<lparr>wdb := x10\<rparr>) = outlet w"
  "outlet (w\<lparr>closed := x11\<rparr>) = outlet w" "outlet (w\<lparr>room_id := x12\<rparr>) = outlet w"
  "outlet (w\<lparr>next_chan := x13\<rparr>) = outlet w" "outlet (w\<lparr>wake := x14\<rparr>) = outlet w"
  "outlet (w\<lparr>last_use := x15\<rparr>) = outlet w" "outlet (w\<lparr>cur_priority := x16\<rparr>) = outlet w"
  "outlet (w\<lparr>cur_cancel := x17\<rparr>) = outlet w" "outlet (w\<lparr>chans := x18\<rparr>) = outlet w"
  "outlet (w\<lparr>next_pid := x19\<rparr>) = outlet w" "outlet (w\<lparr>room_file := x20\<rparr>) = outlet w"
  "outlet (w\<lparr>start_faults := x21\<rparr>) = outlet w" "outlet (w\<lparr>trigger_node := x22\<rparr>) = outlet w"
  "outlet (w\<lparr>stdin_faults := x23\<rparr>) = outlet w" "outlet (w\<lparr>file_faults := x24\<rparr>) = outlet w"
  "outlet (w\<lparr>reap_due := x25\<rparr>) = outlet w"
  by (simp_all add: outlet_def writes_def)

lemma outlet_say [outlet_frame]: "outlet (snd (send_message c t r w)) = outlet w" "outlet (say c t w) = outlet w"
  by (simp_all add: say_def send_message_def Let_def outlet_frame split: list.splits)

lemma outlet_ops [outlet_frame]:
  "outlet (put_outbox c m t w) = outlet w" "outlet (notify p w) = outlet w" "outlet (set_room_id r w) = outlet w"
  "outlet (snd (abort w)) = outlet w" "outlet (stop_pi w) = outlet w" "outlet (restart w) = outlet w"
  by (simp_all add: put_outbox_def notify_def set_room_id_def abort_def stop_pi_def kill_pi_def restart_def Let_def
      outlet_frame split: option.splits)

lemma outlet_build_prompt [outlet_frame]: "outlet (snd (build_prompt_text msg w)) = outlet w"
  using outlet_with_db [of "outbox_get (conversation_id msg) (reply_to_id msg)" w]
  by (auto simp: build_prompt_text_def get_outbox_def split: prod.splits)

lemma outlet_handle_prompt: "outlet (handle_prompt msg w) = outlet w"
proof -
  obtain p w1 where bp: "build_prompt_text msg (set_room_id (conversation_id msg) w) = (p, w1)"
    by (cases "build_prompt_text msg (set_room_id (conversation_id msg) w)")
  obtain r w2 where en: "with_db (enqueue priority_user source_user p (reply_to_id msg)) w1 = (r, w2)"
    by (cases "with_db (enqueue priority_user source_user p (reply_to_id msg)) w1")
  have "outlet w1 = outlet w" "outlet w2 = outlet w1"
    using outlet_build_prompt [of msg "set_room_id (conversation_id msg) w"]
      outlet_with_db [of "enqueue priority_user source_user p (reply_to_id msg)" w1]
    by (simp_all add: bp en outlet_frame)
  then show ?thesis by (cases r) (simp_all add: handle_prompt_def bp en Let_def outlet_frame)
qed

lemma outlet_compact_request: "outlet (snd (compact_request w)) = outlet w"
proof (cases "\<not> is_active w \<or> compact_chan w \<noteq> None")
  case False
  let ?w = "w\<lparr>next_chan := Suc (next_chan w), compact_chan := Some (next_chan w)\<rparr>"
  obtain r w2 where en: "with_db (enqueue priority_user source_compact [] []) ?w = (r, w2)"
    by (cases "with_db (enqueue priority_user source_compact [] []) ?w")
  have "outlet w2 = outlet w"
    using outlet_with_db [of "enqueue priority_user source_compact [] []" ?w] by (simp add: en outlet_frame)
  with False en show ?thesis by (cases r) (simp_all add: compact_request_def Let_def outlet_frame)
qed (auto simp: compact_request_def)

lemma outlet_compact_reply [outlet_frame]: "outlet (compact_reply c res w) = outlet w"
  by (simp add: compact_reply_def outlet_frame split: sum.splits option.splits)

lemma outlet_handle_compact: "outlet (handle_compact msg w) = outlet w"
  using outlet_compact_request [of w]
  by (auto simp: handle_compact_def outlet_frame split: prod.splits sum.splits)

lemma outlet_handle_message: "outlet (handle_message msg w) = outlet w"
  by (simp add: handle_message_def Let_def handle_help_def handle_skills_def handle_restart_def
      outlet_handle_prompt outlet_handle_compact outlet_frame)
     (auto simp: handle_stop_def abort_def outlet_frame)

lemma outlet_enqueue_then: "with_db f w = (r, w') \<Longrightarrow> outlet w' = outlet w"
  using outlet_with_db [of f w] by simp

lemma outlet_fire: "outlet (fire_reminders rs w) = outlet w"
proof (induction rs w rule: fire_reminders.induct)
  case (2 r rs w)
  obtain x w' where en: "with_db (enqueue priority_trigger source_trigger (reminder_content r) []) w = (x, w')"
    by (cases "with_db (enqueue priority_trigger source_trigger (reminder_content r) []) w")
  show ?case
    using 2 en outlet_enqueue_then [OF en] by (cases x) (simp_all add: outlet_frame)
qed simp

lemma outlet_env: "outlet (env a w) = outlet w"
proof (cases a)
  case (AMessage m)
  then show ?thesis by (simp add: env.simps outlet_handle_message)
next
  case (AResume ch)
  then show ?thesis by (auto simp: env.simps compact_resume_def outlet_frame split: option.splits)
next
  case (ATrigger l)
  then show ?thesis
    by (auto simp: env.simps trigger_line_def Let_def outlet_frame split: prod.splits sum.splits dest: outlet_enqueue_then)
next
  case AHeartbeat
  then show ?thesis
    by (auto simp: env.simps heartbeat_tick_def outlet_frame split: prod.splits sum.splits dest: outlet_enqueue_then)
next
  case AReminders
  then show ?thesis
    by (auto simp: env.simps dispatch_due_reminders_def outlet_fire split: prod.splits sum.splits dest: outlet_enqueue_then)
next
  case AReapLook
  then show ?thesis by (simp add: env.simps reap_look_def outlet_frame)
next
  case AReapStop
  then show ?thesis by (simp add: env.simps reap_stop_def outlet_frame)
qed (simp_all add: env.simps outlet_frame)

lemma writes_env: "writes (env a w) = writes w"
  using outlet_env [of a w] by (simp add: outlet_def)

section \<open>A silent agent\<close>

text \<open>What can happen while the agent neither writes a line nor ends.\<close>

fun silent :: "act \<Rightarrow> bool" where
  "silent (PEvent _) = False"
| "silent (PReadErr _) = False"
| "silent PEof = False"
| "silent PDone = False"
| "silent _ = True"

lemma next_event_silent:
  "list_all silent as \<Longrightarrow> \<exists>w'. next_event p as w = Blocked w' \<and> writes w' = writes w"
proof (induction as arbitrary: w)
  case (Cons a as)
  have "next_event p (a # as) w = next_event p as (env a w)" using Cons.prems by (cases a) simp_all
  moreover obtain w' where "next_event p as (env a w) = Blocked w'" "writes w' = writes (env a w)"
    using Cons.IH [of "env a w"] Cons.prems by auto
  ultimately show ?case by (simp add: writes_env)
qed simp

lemma wait_silent:
  "list_all silent as \<Longrightarrow> \<exists>w'. wait_for_result p od as w = Blocked w' \<and> writes w' = writes w"
  using next_event_silent [of as p w]
  by (auto simp: wait_for_result_def result_loop.simps drain_events.simps)

section \<open>Properties\<close>

text \<open>
  Once the worker has returned no agent is left: in every run that ends, the shutdown was asked for, and every
  agent process the worker ever started is dead.
\<close>

theorem no_agent_left_behind:
  assumes "started w" "run_worker as w = Done u rest w'"
  shows "root_cancelled w' \<and> (\<forall>p < next_pid w'. p \<in> set (dead w'))"
proof -
  have "proc_ok (core_of (io_world (run_worker as w)))"
    using core_ok_csteps(1) [OF started_csteps [OF assms(1)]] started_ok [OF assms(1)] by blast
  with run_worker_stops [OF assms(2)] assms(2) show ?thesis by (simp add: proc_ok_def core_of_def)
qed

definition stopped_run :: "unit io" where
  "stopped_run = run_worker [PSync, AMessage sample_msg, PWake, PSync, PSync, AShutdown, PDone, PEof, PSync, PCtx] sample_world"

lemma stopped_run_ends: "case stopped_run of Done u rest w' \<Rightarrow> rest = [] \<and> next_pid w' = 1 | Blocked w' \<Rightarrow> False"
  by code_simp

theorem no_agent_left_behind_witness:
  "\<exists>w'. run_worker [PSync, AMessage sample_msg, PWake, PSync, PSync, AShutdown, PDone, PEof, PSync, PCtx]
      sample_world = Done () [] w' \<and> next_pid w' = 1 \<and> 0 \<in> set (dead w')"
proof -
  obtain w' where w': "stopped_run = Done () [] w'" "next_pid w' = 1"
    using stopped_run_ends by (auto split: io.splits)
  from no_agent_left_behind [OF started_sample w'(1) [unfolded stopped_run_def]] w' show ?thesis
    by (auto simp: stopped_run_def)
qed

text \<open>
  A cancellation does not reach a silent agent: as long as the agent writes no line and does not end, a turn
  stays blocked whatever else happens, and nothing but the prompt is written to the agent: no abort,
  neither for a \<open>!stop\<close> nor for more urgent work nor for the shutdown of the process.
\<close>

theorem silent_agent_never_aborted:
  assumes "pi_proc w = Some p" "is_alive p w" "p \<notin> set (closed w)"
    "next_fault (stdin_faults w) = (None, fs)" "list_all silent as"
  shows "\<exists>w'. send_with_retry prompt od as w = Blocked w' \<and>
    writes w' = writes w @ [(p, prompt_command prompt)]"
proof -
  let ?w = "emit (Stdin p (prompt_command prompt)) (w\<lparr>stdin_faults := fs\<rparr>)"
  obtain w' where w': "wait_for_result p od as ?w = Blocked w'" "writes w' = writes ?w"
    using wait_silent [OF assms(5), of p od ?w] by auto
  moreover have "writes ?w = writes w @ [(p, prompt_command prompt)]"
    by (simp add: writes_def emit_def map_filter_append List.map_filter_simps)
  ultimately show ?thesis by (simp add: live_turn [OF assms(1-4)])
qed

theorem silent_agent_never_aborted_witness:
  "\<exists>w'. send_with_retry ''p'' None [AMessage (sample_msg\<lparr>msg_text := ''!stop''\<rparr>), AElapse 3600000000000, AShutdown]
      busy_world = Blocked w' \<and> writes w' = [(0, prompt_command ''p'')]"
  using silent_agent_never_aborted [of busy_world 0 "[]"
      "[AMessage (sample_msg\<lparr>msg_text := ''!stop''\<rparr>), AElapse 3600000000000, AShutdown]" "''p''" None]
  by (simp add: busy_world_def sample_defs is_alive_def writes_def List.map_filter_simps)

section \<open>The idle reaper\<close>

text \<open>
  The reaper decides under the lock and stops the agent after it has given the lock back. A message that arrives
  in between is taken by the worker, its prompt is written to the agent that was idle, and the reaper then
  kills that agent in the middle of the turn; the prompt is written once more, to a new agent.
\<close>

definition reaped_run :: "unit io" where
  "reaped_run = run_worker
     [PSync, AMessage (sample_msg\<lparr>reply_to_id := []\<rparr>), PWake, PSync, PSync, PEvent (end_event ''hi'' ''stop'' []), PSync,
      AElapse 100, AReapLook,
      AMessage (sample_msg\<lparr>msg_text := ''delete it'', reply_to_id := []\<rparr>), PWake, PSync, PSync, AReapStop, PDone,
      PEvent (end_event ''done'' ''stop'' [])]
     (sample_world\<lparr>cfg := sample_config\<lparr>idle_timeout := 50\<rparr>\<rparr>)"

theorem reaper_kills_busy_agent:
  "filter (\<lambda>e. case e of Stdin _ _ \<Rightarrow> True | Killed _ \<Rightarrow> True | _ \<Rightarrow> False) (out (io_world reaped_run)) =
     [Stdin 0 (prompt_command ''hello''), Stdin 0 (prompt_command ''delete it''), Killed 0,
      Stdin 1 (prompt_command ''delete it'')]"
  by code_simp

end
