(* ===== verification/Nostr_Db.thy ===== *)
theory Nostr_Db
  imports Store Go_Path
begin

text \<open>
  The database of the Nostr transport (\<open>nostr/db.go\<close>): opening it with its three steps that may fail, and closing it.
  The state is the number of connections that are open, so that an error path that forgets one would show.
\<close>

definition nostr_db_file :: string where "nostr_db_file = ''nostr.db''"

definition nostr_dsn :: "string \<Rightarrow> string" where
  "nostr_dsn dir = path_join [dir, nostr_db_file] @
     ''?_txlock=immediate&_pragma=journal_mode(WAL)&_pragma=busy_timeout(5000)''"

text \<open>One step of the driver: the next outcome.\<close>

definition migrate_nostr_db :: "outcomes \<Rightarrow> string option \<times> outcomes" where
  "migrate_nostr_db fs = (case next_fault fs of
     (Some e, fs) \<Rightarrow> (Some (''migrating nostr db: '' @ e), fs) | (None, fs) \<Rightarrow> (None, fs))"

definition open_nostr_db :: "string \<Rightarrow> outcomes \<Rightarrow> nat \<Rightarrow> (string + string) \<times> outcomes \<times> nat" where
  "open_nostr_db dir fs conns =
     (if dir = [] then (Inl ''dataDir must not be empty'', fs, conns)
      else case next_fault fs of
             (Some e, fs) \<Rightarrow> (Inl (''opening nostr db: '' @ e), fs, conns)
           | (None, fs) \<Rightarrow>
               (let conns = Suc conns
                in case next_fault fs of
                     (Some e, fs) \<Rightarrow> (Inl (''pinging nostr db: '' @ e), fs, conns - 1)
                   | (None, fs) \<Rightarrow>
                       (case migrate_nostr_db fs of
                          (Some e, fs) \<Rightarrow> (Inl e, fs, conns - 1)
                        | (None, fs) \<Rightarrow> (Inr (nostr_dsn dir), fs, conns))))"

definition close_nostr_db :: "outcomes \<Rightarrow> nat \<Rightarrow> string option \<times> outcomes \<times> nat" where
  "close_nostr_db fs conns = (case next_fault fs of
     (Some e, fs) \<Rightarrow> (Some (''closing nostr db: '' @ e), fs, conns - 1) | (None, fs) \<Rightarrow> (None, fs, conns - 1))"

text \<open>A connection is open afterwards exactly when the call succeeded, whichever step failed.\<close>

lemma open_nostr_db_connections:
  "open_nostr_db dir fs conns = (r, fs', conns') \<Longrightarrow> conns' = (case r of Inl e \<Rightarrow> conns | Inr d \<Rightarrow> Suc conns)"
  by (auto simp: open_nostr_db_def migrate_nostr_db_def Let_def split: if_splits prod.splits option.splits)

lemma open_close_nostr_db:
  assumes "open_nostr_db dir fs conns = (Inr d, fs', conns')"
  shows "snd (snd (close_nostr_db gs conns')) = conns"
  using open_nostr_db_connections [OF assms] by (simp add: close_nostr_db_def split: prod.splits option.splits)

text \<open>The error that the constructor of the transport sees.\<close>

definition nostr_open_error :: "string \<Rightarrow> outcomes \<Rightarrow> string option" where
  "nostr_open_error dir fs = (case open_nostr_db dir fs 0 of (Inl e, _) \<Rightarrow> Some e | (Inr _, _) \<Rightarrow> None)"

end
