(* ===== verification/Main_Run.thy ===== *)
theory Main_Run
  imports Backends Transports Worker_Shutdown Trigger_Pipe Nostr_Db
begin

text \<open>
  The process (\<open>main.go\<close>): \<open>run\<close> with everything it opens and starts, \<open>wireServices\<close>, and the life of
  the process afterwards, in which the main goroutine, the worker and the signal handler take turns.
\<close>

section \<open>What a transport brings\<close>

fun prompt_extra_of :: "backend_settings \<Rightarrow> string" where
  "prompt_extra_of (MatrixBackend s b) = matrix_prompt_extra"
| "prompt_extra_of (NostrBackend c b) = nostr_prompt_extra c"
| "prompt_extra_of (SignalBackend s) = signal_prompt_extra"
| "prompt_extra_of (SocketBackend s) = socket_prompt_extra"

fun flavor_of :: "backend_settings \<Rightarrow> markdown_flavor" where
  "flavor_of (MatrixBackend s b) = matrix_flavor"
| "flavor_of (NostrBackend c b) = nostr_flavor"
| "flavor_of (SignalBackend s) = signal_flavor"
| "flavor_of (SocketBackend s) = socket_flavor"

text \<open>Only the socket has a \<open>SendDelta\<close>.\<close>

fun streams_of :: "backend_settings \<Rightarrow> bool" where
  "streams_of (SocketBackend s) = True"
| "streams_of _ = False"

section \<open>Opening the database\<close>

text \<open>
  \<open>openDB\<close>: opening and the schema may fail, a failing migration is only logged. The result is the
  database with the outbox as it is then.
\<close>

definition open_db :: "outcomes \<Rightarrow> legacy_file \<Rightarrow> outcomes \<Rightarrow> db \<Rightarrow> string + db" where
  "open_db fs legacy ms d =
     (case next_fault fs of
        (Some e, fs) \<Rightarrow> Inl (''opening database: '' @ e)
      | (None, fs) \<Rightarrow>
          (case next_fault fs of
             (Some e, fs) \<Rightarrow> Inl (''migrating schema: '' @ e)
           | (None, fs) \<Rightarrow> Inr (snd (migrate_legacy_outbox legacy ms d))))"

section \<open>Starting\<close>

text \<open>
  What the start finds: the libraries and answers the constructors of the transports take, the files and
  system calls of the instance (\<open>su_world\<close>), and the database with the outcomes of opening it.
\<close>

record surroundings =
  su_mlib :: mlib
  su_client_error :: "string option"
  su_matrix :: matrix
  su_nlib :: nlib
  su_nostr_open :: outcomes
  su_event_ok :: "string \<Rightarrow> bool"
  su_nostr :: nostr
  su_quoted :: "string \<Rightarrow> string"
  su_lib :: lib
  su_time :: int
  su_world :: world
  su_mkdir :: "string option"
  su_db :: db
  su_open :: outcomes
  su_legacy :: legacy_file
  su_migration :: outcomes

text \<open>
  \<open>wireServices\<close>: the transport, the worker with the system prompt of both, and the background services,
  of which making the FIFO happens here; the loops are steps of the schedule.
\<close>

definition wire_services :: "surroundings \<Rightarrow> config \<Rightarrow> db \<Rightarrow> string + backend_settings \<times> world" where
  "wire_services u c d =
     (case create_backend (su_mlib u) (su_client_error u) (su_matrix u) (su_nlib u) (nostr_open_error (session_dir (config.c_pi c)) (su_nostr_open u))
             (su_event_ok u) (su_nostr u) (su_quoted u) c of
        Inl e \<Rightarrow> Inl e
      | Inr b \<Rightarrow>
          (let w = wire_worker c d (su_lib u) (su_time u)
                     ((su_world u)\<lparr>be_extra := prompt_extra_of b, be_flavor := flavor_of b, be_streams := streams_of b\<rparr>);
               w = w\<lparr>trigger_node := trigger_node (su_world u), start_faults := start_faults (su_world u)\<rparr>
           in Inr (b, snd (ensure_fifo (trigger_pipe_path (session_dir (config.c_pi c))) w))))"

text \<open>\<open>run\<close> up to the start of the worker: the error that is logged, or the transport and the worker.\<close>

definition launch :: "surroundings \<Rightarrow> string + config \<Rightarrow> string + backend_settings \<times> world" where
  "launch u loaded =
     (case loaded of
        Inl e \<Rightarrow> Inl (''failed to load config: '' @ e)
      | Inr c \<Rightarrow>
     (case su_mkdir u of
        Some e \<Rightarrow> Inl (''failed to create session directory: '' @ e)
      | None \<Rightarrow>
     (case open_db (su_open u) (su_legacy u) (su_migration u) (su_db u) of
        Inl e \<Rightarrow> Inl (''failed to open database: '' @ e)
      | Inr d \<Rightarrow>
     (case new_inbox_store d of
        (Inl e, d) \<Rightarrow> Inl (''failed to initialize inbox: '' @ e)
      | (Inr _, d) \<Rightarrow>
     (case wire_services u c d of
        Inl e \<Rightarrow> Inl (''failed to initialize services: '' @ e)
      | Inr bw \<Rightarrow> Inr bw)))))"

section \<open>The running process\<close>

text \<open>
  The main goroutine: in \<open>Run\<close> of the transport, back from it with its error, waiting for the worker with
  an exit code, or gone. The signal handler: waiting, with a signal, after \<open>Stop\<close>, after \<open>cancel\<close>.
\<close>

datatype main_phase = TransportRuns | TransportReturned "string option" | JoiningWorker nat | Gone nat

datatype signal_phase = NoSignal | SignalCaught | TransportStopped | ContextCancelled

datatype worker_phase = WorkerRuns world | WorkerReturned world

record main_proc =
  mp_phase :: main_phase
  mp_signal :: signal_phase
  mp_cancelled :: bool
  mp_worker :: worker_phase
  mp_transport_open :: bool
  mp_db_open :: bool

definition enter_main :: "world \<Rightarrow> main_proc" where
  "enter_main w = \<lparr>mp_phase = TransportRuns, mp_signal = NoSignal, mp_cancelled = False,
     mp_worker = WorkerRuns w, mp_transport_open = True, mp_db_open = True\<rparr>"

text \<open>
  A start that fails exits with 1; the database, once open, is closed by its \<open>defer\<close>.
\<close>

definition start_process :: "surroundings \<Rightarrow> string + config \<Rightarrow> nat + main_proc" where
  "start_process u loaded =
     (case launch u loaded of Inl e \<Rightarrow> Inl 1 | Inr (b, w) \<Rightarrow> Inr (enter_main w))"

datatype main_move =
    SignalArrives
  | SignalStops
  | SignalCancels
  | TransportEnds "string option"
  | MainChecks
  | WorkerEnds "act list"
  | MainJoins

text \<open>
  \<open>WorkerEnds as\<close> is the return of the worker goroutine after the whole schedule \<open>as\<close>, whose shutdown is
  the cancellation of the context. After the check of the error \<open>run\<close> cancels the context itself.
\<close>

definition worker_ends :: "act list \<Rightarrow> main_proc \<Rightarrow> main_proc" where
  "worker_ends as m =
     (if \<not> mp_cancelled m then m
      else case mp_worker m of
             WorkerReturned w \<Rightarrow> m
           | WorkerRuns w \<Rightarrow>
               (case run_worker as w of Blocked w \<Rightarrow> m | Done u rest w \<Rightarrow> m\<lparr>mp_worker := WorkerReturned w\<rparr>))"

definition main_checks :: "main_proc \<Rightarrow> main_proc" where
  "main_checks m =
     (case mp_phase m of
        TransportReturned err \<Rightarrow>
          m\<lparr>mp_phase := JoiningWorker (if err \<noteq> None \<and> \<not> mp_cancelled m then 1 else 0), mp_cancelled := True\<rparr>
      | _ \<Rightarrow> m)"

definition main_joins :: "main_proc \<Rightarrow> main_proc" where
  "main_joins m =
     (case (mp_phase m, mp_worker m) of
        (JoiningWorker code, WorkerReturned w) \<Rightarrow>
          m\<lparr>mp_phase := Gone code, mp_transport_open := False, mp_db_open := False\<rparr>
      | _ \<Rightarrow> m)"

fun main_act :: "main_move \<Rightarrow> main_proc \<Rightarrow> main_proc" where
  "main_act SignalArrives m = (if mp_signal m = NoSignal then m\<lparr>mp_signal := SignalCaught\<rparr> else m)"
| "main_act SignalStops m = (if mp_signal m = SignalCaught then m\<lparr>mp_signal := TransportStopped\<rparr> else m)"
| "main_act SignalCancels m =
     (if mp_signal m = TransportStopped then m\<lparr>mp_signal := ContextCancelled, mp_cancelled := True\<rparr> else m)"
| "main_act (TransportEnds err) m =
     (if mp_phase m = TransportRuns then m\<lparr>mp_phase := TransportReturned err\<rparr> else m)"
| "main_act MainChecks m = main_checks m"
| "main_act (WorkerEnds as) m = worker_ends as m"
| "main_act MainJoins m = main_joins m"

abbreviation main_run :: "main_move list \<Rightarrow> main_proc \<Rightarrow> main_proc" where
  "main_run moves m \<equiv> fold main_act moves m"

section \<open>Invariant\<close>

text \<open>
  The worker only returns from a run of its own; the database and the transport stay open until it has.
\<close>

definition main_ok :: "world \<Rightarrow> main_proc \<Rightarrow> bool" where
  "main_ok w0 m \<longleftrightarrow>
     (case mp_worker m of
        WorkerRuns w \<Rightarrow> w = w0 \<and> mp_db_open m \<and> mp_transport_open m \<and> (\<forall>c. mp_phase m \<noteq> Gone c)
      | WorkerReturned w \<Rightarrow> \<exists>as u rest. run_worker as w0 = Done u rest w) \<and>
     ((\<exists>c. mp_phase m = Gone c) \<longleftrightarrow> \<not> mp_db_open m) \<and> (mp_db_open m \<longleftrightarrow> mp_transport_open m) \<and>
     (\<forall>c. mp_phase m = JoiningWorker c \<or> mp_phase m = Gone c \<longrightarrow> c \<le> 1)"

lemma enter_main_ok: "main_ok w (enter_main w)"
  by (simp add: main_ok_def enter_main_def)

lemma worker_ends_ok: "main_ok w0 m \<Longrightarrow> main_ok w0 (worker_ends as m)"
proof (cases "mp_worker m")
  case (WorkerRuns w)
  assume "main_ok w0 m"
  with WorkerRuns show ?thesis
    by (cases "run_worker as w") (auto simp: worker_ends_def main_ok_def)
qed (simp add: worker_ends_def)

lemma main_checks_ok: "main_ok w0 m \<Longrightarrow> main_ok w0 (main_checks m)"
  by (cases "mp_phase m"; cases "mp_worker m") (auto simp: main_checks_def main_ok_def)

lemma main_joins_ok: "main_ok w0 m \<Longrightarrow> main_ok w0 (main_joins m)"
  by (cases "mp_phase m"; cases "mp_worker m") (auto simp: main_joins_def main_ok_def)

lemma main_ok_updates [simp]:
  "main_ok w0 (m\<lparr>mp_signal := x\<rparr>) = main_ok w0 m" "main_ok w0 (m\<lparr>mp_cancelled := y\<rparr>) = main_ok w0 m"
  by (cases "mp_worker m"; simp add: main_ok_def)+

lemma transport_ends_ok:
  "main_ok w0 m \<Longrightarrow> mp_phase m = TransportRuns \<Longrightarrow> main_ok w0 (m\<lparr>mp_phase := TransportReturned e\<rparr>)"
  by (cases "mp_worker m") (auto simp: main_ok_def)

lemma main_act_ok: "main_ok w0 m \<Longrightarrow> main_ok w0 (main_act a m)"
  by (cases a) (simp_all add: transport_ends_ok worker_ends_ok main_checks_ok main_joins_ok)

lemma main_run_ok: "main_ok w0 m \<Longrightarrow> main_ok w0 (main_run moves m)"
  by (induction moves arbitrary: m) (simp_all add: main_act_ok)

section \<open>The migration of the old outbox\<close>

text \<open>Rows that are there stay as they are, every old key has a row afterwards, and the table stays well-formed.\<close>

lemma copy_legacy_keeps:
  "sent_rows_ok rows \<Longrightarrow>
   \<exists>new. copy_legacy ls rows = rows @ new \<and> sent_rows_ok (rows @ new) \<and>
     (\<forall>(c, m, t) \<in> set ls. (c, m) \<in> row_key ` set (rows @ new)) \<and>
     (\<forall>r \<in> set new. (conv_id r, msg_id r, sent_text r) \<in> set ls)"
proof (induction ls rows rule: copy_legacy.induct)
  case (2 c m t ls rows)
  let ?r = "\<lparr>sent_rowid = next_sent_rowid rows, conv_id = c, msg_id = m, sent_text = t\<rparr>"
  show ?case
  proof (cases "(c, m) \<in> row_key ` set rows")
    case True
    with 2 show ?thesis by auto
  next
    case False
    have ok: "sent_rows_ok (rows @ [?r])"
      using "2.prems" False next_sent_rowid_above [of _ rows]
      by (auto simp: sent_rows_ok_def sorted_wrt_append)
    with "2.IH" False obtain new where
      "copy_legacy ls (rows @ [?r]) = rows @ ?r # new" "sent_rows_ok (rows @ ?r # new)"
      "\<forall>(c, m, t) \<in> set ls. (c, m) \<in> row_key ` set (rows @ ?r # new)"
      "\<forall>r \<in> set new. (conv_id r, msg_id r, sent_text r) \<in> set ls" by auto
    with False show ?thesis by (intro exI [of _ "?r # new"]) auto
  qed
qed simp

section \<open>Properties\<close>


definition sample_life :: "main_move list" where
  "sample_life = [SignalArrives, SignalStops, SignalCancels, TransportEnds (Some loop_error), MainChecks,
     WorkerEnds [PSync, AMessage sample_msg, PWake, PSync, PSync, AShutdown, PDone, PEof, PSync, PCtx], MainJoins]"

lemma sample_life_ends: "mp_phase (main_run sample_life (enter_main sample_world)) = Gone 0"
  using stopped_run_ends
  by (auto simp: sample_life_def enter_main_def main_checks_def worker_ends_def main_joins_def stopped_run_def
      split: io.splits)


text \<open>
  The signal handler stops the transport before it cancels the context. A transport whose \<open>Run\<close> returns an
  error when it is stopped, as Nostr and Signal do, can come back in between: then the orderly shutdown
  is taken for a failure and the process exits with 1.
\<close>

theorem stopped_process_exits_with_error:
  "mp_phase (main_run [SignalArrives, SignalStops, TransportEnds (Some loop_error), MainChecks, SignalCancels]
     (enter_main w)) = JoiningWorker 1"
  by (simp add: enter_main_def main_checks_def)

text \<open>
  The end of the stream of a transport without an error, as when the relays close the subscription of Nostr, ends
  the process with 0.
\<close>

theorem lost_transport_exits_cleanly:
  "mp_phase (main_run [TransportEnds None, MainChecks] (enter_main w)) = JoiningWorker 0"
  by (simp add: enter_main_def main_checks_def)

text \<open>A process that was started runs with the prompt, the flavour and the streaming of its own transport.\<close>

theorem launched_with_own_transport:
  assumes "launch u loaded = Inr (b, w)"
  shows "be_extra w = prompt_extra_of b \<and> be_flavor w = flavor_of b \<and> be_streams w = streams_of b \<and> started w"
proof -
  have frame: "be_extra (snd (ensure_fifo p w1)) = be_extra w1" "be_flavor (snd (ensure_fifo p w1)) = be_flavor w1"
      "be_streams (snd (ensure_fifo p w1)) = be_streams w1" "started (snd (ensure_fifo p w1)) = started w1" for p w1
    by (auto simp: ensure_fifo_def start_step_def started_def split: prod.splits option.splits)
  obtain c d where "wire_services u c d = Inr (b, w)"
    using assms by (auto simp: launch_def split: sum.splits option.splits prod.splits)
  then show ?thesis
    by (auto simp: wire_services_def Let_def frame split: sum.splits)
       (simp_all add: wire_worker_def new_worker_def started_def)
qed

end
