(* ===== verification/Run_Invariant.thy ===== *)
theory Run_Invariant
  imports Worker_Shutdown
begin

text \<open>
  Invariants of runs of the worker. The locale \<open>run_invariant\<close> is what a property of the pending items and of
  the lines written to agents has to satisfy: the surroundings keep it, taking items away keeps it, a
  command and an item that is put back keep it. Inside the locale it is carried through every function
  of \<open>pi_rpc.go\<close> and \<open>worker.go\<close> that may block, once and for all.
\<close>

section \<open>What the worker does between two events\<close>

text \<open>
  The room is known when the worker has its id or can read it from the file. \<open>still\<close>: the tables and the
  outlet stay as they are, what was sent stays sent, and a known room stays known.
\<close>

definition room_known :: "world \<Rightarrow> bool" where
  "room_known w \<longleftrightarrow> fst (resolve_room_id w) \<noteq> []"

lemma room_known_iff: "room_known w \<longleftrightarrow> room_id w \<noteq> [] \<or> (\<exists>txt. room_file w = Some txt \<and> trim_space txt \<noteq> [])"
  by (simp add: room_known_def resolve_room_id_def Let_def split: option.splits)

definition still :: "world \<Rightarrow> world \<Rightarrow> bool" where
  "still w w' \<longleftrightarrow> wdb w' = wdb w \<and> outlet w' = outlet w \<and> (\<exists>es. out w' = out w @ es) \<and>
     (room_known w \<longrightarrow> room_known w')"

abbreviation calm :: "world \<Rightarrow> world \<Rightarrow> bool" where
  "calm w w' \<equiv> wdb w' = wdb w \<and> outlet w' = outlet w \<and> (\<exists>es. out w' = out w @ es) \<and> room_id w' = room_id w"

lemma quiet_same [simp]: "still w w"
  by (simp add: still_def)

lemma quiet_then [trans]: "still w w1 \<Longrightarrow> still w1 w2 \<Longrightarrow> still w w2"
  by (auto simp: still_def)

lemma quiet_calm: "calm w w' \<Longrightarrow> room_file w' = room_file w \<Longrightarrow> still w w'"
  by (auto simp: still_def room_known_iff)

lemma core_inbox: "core_of w' = core_of w \<Longrightarrow> inbox (wdb w') = inbox (wdb w)"
  by (simp add: core_of_def)

lemma quiet_emit: "stdin_of e = None \<Longrightarrow> still w (emit e w)"
  by (rule quiet_calm) (simp_all add: outlet_frame, simp_all add: emit_def)

lemma quiet_send: "still w (snd (send_message c t r w))"
  by (rule quiet_calm) (simp_all add: outlet_frame, simp_all add: send_message_def emit_def Let_def split: list.splits)

lemma quiet_say: "still w (say c t w)"
  unfolding say_def by (rule quiet_send)

lemma quiet_stop: "still w (stop_pi w)"
  by (rule quiet_calm) (simp_all add: outlet_frame, simp_all add: stop_pi_def kill_pi_def emit_def split: option.splits)

lemma quiet_item:
  "still w (set_typing c b w)" "still w (begin_item item w)" "still w (end_item w)" "still w (answer ch res w)"
  "still w (w\<lparr>wake := x\<rparr>)" "still w (w\<lparr>last_use := y\<rparr>)" "still w (w\<lparr>compact_chan := z\<rparr>)"
  by (rule quiet_calm; simp add: set_typing_def begin_item_def end_item_def answer_def outlet_frame;
      simp add: emit_def)+

lemma resolve_world: "resolve_room_id w = (i, w') \<Longrightarrow> w' = w\<lparr>room_id := i\<rparr>"
  by (auto simp: resolve_room_id_def Let_def split: option.splits if_splits)

lemma resolve_known: "resolve_room_id w = (i, w') \<Longrightarrow> i \<noteq> [] \<longleftrightarrow> room_known w"
  by (simp add: room_known_def)

lemma quiet_resolve: "resolve_room_id w = (i, w') \<Longrightarrow> still w w'"
  using resolve_world [of w i w'] resolve_known [of w i w']
  by (auto simp: still_def outlet_frame) (simp add: room_known_iff)

lemma quiet_tool_call: "still w (on_tool_call evt w)"
proof -
  obtain i w1 where r: "resolve_room_id w = (i, w1)" by (cases "resolve_room_id w")
  show ?thesis
    using quiet_then [OF quiet_resolve [OF r] quiet_say] by (simp add: on_tool_call_def r)
qed

lemma calm_start_step: "start_step w = (f, w') \<Longrightarrow> calm w w'"
  by (auto simp: start_step_def outlet_frame split: prod.splits)

lemma calm_start_steps: "start_steps ss w = (f, w') \<Longrightarrow> calm w w'"
proof (induction ss arbitrary: w)
  case (Cons s ss)
  then show ?case by (fastforce split: prod.splits option.splits dest: calm_start_step)
qed simp

lemma calm_fifo: "ensure_fifo path w = (f, w') \<Longrightarrow> calm w w'"
  by (auto simp: ensure_fifo_def outlet_frame split: prod.splits option.splits if_splits dest!: calm_start_step)

lemma calm_start_process: "start_pi_process args w = (r, w') \<Longrightarrow> calm w w'"
proof -
  assume s: "start_pi_process args w = (r, w')"
  obtain f w1 where f: "start_steps pi_pipes w = (f, w1)" by (cases "start_steps pi_pipes w")
  from calm_start_steps [OF f] s f show ?thesis
    by (cases f) (auto simp: start_pi_process_def Let_def outlet_frame, simp_all add: emit_def)
qed

lemma calm_start_pi: "start_pi room fresh w = (r, w') \<Longrightarrow> calm w w'"
  by (auto simp: start_pi_def outlet_frame split: prod.splits option.splits sum.splits if_splits
      dest!: calm_start_step calm_fifo calm_start_process)

lemma outlet_fifo: "ensure_fifo path w = (f, w') \<Longrightarrow> outlet w' = outlet w"
  using calm_fifo by blast

lemma quiet_ensure_pi: "ensure_pi w = (r, w') \<Longrightarrow> still w w'"
proof -
  assume e: "ensure_pi w = (r, w')"
  let ?w = "w\<lparr>fresh_start := False\<rparr>"
  obtain i w1 where rr: "resolve_room_id ?w = (i, w1)" by (cases "resolve_room_id ?w")
  have "still w ?w" by (rule quiet_calm) (simp_all add: outlet_frame)
  then have 1: "still w w1" using quiet_resolve [OF rr] by (rule quiet_then)
  show ?thesis
  proof (cases "is_active w \<or> ctx_done w1")
    case True
    with e rr 1 show ?thesis by (auto simp: ensure_pi_def is_active_def split: option.splits)
  next
    case False
    obtain x w2 where st: "start_pi i (fresh_start w) w1 = (x, w2)" by (cases "start_pi i (fresh_start w) w1")
    then have w': "w' = (case x of Inl _ \<Rightarrow> w2 | Inr p \<Rightarrow> w2\<lparr>pi_proc := Some p\<rparr>)"
      using e rr False by (auto simp: ensure_pi_def Let_def split: sum.splits)
    have "room_known w \<longleftrightarrow> i \<noteq> []" using resolve_known [OF rr] by (simp add: room_known_iff)
    with calm_start_pi [OF st] resolve_world [OF rr] 1 have "still w w2"
      by (auto simp: still_def room_known_iff)
    moreover have "still w2 (w2\<lparr>pi_proc := y\<rparr>)" for y by (rule quiet_calm) (simp_all add: outlet_frame)
    ultimately show ?thesis by (cases x) (simp_all add: w' quiet_then [of w w2])
  qed
qed

lemma quiet_send_file: "still w (snd (send_file c p w))"
  by (rule quiet_calm) (simp_all add: send_file_def Let_def outlet_frame split: prod.splits, simp_all add: emit_def)

lemma quiet_send_files: "send_files c fps w = (errs, w') \<Longrightarrow> still w w'"
proof (induction fps arbitrary: w errs w')
  case (Cons fp fps)
  obtain f w1 where 1: "send_file c fp w = (f, w1)" by (cases "send_file c fp w")
  obtain es w2 where 2: "send_files c fps w1 = (es, w2)" by (cases "send_files c fps w1")
  have "still w w1" using quiet_send_file [of w c fp] 1 by simp
  with Cons.IH [OF 2] Cons.prems 1 2 show ?case by (auto split: option.splits intro: quiet_then)
qed simp

lemma dequeue_rows:
  assumes "with_db dequeue w = (r, w')"
  shows "set (inbox (wdb w')) \<subseteq> set (inbox (wdb w))" "r = Inr item \<Longrightarrow> item \<in> set (inbox (wdb w))"
proof -
  obtain d where d: "dequeue (wdb w) = (r, d)" "w' = w\<lparr>wdb := d\<rparr>"
    using assms by (auto simp: with_db_def split: prod.splits)
  have "set (inbox d) \<subseteq> set (inbox (wdb w)) \<and> (r = Inr item \<longrightarrow> item \<in> set (inbox (wdb w)))"
    by (cases "wdb w" rule: dequeue_cases) (use d(1) in \<open>auto simp: delete_row_def dest: inbox_min_in\<close>)
  then show "set (inbox (wdb w')) \<subseteq> set (inbox (wdb w))" "r = Inr item \<Longrightarrow> item \<in> set (inbox (wdb w))"
    using d(2) by auto
qed

lemma batch_rows:
  assumes "with_db dequeue_user_batch w = (r, w')"
  shows "set (inbox (wdb w')) \<subseteq> set (inbox (wdb w))"
    "r = Inr extra \<Longrightarrow> set extra \<subseteq> {e \<in> set (inbox (wdb w)). source e = source_user}"
  using assms by (cases "next_fault (faults (wdb w))"; cases "fst (next_fault (faults (wdb w)))";
    auto simp: with_db_def inbox_sql_defs source_defs)+

lemma no_prompt [simp]: "abort_command \<noteq> prompt_command s" "compact_command \<noteq> prompt_command s"
  "ui_cancel_command i \<noteq> prompt_command s" "prompt_command s = prompt_command t \<longleftrightarrow> s = t"
  by (simp_all add: abort_command_def compact_command_def ui_cancel_command_def prompt_command_def)

section \<open>Invariants of a run\<close>

text \<open>
  An invariant speaks of the rest of the schedule and of the state. A blocking function keeps it when it holds
  in the state in which the schedule ended, or with what is left of the schedule.
\<close>

lemma env_pick [simp]: "is_pick a \<Longrightarrow> env a w = w"
  by (cases a) (simp_all add: env.simps)

text \<open>A blocking function either picks an act that changes nothing, or lets it happen.\<close>

lemma next_event_acts:
  obtains (now) r where "next_event p (a # as) w = Done r as w" "env a w = w"
  | (others) "next_event p (a # as) w = next_event p as (env a w)"
  by (cases a; cases "is_alive p w") auto

lemma grace_drain_acts:
  obtains (now) b where "grace_drain p (a # as) w = Done b as w" "env a w = w"
  | (others) "grace_drain p (a # as) w = grace_drain p as (env a w)"
proof (cases a)
  case (PEvent evt)
  with that show thesis by (cases "continues_turn (ev_type evt)") auto
qed (use that in \<open>cases "is_alive p w"; cases "ctx_done w"; auto\<close>)+

type_synonym run_property = "act list \<Rightarrow> world \<Rightarrow> bool"

fun keeps :: "run_property \<Rightarrow> 'a io \<Rightarrow> bool" where
  "keeps I (Blocked w) \<longleftrightarrow> I [] w"
| "keeps I (Done r as w) \<longleftrightarrow> I as w"

lemma keeps_bind: "keeps I m \<Longrightarrow> (\<And>r as w. I as w \<Longrightarrow> keeps I (f r as w)) \<Longrightarrow> keeps I (and_io m f)"
  by (cases m) auto

lemma keeps_mono: "keeps I m \<Longrightarrow> (\<And>as w. I as w \<Longrightarrow> J as w) \<Longrightarrow> keeps J m"
  by (cases m) auto

text \<open>
  What an invariant \<open>I\<close> has to satisfy to be kept by the turn of an item: the acts of the schedule keep it (a pick
  does nothing to the state), prompts \<open>P\<close> may be written, items \<open>K\<close> may be put back.
\<close>

locale turn_invariant =
  fixes I :: run_property and P :: "string \<Rightarrow> bool" and K :: "inbox_row \<Rightarrow> bool"
  assumes env_law: "I (a # as) w \<Longrightarrow> I as (env a w)"
    and same_law: "I as w \<Longrightarrow> still w w' \<Longrightarrow> I as w'"
    and write_law: "I as w \<Longrightarrow> (\<And>s. j = prompt_command s \<Longrightarrow> P s) \<Longrightarrow> I as (snd (send_command p j w))"
    and outbox_law: "I as w \<Longrightarrow> I as (put_outbox c m t w)"
    and requeue_law: "I as w \<Longrightarrow> K item \<Longrightarrow> I as (snd (with_db (requeue item) w))"
    and prompt_law: "I as w \<Longrightarrow> K item \<Longrightarrow> build_prompt item w = Some s \<Longrightarrow> P s"
    and summary_law: "P summary_prompt"
begin

lemma ensure_keeps: "I as w \<Longrightarrow> ensure_pi w = (r, w') \<Longrightarrow> I as w'"
  using same_law quiet_ensure_pi by blast

lemma resolve_keeps: "I as w \<Longrightarrow> resolve_room_id w = (i, w') \<Longrightarrow> I as w'"
  using same_law quiet_resolve by blast

lemma command_keeps: "I as w \<Longrightarrow> (\<And>s. j \<noteq> prompt_command s) \<Longrightarrow> I as (snd (send_command p j w))"
  by (rule write_law) auto

lemma side_effects_keeps: "I as w \<Longrightarrow> I as (snd (handle_side_effects p evt w))"
proof -
  assume I: "I as w"
  then have "I as (on_tool_call evt w)" using quiet_tool_call by (rule same_law)
  with I command_keeps [OF I, of "ui_cancel_command (ev_id evt)" p] show ?thesis
    by (simp add: handle_side_effects_def auto_respond_extension_ui_def)
qed

lemma abort_keeps: "I as w \<Longrightarrow> I as (snd (abort_if_done p ab w))"
  using command_keeps [of as w abort_command p] by (simp add: abort_if_done_def send_abort_def)

lemma pause_keeps: "I as w \<Longrightarrow> pause as w = (as', w') \<Longrightarrow> I as' w'"
proof (induction as w rule: pause.induct)
  case (2 a as w)
  from env_law [OF 2(2)] 2 show ?case by (auto split: if_splits)
qed simp

lemma next_event_keeps: "I as w \<Longrightarrow> keeps I (next_event p as w)"
proof (induction as arbitrary: w)
  case (Cons a as)
  then show ?case
    using env_law [OF Cons.prems] by (cases rule: next_event_acts [of p a as w]) (simp_all del: next_event.simps)
qed simp

lemma grace_drain_keeps: "I as w \<Longrightarrow> keeps I (grace_drain p as w)"
proof (induction as arbitrary: w)
  case (Cons a as)
  then show ?case
    using env_law [OF Cons.prems] by (cases rule: grace_drain_acts [of p a as w]) (simp_all del: grace_drain.simps)
qed simp

lemma drain_keeps:
  assumes h: "\<And>st evt as w. I as w \<Longrightarrow> I as (snd (snd (h st evt w)))"
  shows "I as w \<Longrightarrow> keeps I (drain_events p h ab st as w)"
proof (induction "length as" arbitrary: as ab st w rule: less_induct)
  case less
  show ?case
  proof (cases "next_event p as w")
    case (Blocked w1)
    with next_event_keeps [OF less(2), of p] show ?thesis by (simp add: drain_events.simps)
  next
    case (Done r as1 w1)
    with next_event_keeps [OF less(2), of p] have 1: "I as1 w1" by simp_all
    show ?thesis
    proof (cases r)
      case (Inl e)
      with Done 1 show ?thesis by (simp add: drain_events.simps)
    next
      case (Inr evt)
      obtain ab' w2 where ab: "abort_if_done p ab w1 = (ab', w2)" by (cases "abort_if_done p ab w1")
      obtain e w3 where se: "handle_side_effects p evt w2 = (e, w3)" by (cases "handle_side_effects p evt w2")
      obtain v st' w4 where hh: "h st evt w3 = (v, st', w4)" by (cases "h st evt w3")
      have 3: "I as1 w3" using side_effects_keeps [of as1 w2 p evt] abort_keeps [OF 1, of p ab] ab se by simp
      then have 4: "I as1 w4" using h [of as1 w3 st evt] hh by simp
      have "length as1 < length as" using Done by (rule next_event_shorter)
      from less(1) [OF this 4, of ab' st'] 1 3 4 Done Inr ab se hh show ?thesis
        by (cases e; cases v) (simp_all add: drain_events.simps [of p h ab st as])
    qed
  qed
qed

lemma result_handle_keeps: "I as w \<Longrightarrow> I as (snd (snd (result_handle od st evt w)))"
  using same_law [OF _ quiet_emit] by (auto simp: result_handle_def split: option.splits prod.splits)

lemma result_loop_keeps: "I as w \<Longrightarrow> keeps I (result_loop p od st as w)"
proof (induction "length as" arbitrary: as st w rule: less_induct)
  case less
  have d: "keeps I (drain_events p (result_handle od) False st as w)"
    by (rule drain_keeps [OF result_handle_keeps less(2)])
  show ?case
  proof (cases "drain_events p (result_handle od) False st as w")
    case (Blocked w1)
    with d show ?thesis by (simp add: result_loop.simps)
  next
    case run: (Done r as1 w1)
    obtain e st1 where r: "r = (e, st1)" by (cases r)
    from d run have 1: "I as1 w1" by simp_all
    note g = grace_drain_keeps [OF 1, of p]
    show ?thesis
    proof (cases "grace_drain p as1 w1")
      case (Blocked w2)
      with run r 1 g show ?thesis by (cases e) (simp_all add: result_loop.simps [of p od st as])
    next
      case (Done b as2 w2)
      with g have 2: "I as2 w2" by simp_all
      have "length as2 < length as" using drain_events_shorter [OF run] grace_drain_shorter [OF Done] by simp
      from less(1) [OF this 2, of "st1\<lparr>wt_final_err := []\<rparr>"] run r 1 2 Done show ?thesis
        by (cases e) (simp_all add: result_loop.simps [of p od st as])
    qed
  qed
qed

lemma wait_keeps: "I as w \<Longrightarrow> keeps I (wait_for_result p od as w)"
  unfolding wait_for_result_def by (rule keeps_bind [OF result_loop_keeps]) simp_all

lemma send_and_wait_keeps:
  assumes "I as w" "P s"
  shows "keeps I (send_and_wait p s od as w)"
proof -
  obtain e w1 where run: "send_prompt_command p s w = (e, w1)" by (cases "send_prompt_command p s w")
  have "I as w1"
    using write_law [of as w "prompt_command s" p] assms run by (auto simp: send_prompt_command_def)
  with assms(1) wait_keeps run show ?thesis by (cases e) (simp_all add: send_and_wait_def)
qed

lemma send_with_retry_keeps:
  assumes "I as w" "P s"
  shows "keeps I (send_with_retry s od as w)"
proof -
  have turn: "keeps I (case ensure_pi v of
        (Inl e, w) \<Rightarrow> Done (None, Inl e) bs w
      | (Inr p, w) \<Rightarrow> and_io (send_and_wait p s od bs w) (f p))"
    if "I bs v" "\<And>p r as w. I as w \<Longrightarrow> keeps I (f p r as w)"
    for v bs and f :: "nat \<Rightarrow> pi_error + string \<Rightarrow> act list \<Rightarrow> world \<Rightarrow> (nat option \<times> (pi_error + string)) io"
  proof -
    obtain r v1 where e: "ensure_pi v = (r, v1)" by (cases "ensure_pi v")
    have "I bs v1" by (rule ensure_keeps [OF that(1) e])
    then show ?thesis
      by (cases r) (simp_all add: e keeps_bind [OF send_and_wait_keeps [OF _ assms(2)] that(2)])
  qed
  show ?thesis
    unfolding send_with_retry_def by (rule turn [OF assms(1)]) (auto intro!: turn same_law [OF _ quiet_stop] split: sum.splits)
qed

lemma retry_empty_keeps: "I as w \<Longrightarrow> keeps I (retry_empty_response p as w)"
  unfolding retry_empty_response_def
  by (rule keeps_bind [OF send_and_wait_keeps [OF _ summary_law]]) (simp_all split: sum.splits)

lemma accept_keeps: "I as w \<Longrightarrow> keeps I (accept_reply item p reply as w)"
  using same_law [OF _ quiet_item(6)] by (simp add: accept_reply_def Let_def retry_empty_keeps split: option.splits)

lemma error_keeps: "I as w \<Longrightarrow> K item \<Longrightarrow> I as (snd (handle_pi_error item conv e kill w))"
  using requeue_law [of as w item] same_law [OF _ quiet_stop, of as w] same_law [OF _ quiet_say]
  by (simp add: handle_pi_error_def requeue_preempted_def Let_def)

lemma reply_keeps: "I as w \<Longrightarrow> I as (send_reply_with_files c t r w)"
proof -
  assume I: "I as w"
  obtain clean paths where e: "extract_send_files t = (clean, paths)" by (cases "extract_send_files t")
  obtain errs w1 where s: "send_files c paths w = (errs, w1)" by (cases "send_files c paths w")
  obtain i w2 where m: "send_message c (clean @ errs) r w1 = (i, w2)" by (cases "send_message c (clean @ errs) r w1")
  have 1: "I as w1" using I quiet_send_files [OF s] by (rule same_law)
  have "still w1 w2" using quiet_send [of w1 c "clean @ errs" r] m by simp
  with 1 have "I as w2" by (rule same_law)
  with 1 outbox_law show ?thesis by (simp add: send_reply_with_files_def e s m Let_def)
qed

text \<open>What happens once the answer of the agent, or an error, is there.\<close>

lemma turn_end_keeps:
  assumes "I as w" "K item"
  shows "keeps I (case res of
      Inl e \<Rightarrow> (case handle_pi_error item conv e (p \<noteq> None) w of (stop, w) \<Rightarrow> Done stop as w)
    | Inr reply \<Rightarrow>
        and_io (accept_reply item p reply as w) (\<lambda>reply as w.
          (if should_suppress_reply reply (source item) then Done False as w
           else let reply = (if debug_timing (cfg w) then reply @ timing_text start w else reply)
                in Done False as (send_reply_with_files conv reply (reply_to item) w))))"
proof (cases res)
  case (Inl e)
  with error_keeps [OF assms] show ?thesis by (simp split: prod.splits) (metis snd_conv)
next
  case (Inr reply)
  have "I as2 (send_reply_with_files conv t rto w2)" if "I as2 w2" for t rto as2 w2
    using that by (rule reply_keeps)
  then show ?thesis unfolding Inr sum.case Let_def by (intro keeps_bind [OF accept_keeps [OF assms(1)]]) simp_all
qed

lemma prompt_turn_keeps:
  assumes "I as w" "P s" "K item"
  shows "keeps I (prompt_turn item conv s as w)"
  unfolding prompt_turn_def Let_def
  by (rule keeps_bind [OF send_with_retry_keeps [OF assms(1,2)]])
     (use turn_end_keeps [OF _ assms(3), unfolded Let_def] in \<open>auto split: prod.splits\<close>)

lemma process_prompt_keeps:
  assumes "I as w" "K item"
  shows "keeps I (process_prompt item as w)"
proof (cases "build_prompt item w")
  case None
  with assms show ?thesis by (simp add: process_prompt_def)
next
  case (Some s)
  obtain conv w1 where rr: "resolve_room_id w = (conv, w1)" by (cases "resolve_room_id w")
  have 1: "I as w1" by (rule resolve_keeps [OF assms(1) rr])
  have typing: "I bs (set_typing conv b v)" if "I bs v" for b bs v
    using that quiet_item(1) by (rule same_law)
  have "keeps I (and_io (prompt_turn item conv s as (set_typing conv True w1)) (\<lambda>stop as w.
      Done stop as (set_typing conv False w)))"
    by (rule keeps_bind [OF prompt_turn_keeps])
       (simp_all add: typing 1 assms prompt_law [OF assms Some])
  with requeue_law [OF 1 assms(2)] 1 Some rr show ?thesis
    by (simp add: process_prompt_def handle_no_room_id_def)
qed

lemma compact_handle_keeps: "I as w \<Longrightarrow> I as (snd (snd (compact_handle st evt w)))"
  by (simp add: compact_handle_def split: option.splits)

lemma pi_compact_keeps:
  assumes "I as w"
  shows "keeps I (pi_compact p as w)"
proof -
  obtain e w1 where run: "send_command p compact_command w = (e, w1)" by (cases "send_command p compact_command w")
  have 1: "I as w1" using command_keeps [OF assms(1), of compact_command p] run by simp
  have "keeps I (wait_for_compact_response p as w1)"
    unfolding wait_for_compact_response_def
    by (rule keeps_bind [OF drain_keeps [OF compact_handle_keeps 1]]) auto
  with 1 assms run show ?thesis by (cases e) (simp_all add: pi_compact_def)
qed

lemma process_compact_keeps:
  assumes "I as w"
  shows "keeps I (process_compact as w)"
proof (cases "compact_chan w")
  case (Some ch)
  let ?w = "w\<lparr>compact_chan := None\<rparr>"
  have 1: "I as ?w" using assms(1) quiet_item(7) by (rule same_law)
  have answered: "I bs (answer ch res v)" if "I bs v" for res bs v
    using that quiet_item(4) by (rule same_law)
  show ?thesis
  proof (cases "if is_active ?w then pi_proc ?w else None")
    case None
    with Some answered [OF 1] show ?thesis by (simp add: process_compact_def Let_def)
  next
    case p: (Some p)
    have "keeps I (and_io (pi_compact p as ?w) (\<lambda>res as w. Done () as (answer ch (case res of
        Inl e \<Rightarrow> Inl (pi_error_text (wlib w) e) | Inr r \<Rightarrow> Inr r) w)))"
      by (rule keeps_bind [OF pi_compact_keeps [OF 1]]) (simp add: answered)
    with Some p show ?thesis by (simp add: process_compact_def Let_def)
  qed
qed (use assms in \<open>simp add: process_compact_def\<close>)

lemma process_item_keeps:
  assumes "I as w" "K item"
  shows "keeps I (process_item item as w)"
proof -
  have begin_end: "I bs (begin_item item v)" "I bs (end_item v)" if "I bs v" for bs v
    using same_law [OF that quiet_item(2)] same_law [OF that quiet_item(3)] by simp_all
  let ?w = "begin_item item w"
  have "keeps I (and_io (process_compact as ?w) (\<lambda>_ as w. Done False as w))"
    by (rule keeps_bind [OF process_compact_keeps [OF begin_end(1) [OF assms(1)]]]) simp
  then have "keeps I (if source item = source_compact
      then and_io (process_compact as ?w) (\<lambda>_ as w. Done False as w) else process_prompt item as ?w)"
    using process_prompt_keeps [OF begin_end(1) [OF assms(1)] assms(2)] by simp
  then show ?thesis unfolding process_item_def by (rule keeps_bind) (simp add: begin_end)
qed

end

section \<open>The loop over the items\<close>

text \<open>
  An invariant of the loop may be suspended while an item is in hand: \<open>H\<close> holds then, and the turn of the item
  has to bring the invariant back.
\<close>

locale loop_invariant =
  fixes I :: run_property and H :: "inbox_row \<Rightarrow> run_property"
  assumes outside_law: "I (a # as) w \<Longrightarrow> I as (env a w)"
    and stop_law: "I as w \<Longrightarrow> I as (stop_pi w)"
    and wake_law: "I as w \<Longrightarrow> I as (w\<lparr>wake := x\<rparr>)"
    and take_law: "I as w \<Longrightarrow> take_item as w = (r, as', w') \<Longrightarrow>
      case r of None \<Rightarrow> I as' w' | Some item \<Rightarrow> H item as' w'"
    and item_law: "H item as w \<Longrightarrow> keeps I (process_item item as w)"
begin

lemma drain_once_keeps: "I as w \<Longrightarrow> keeps I (drain_once as w)"
proof (induction "length as + load w" arbitrary: as w rule: less_induct)
  case less
  obtain r as1 w1 where t: "take_item as w = (r, as1, w1)" by (cases "take_item as w")
  note 1 = take_law [OF less(2) t]
  show ?case
  proof (cases r)
    case None
    with t 1 show ?thesis by (simp add: drain_once.simps)
  next
    case (Some item)
    with 1 have p: "keeps I (process_item item as1 w1)" by (simp add: item_law)
    show ?thesis
    proof (cases "process_item item as1 w1")
      case (Blocked w2)
      with p t Some show ?thesis by (simp add: drain_once.simps)
    next
      case (Done stop as2 w2)
      with p have 2: "I as2 w2" by simp_all
      have "keeps I (drain_once as2 w2)" if "\<not> stop"
        using less(1) [OF round_less 2] Done t Some that by simp
      with t Some Done 2 show ?thesis by (simp add: drain_once.simps [of as])
    qed
  qed
qed

lemma run_loop_keeps: "I as w \<Longrightarrow> keeps I (run_loop as w)"
proof (induction as w rule: run_loop.induct)
  case (2 a as w)
  show ?case
  proof (cases "a = PCtx \<and> root_cancelled w")
    case True
    then have "I as w" using outside_law [OF 2(3)] by auto
    from stop_law [OF this] True show ?thesis by simp
  next
    case c1: False
    show ?thesis
    proof (cases "a = PWake \<and> wake w")
      case True
      then have "I as w" using outside_law [OF 2(3)] by auto
      then have d: "keeps I (drain_once as (w\<lparr>wake := False\<rparr>))" by (intro drain_once_keeps wake_law)
      show ?thesis
      proof (cases "drain_once as (w\<lparr>wake := False\<rparr>)")
        case (Done u as1 w1)
        with d 2(1) [OF c1 True Done] True show ?thesis by simp
      qed (use d True in simp)
    next
      case False
      have "keeps I (run_loop as (env a w))" by (rule 2(2) [OF c1 False outside_law [OF 2(3)]])
      with c1 False show ?thesis by auto
    qed
  qed
qed simp

lemma run_worker_keeps: "I as w \<Longrightarrow> keeps I (run_worker as w)"
  unfolding run_worker_def by (rule keeps_bind [OF drain_once_keeps run_loop_keeps])

end

text \<open>What it has to satisfy in addition to be kept by the loop that takes the items.\<close>

locale run_invariant = turn_invariant +
  assumes dequeue_law: "I as w \<Longrightarrow> with_db dequeue w = (r, w') \<Longrightarrow> I as w' \<and> (\<forall>item. r = Inr item \<longrightarrow> K item)"
    and batch_law: "I as w \<Longrightarrow> with_db dequeue_user_batch w = (rs, w') \<Longrightarrow>
      I as w' \<and> (\<forall>extra. rs = Inr extra \<longrightarrow> (\<forall>e \<in> set extra. source e = source_user \<and> K e))"
    and merge_law: "K item \<Longrightarrow> \<forall>e \<in> set (item # extra). source e = source_user \<Longrightarrow> \<forall>e \<in> set extra. K e \<Longrightarrow>
      K (item\<lparr>content := content item @ concat (map (\<lambda>e. [CHR 0x0A] @ content e) extra), reply_to := rto\<rparr>)"
begin

lemma take_item_keeps:
  assumes "I as w" "take_item as w = (r, as', w')"
  shows "I as' w' \<and> (\<forall>item. r = Some item \<longrightarrow> K item)"
proof -
  obtain as1 w1 where p1: "pause as w = (as1, w1)" by (cases "pause as w")
  obtain x w2 where dq: "with_db dequeue w1 = (x, w2)" by (cases "with_db dequeue w1")
  note 1 = pause_keeps [OF assms(1) p1]
  have 2: "I as1 w2" "\<forall>item. x = Inr item \<longrightarrow> K item" using dequeue_law [OF _ dq] 1 by auto
  consider "r = None" "as' = as1" "w' = w1 \<or> w' = w2"
    | item item2 w3 where "x = Inr item"
      "(if source item = source_user then merge_user_items item w2 else (item, w2)) = (item2, w3)"
      "r = Some item2" "pause as1 w3 = (as', w')"
    using assms(2) p1 dq by (auto simp: take_item_def split: if_splits sum.splits prod.splits)
  then show ?thesis
  proof cases
    case (2 item item2 w3)
    have Ki: "K item" using \<open>\<forall>item. x = Inr item \<longrightarrow> K item\<close> 2(1) by simp
    obtain y w4 where b: "with_db dequeue_user_batch w2 = (y, w4)" by (cases "with_db dequeue_user_batch w2")
    note 4 = batch_law [OF \<open>I as1 w2\<close> b]
    have "I as1 w3 \<and> K item2"
    proof (cases "source item = source_user")
      case True
      show ?thesis
      proof (cases y)
        case (Inl e)
        with True 2(2) b 4 Ki show ?thesis by (simp add: merge_user_items_def)
      next
        case (Inr extra)
        with 4 have "\<forall>e \<in> set extra. source e = source_user \<and> K e" by simp
        with merge_law [OF Ki, of extra "reply_to (last extra)"] True 2(2) b Inr 4 Ki show ?thesis
          by (auto simp: merge_user_items_def split: if_splits)
      qed
    qed (use 2(2) \<open>I as1 w2\<close> Ki in simp)
    with pause_keeps [OF _ 2(4)] 2(3) show ?thesis by auto
  qed (use 1 2 in auto)
qed

end

text \<open>An invariant that is kept by the turn of an item in hand is one of the loop.\<close>

sublocale run_invariant \<subseteq> loop_invariant I "\<lambda>item as w. I as w \<and> K item"
proof
  show "I as (stop_pi w)" "I as (w\<lparr>wake := x\<rparr>)" if "I as w" for as w x
    using same_law [OF that quiet_stop] same_law [OF that quiet_item(5)] by simp_all
  show "case r of None \<Rightarrow> I as' w' | Some item \<Rightarrow> I as' w' \<and> K item"
    if "I as w" "take_item as w = (r, as', w')" for w as r as' w'
    using take_item_keeps [OF that] by (simp split: option.split)
qed (simp_all add: env_law process_item_keeps)

end
