(* ===== verification/Provenance.thy ===== *)
theory Provenance
  imports Run_Invariant
begin

text \<open>
  Where the prompts come from: whatever the run, a line written to an agent as a prompt was made from
  messages that were handed over, or is one of the fixed prompts of a heartbeat, a trigger or a summary.
  The property is an interpretation of the locale \<open>run_invariant\<close>.
\<close>

section \<open>Rows that are added\<close>

definition adds :: "(inbox_row \<Rightarrow> bool) \<Rightarrow> world \<Rightarrow> world \<Rightarrow> bool" where
  "adds S w w' \<longleftrightarrow> set (inbox (wdb w')) \<subseteq> set (inbox (wdb w)) \<union> Collect S"

lemma adds_same: "core_of w' = core_of w \<Longrightarrow> adds S w w'"
  by (drule core_inbox) (simp add: adds_def)

lemma adds_trans: "adds S w w1 \<Longrightarrow> adds S w1 w2 \<Longrightarrow> adds S w w2"
  by (auto simp: adds_def)

lemma adds_then: "adds S w w1 \<Longrightarrow> core_of w2 = core_of w1 \<Longrightarrow> adds S w w2"
  by (drule core_inbox) (simp add: adds_def)

lemma adds_enqueue:
  assumes "with_db (enqueue p src c rto) w = (r, w')" "\<And>x. source x = src \<Longrightarrow> content x = c \<Longrightarrow> S x"
  shows "adds S w w'"
proof (cases "next_fault (faults (wdb w))")
  case (Pair f fs)
  with assms show ?thesis
    by (cases f) (auto simp: with_db_def enqueue_run enqueue_fail adds_def)
qed

abbreviation not_user :: "inbox_row \<Rightarrow> bool" where "not_user r \<equiv> source r \<noteq> source_user"

lemma sources_apart [simp]: "source_trigger \<noteq> source_user" "source_compact \<noteq> source_user"
  "source_heartbeat \<noteq> source_user"
  by (simp_all add: source_defs)

lemma adds_trigger: "adds not_user w (trigger_line l w)"
proof -
  obtain r w' where e: "with_db (enqueue priority_trigger source_trigger (trim_space l) []) w = (r, w')"
    by (cases "with_db (enqueue priority_trigger source_trigger (trim_space l) []) w")
  have "adds not_user w w'" by (rule adds_enqueue [OF e]) simp
  then show ?thesis
    using adds_same [of w w] by (auto simp: trigger_line_def Let_def e core_frame intro: adds_then split: sum.splits)
qed

lemma adds_heartbeat: "adds not_user w (heartbeat_tick w)"
  by (cases "next_fault (faults (wdb w))"; cases "fst (next_fault (faults (wdb w)))")
     (auto simp: heartbeat_tick_def with_db_def inbox_sql_defs adds_def notify_def Let_def source_defs)

lemma adds_insert_reminder: "adds S w (snd (with_db (q_insert_reminder t p) w))"
  by (cases "next_fault (faults (wdb w))"; cases "fst (next_fault (faults (wdb w)))")
     (auto simp: with_db_def q_insert_reminder_def sql_def adds_def)

lemma adds_fire: "adds not_user w (fire_reminders rs w)"
proof (induction rs w rule: fire_reminders.induct)
  case (1 w)
  then show ?case by (simp add: adds_same)
next
  case (2 r rs w)
  obtain x w' where e: "with_db (enqueue priority_trigger source_trigger (reminder_content r) []) w = (x, w')"
    by (cases "with_db (enqueue priority_trigger source_trigger (reminder_content r) []) w")
  have a: "adds not_user w w'" by (rule adds_enqueue [OF e]) simp
  show ?case
  proof (cases x)
    case (Inl err)
    with 2(1) [OF e [symmetric] Inl] e show ?thesis
      using adds_trans [OF a adds_trans [OF adds_insert_reminder]] by simp
  next
    case (Inr u)
    have "adds not_user w (notify priority_trigger w')" by (rule adds_then [OF a]) (simp add: core_frame)
    with 2(2) [OF e [symmetric] Inr] Inr e show ?thesis using adds_trans [of not_user w] by simp
  qed
qed

lemma adds_dispatch: "adds not_user w (dispatch_due_reminders w)"
proof -
  let ?q = "with_db (q_due_reminders (datetime (wlib w)) (rfc3339 (now_ns w div 1000000000))) w"
  obtain x w' where q: "?q = (x, w')" by (cases ?q)
  then have "adds not_user w w'"
    by (cases "next_fault (faults (wdb w))"; cases "fst (next_fault (faults (wdb w)))")
       (auto simp: with_db_def q_due_reminders_def sql_def adds_def)
  with q adds_fire show ?thesis
    by (cases x) (auto simp: dispatch_due_reminders_def intro: adds_trans)
qed

lemma adds_compact: "adds not_user w (snd (compact_request w))"
proof (cases "\<not> is_active w \<or> compact_chan w \<noteq> None")
  case False
  let ?w = "w\<lparr>next_chan := Suc (next_chan w), compact_chan := Some (next_chan w)\<rparr>"
  obtain r w' where e: "with_db (enqueue priority_user source_compact [] []) ?w = (r, w')"
    by (cases "with_db (enqueue priority_user source_compact [] []) ?w")
  have "adds not_user ?w w'" by (rule adds_enqueue [OF e]) simp
  with False e show ?thesis
    by (cases r) (auto simp: compact_request_def Let_def adds_def notify_def)
qed (auto simp: compact_request_def adds_def)

text \<open>The text a message is turned into; it depends on the log of texts when the message is a reply.\<close>

definition prompt_of :: "message \<Rightarrow> string \<Rightarrow> bool" where
  "prompt_of m s \<longleftrightarrow> (\<exists>w. s = fst (build_prompt_text m w))"

definition from_message :: "message \<Rightarrow> inbox_row \<Rightarrow> bool" where
  "from_message m r \<longleftrightarrow> source r = source_user \<longrightarrow> prompt_of m (content r)"

lemma adds_mono: "adds S w w' \<Longrightarrow> (\<And>r. S r \<Longrightarrow> T r) \<Longrightarrow> adds T w w'"
  by (auto simp: adds_def)

lemma adds_prompt: "adds (from_message m) w (handle_prompt m w)"
proof -
  let ?w = "set_room_id (conversation_id m) w"
  obtain p w1 where bp: "build_prompt_text m ?w = (p, w1)" by (cases "build_prompt_text m ?w")
  obtain r w2 where en: "with_db (enqueue priority_user source_user p (reply_to_id m)) w1 = (r, w2)"
    by (cases "with_db (enqueue priority_user source_user p (reply_to_id m)) w1")
  have "prompt_of m p" using bp by (metis fst_conv prompt_of_def)
  then have "adds (from_message m) w1 w2"
    by (intro adds_enqueue [OF en]) (simp add: from_message_def)
  moreover have "core_of w1 = core_of w" using core_of_build_prompt [of m ?w] bp by (simp add: core_frame)
  ultimately have "adds (from_message m) w w2" by (meson adds_same adds_trans)
  then show ?thesis
    by (auto simp: handle_prompt_def bp en Let_def core_frame split: sum.splits intro: adds_then)
qed

lemma adds_handle_compact: "adds not_user w (handle_compact m w)"
  using adds_compact [of w] by (auto simp: handle_compact_def core_frame split: prod.splits sum.splits
      intro: adds_then adds_same)

lemma adds_message: "adds (from_message m) w (handle_message m w)"
proof -
  let ?w = "put_outbox (conversation_id m) (message_id m) (msg_text m) w"
  have lift: "adds (from_message m) w w'" if "adds (from_message m) ?w w'" for w'
    using that by (rule adds_trans [rotated]) (simp add: adds_same core_frame)
  have "set (inbox (wdb (stop_pi v))) = set (inbox (wdb v))" for v
    by (simp add: stop_pi_def kill_pi_def emit_def split: option.splits)
  then have "adds (from_message m) ?w (handle_restart m ?w)"
    using core_inbox [OF core_of_emit, of "ResetConv (conversation_id m)" ?w]
    by (auto simp: handle_restart_def restart_def adds_def core_inbox [OF core_of_say(2)])
  moreover have "core_of (handle_stop m ?w) = core_of ?w" by (simp add: handle_stop_def abort_def core_frame)
  moreover have "core_of (handle_help m ?w) = core_of ?w" "core_of (handle_skills m ?w) = core_of ?w"
    by (simp_all add: handle_help_def handle_skills_def core_frame)
  moreover have "adds (from_message m) ?w (handle_compact m ?w)"
    by (rule adds_mono [OF adds_handle_compact]) (simp add: from_message_def)
  ultimately show ?thesis
    by (auto simp: handle_message_def Let_def adds_prompt adds_same intro!: lift)
qed

text \<open>What one step of the surroundings adds.\<close>

lemma env_adds: "adds (\<lambda>r. not_user r \<or> (\<exists>m. a = AMessage m \<and> prompt_of m (content r))) w (env a w)"
proof -
  have quiet: ?thesis if "adds not_user w (env a w)" using that by (rule adds_mono) simp
  show ?thesis
  proof (cases a)
    case (AMessage m)
    then show ?thesis
      by (auto simp: env.simps from_message_def intro: adds_mono [OF adds_message [of m w]])
  next
    case (AResume ch)
    then show ?thesis
      by (intro quiet adds_same) (auto simp: env.simps compact_resume_def core_frame split: option.splits)
  next
    case AReapLook
    then show ?thesis by (intro quiet) (simp add: env.simps adds_def reap_look_def)
  next
    case AReapStop
    have "inbox (wdb (reap_stop w)) = inbox (wdb w)"
      by (simp add: reap_stop_def stop_pi_def kill_pi_def emit_def split: option.splits)
    with AReapStop show ?thesis by (intro quiet) (simp add: env.simps adds_def)
  next
    case (ADie p)
    then show ?thesis by (intro quiet) (simp add: env.simps adds_def)
  qed (auto intro!: quiet simp: env.simps adds_trigger adds_heartbeat adds_dispatch core_frame adds_same)
qed

section \<open>Authentic prompts\<close>

text \<open>Texts made from messages that are \<open>ok\<close>; items that wait together are joined by line breaks.\<close>

inductive user_text :: "(message \<Rightarrow> bool) \<Rightarrow> string \<Rightarrow> bool" for ok where
  single: "ok m \<Longrightarrow> prompt_of m s \<Longrightarrow> user_text ok s"
| merged: "user_text ok s \<Longrightarrow> user_text ok t \<Longrightarrow> user_text ok (s @ [CHR 0x0A] @ t)"

inductive_cases user_textE: "user_text ok s"

definition user_item :: "(message \<Rightarrow> bool) \<Rightarrow> inbox_row \<Rightarrow> bool" where
  "user_item ok r \<longleftrightarrow> source r = source_user \<longrightarrow> user_text ok (content r)"

definition accepted_act :: "(message \<Rightarrow> bool) \<Rightarrow> act \<Rightarrow> bool" where
  "accepted_act ok a \<longleftrightarrow> (\<forall>m. a = AMessage m \<longrightarrow> ok m)"

definition allowed_prompt :: "(message \<Rightarrow> bool) \<Rightarrow> string \<Rightarrow> string \<Rightarrow> string \<Rightarrow> bool" where
  "allowed_prompt ok hb tr s \<longleftrightarrow> user_text ok s \<or> s = summary_prompt \<or>
     (\<exists>items. s = build_heartbeat_prompt hb items) \<or> (\<exists>c. s = build_trigger_prompt tr c)"

definition authentic :: "(message \<Rightarrow> bool) \<Rightarrow> string \<Rightarrow> string \<Rightarrow> world \<Rightarrow> bool" where
  "authentic ok hb tr w \<longleftrightarrow> hb_prompt w = hb \<and> trigger_prompt w = tr \<and>
     (\<forall>r \<in> set (inbox (wdb w)). user_item ok r) \<and>
     (\<forall>p s. (p, prompt_command s) \<in> set (writes w) \<longrightarrow> allowed_prompt ok hb tr s)"

lemma merged_text:
  "user_text ok s \<Longrightarrow> \<forall>e \<in> set extra. user_text ok (content e) \<Longrightarrow>
   user_text ok (s @ concat (map (\<lambda>e. [CHR 0x0A] @ content e) extra))"
proof (induction extra arbitrary: s)
  case (Cons e extra)
  then have "user_text ok (s @ [CHR 0x0A] @ content e)" by (intro merged) simp_all
  from Cons.IH [OF this] Cons.prems(2) show ?case by simp
qed simp

lemma authentic_fewer:
  "authentic ok hb tr w \<Longrightarrow> set (inbox (wdb w')) \<subseteq> set (inbox (wdb w)) \<Longrightarrow> outlet w' = outlet w \<Longrightarrow>
   authentic ok hb tr w'"
  by (auto simp: authentic_def outlet_def)

lemma authentic_env: "authentic ok hb tr w \<Longrightarrow> accepted_act ok a \<Longrightarrow> authentic ok hb tr (env a w)"
proof -
  assume h: "authentic ok hb tr w" "accepted_act ok a"
  have "user_item ok r" if "r \<in> set (inbox (wdb (env a w)))" for r
  proof -
    have "r \<in> set (inbox (wdb w)) \<or> not_user r \<or> (\<exists>m. a = AMessage m \<and> prompt_of m (content r))"
      using env_adds [of a w] that unfolding adds_def by blast
    with h show ?thesis by (auto simp: authentic_def accepted_act_def user_item_def intro: single)
  qed
  with h outlet_env [of a w] show ?thesis by (simp add: authentic_def outlet_def)
qed

lemma send_command_writes:
  "\<exists>fs. snd (send_command p j w) = w\<lparr>stdin_faults := fs\<rparr> \<or>
     snd (send_command p j w) = emit (Stdin p j) (w\<lparr>stdin_faults := fs\<rparr>)"
proof (cases "next_fault (stdin_faults w)")
  case (Pair f fs)
  then show ?thesis
    by (cases f) (auto simp: send_command_def intro: exI [of _ "stdin_faults w"])
qed

lemma authentic_write:
  assumes "authentic ok hb tr w" "\<And>s. j = prompt_command s \<Longrightarrow> allowed_prompt ok hb tr s"
  shows "authentic ok hb tr (snd (send_command p j w))"
proof -
  obtain fs where "snd (send_command p j w) = w\<lparr>stdin_faults := fs\<rparr> \<or>
      snd (send_command p j w) = emit (Stdin p j) (w\<lparr>stdin_faults := fs\<rparr>)"
    using send_command_writes by blast
  then show ?thesis
  proof
    assume s: "snd (send_command p j w) = emit (Stdin p j) (w\<lparr>stdin_faults := fs\<rparr>)"
    have "writes (snd (send_command p j w)) = writes w @ [(p, j)]"
      by (simp add: s writes_def emit_def map_filter_append List.map_filter_simps)
    with assms s show ?thesis by (auto simp: authentic_def emit_def)
  qed (use assms(1) in \<open>simp add: authentic_def writes_def\<close>)
qed

lemma authentic_requeue:
  assumes "authentic ok hb tr w" "user_item ok item"
  shows "authentic ok hb tr (snd (with_db (requeue item) w))"
proof -
  have "set (inbox (wdb (snd (with_db (requeue item) w)))) \<subseteq>
      set (inbox (wdb w)) \<union> {r. source r = source item \<and> content r = content item}"
    by (cases "next_fault (faults (wdb w))"; cases "fst (next_fault (faults (wdb w)))")
       (auto simp: with_db_def inbox_sql_defs)
  with assms outlet_with_db [of "requeue item" w] show ?thesis
    by (auto simp: authentic_def outlet_def user_item_def)
qed

lemma authentic_prompt:
  "authentic ok hb tr w \<Longrightarrow> user_item ok item \<Longrightarrow> build_prompt item w = Some s \<Longrightarrow> allowed_prompt ok hb tr s"
  by (auto simp: build_prompt_def authentic_def user_item_def allowed_prompt_def Let_def split: if_splits)

definition authentic_with :: "(message \<Rightarrow> bool) \<Rightarrow> string \<Rightarrow> string \<Rightarrow> run_property" where
  "authentic_with ok hb tr as w \<longleftrightarrow> list_all (accepted_act ok) as \<and> authentic ok hb tr w"

interpretation authentic_run: run_invariant "authentic_with ok hb tr" "allowed_prompt ok hb tr" "user_item ok"
  for ok hb tr
proof
  show "authentic_with ok hb tr as (env a w)" if "authentic_with ok hb tr (a # as) w" for a as w
    using that by (simp add: authentic_with_def authentic_env)
next
  fix as w
  assume a: "authentic_with ok hb tr as w"
  then have I: "authentic ok hb tr w" and acts: "list_all (accepted_act ok) as" by (simp_all add: authentic_with_def)
  have fewer: "authentic ok hb tr (snd (with_db f w))"
    if "set (inbox (wdb (snd (with_db f w)))) \<subseteq> set (inbox (wdb w))" for f :: "db \<Rightarrow> 'x \<times> db"
    using I that outlet_with_db [of f w] by (rule authentic_fewer)
  show "authentic_with ok hb tr as w' \<and> (\<forall>item. r = Inr item \<longrightarrow> user_item ok item)" if "with_db dequeue w = (r, w')" for r w'
    using fewer [of dequeue] dequeue_rows [OF that] that I acts by (auto simp: authentic_with_def authentic_def)
  show "authentic_with ok hb tr as w' \<and> (\<forall>extra. r = Inr extra \<longrightarrow> (\<forall>e \<in> set extra. source e = source_user \<and> user_item ok e))"
    if "with_db dequeue_user_batch w = (r, w')" for r w'
    using fewer [of dequeue_user_batch] batch_rows [OF that] that I acts by (fastforce simp: authentic_with_def authentic_def)
  have "authentic ok hb tr (put_outbox c m t w)" for c m t
    using I by (rule authentic_fewer) (simp_all add: core_inbox [OF core_of_put_outbox] outlet_frame)
  then show "authentic_with ok hb tr as (put_outbox c m t w)" for c m t using acts by (simp add: authentic_with_def)
  have "authentic ok hb tr w'" if "still w w'" for w'
    using I by (rule authentic_fewer) (use that in \<open>simp_all add: still_def\<close>)
  then show "authentic_with ok hb tr as w'" if "still w w'" for w' using acts that by (simp add: authentic_with_def)
next
  show "user_item ok (item\<lparr>content := content item @ concat (map (\<lambda>e. [CHR 0x0A] @ content e) extra), reply_to := rto\<rparr>)"
    if "user_item ok item" "\<forall>e \<in> set (item # extra). source e = source_user" "\<forall>e \<in> set extra. user_item ok e"
    for item extra rto
    using that merged_text [of ok "content item" extra] by (simp add: user_item_def)
  show "allowed_prompt ok hb tr summary_prompt" by (simp add: allowed_prompt_def)
qed (auto simp: authentic_with_def authentic_write authentic_requeue authentic_prompt)

text \<open>The end of a run.\<close>

lemma authentic_run_end:
  assumes "authentic ok hb tr w" "list_all (accepted_act ok) as"
  shows "authentic ok hb tr (io_world (run_worker as w))"
proof -
  have "keeps (authentic_with ok hb tr) (run_worker as w)"
    by (rule authentic_run.run_worker_keeps) (simp add: authentic_with_def assms)
  then show ?thesis by (cases "run_worker as w") (simp_all add: authentic_with_def)
qed

section \<open>Properties\<close>

text \<open>
  Every prompt the worker ever writes to an agent, in every run, was made from messages that were handed over,
  or is the fixed prompt of a heartbeat, a trigger or a summary: nothing else can speak to the agent, whatever
  is retried, preempted, merged or put back.
\<close>

theorem prompts_authentic:
  assumes "\<forall>m. AMessage m \<in> set as \<longrightarrow> ok m" "\<forall>r \<in> set (inbox (wdb w)). user_item ok r" "writes w = []"
    "(p, prompt_command s) \<in> set (writes (io_world (run_worker as w)))"
  shows "allowed_prompt ok (hb_prompt w) (trigger_prompt w) s"
proof -
  have "authentic ok (hb_prompt w) (trigger_prompt w) w" using assms(2,3) by (simp add: authentic_def)
  moreover have "list_all (accepted_act ok) as" using assms(1) by (auto simp: list_all_iff accepted_act_def)
  ultimately have "authentic ok (hb_prompt w) (trigger_prompt w) (io_world (run_worker as w))"
    by (rule authentic_run_end)
  with assms(4) show ?thesis by (auto simp: authentic_def)
qed

lemma stopped_run_writes: "writes (io_world stopped_run) = [(0, prompt_command (no_quote_text @ ''hello''))]"
  by code_simp

theorem prompts_authentic_witness:
  "writes (io_world stopped_run) = [(0, prompt_command (no_quote_text @ ''hello''))] \<and>
     allowed_prompt (\<lambda>m. sender_id m = ''alice'') ''check'' ''trigger'' (no_quote_text @ ''hello'')"
proof -
  have w: "inbox (wdb sample_world) = []" "writes sample_world = []" "hb_prompt sample_world = ''check''"
    "trigger_prompt sample_world = ''trigger''" by (simp_all add: sample_defs writes_def)
  have "sender_id sample_msg = ''alice''" by (simp add: sample_msg_def)
  then show ?thesis
    using prompts_authentic [of "[PSync, AMessage sample_msg, PWake, PSync, PSync, AShutdown, PDone, PEof, PSync, PCtx]"
        "\<lambda>m. sender_id m = ''alice''" sample_world 0 "no_quote_text @ ''hello''"] w stopped_run_writes
    by (simp add: stopped_run_def)
qed

text \<open>The text of a prompt from a user ends with the text of a message.\<close>

lemma prompt_of_suffix: "prompt_of m s \<Longrightarrow> \<exists>u. s = u @ msg_text m"
proof -
  assume "prompt_of m s"
  then obtain w where s: "s = fst (build_prompt_text m w)" by (auto simp: prompt_of_def)
  obtain q w1 where "get_outbox (conversation_id m) (reply_to_id m) w = (q, w1)"
    by (cases "get_outbox (conversation_id m) (reply_to_id m) w")
  then have "s = [] @ msg_text m \<or> s = no_quote_text @ msg_text m \<or>
      s = (''[user replied to message: '' @ go_quote (print_tab (wlib w1)) q @ '']'' @ [CHR 0x0A]) @ msg_text m"
    by (simp add: s build_prompt_text_def)
  then show ?thesis by blast
qed

lemma user_text_suffix: "user_text ok s \<Longrightarrow> \<exists>m u. ok m \<and> s = u @ msg_text m"
proof (induction rule: user_text.induct)
  case (single m s)
  then show ?case using prompt_of_suffix by blast
next
  case (merged s t)
  then obtain m u where "ok m" "t = u @ msg_text m" by blast
  then show ?case by (intro exI [of _ m] exI [of _ "s @ [CHR 0x0A] @ u"]) simp
qed

end
