(* ===== verification/End_To_End.thy ===== *)
theory End_To_End
  imports Main_Run Socket_Server Gatekeeper Provenance
begin

text \<open>
  From the network to the agent: the start of the process (\<open>main.go\<close>), the transport it chose, the
  application and the worker together. The transports keep the contract \<open>gatekeeper\<close>, the worker the
  contract \<open>run_invariant\<close>; the closure of \<open>wireServices\<close> that hands a message of the transport to the
  application joins the two.
\<close>

section \<open>Who may speak\<close>

definition allowed_users :: "config \<Rightarrow> string list" where
  "allowed_users c =
     (if c_backend c = ''matrix'' then mc_allowed (c_matrix c)
      else if c_backend c = ''nostr'' then ns_allowed (c_nostr c)
      else if c_backend c = ''signal'' then sc_allowed (c_signal c)
      else [''local''])"

definition may_speak :: "config \<Rightarrow> message \<Rightarrow> bool" where
  "may_speak c m \<longleftrightarrow> is_allowed (allowed_users c) (sender_id m)"

text \<open>
  The life of a transport: what arrives and what is sent, with the states the constructors do not give;
  \<open>handed_over\<close> are the messages given to the application since the start.
\<close>

datatype transport_life =
    MatrixLife mlib "matrix_op list"
  | NostrLife nlib string "nostr_op list"
  | SignalLife signal "receive_event list"
  | SocketLife socket "socket_op list"

fun handed_over :: "backend_settings \<Rightarrow> transport_life \<Rightarrow> message list" where
  "handed_over (MatrixBackend s b) (MatrixLife l ops) =
     drop (length (mx_handled b)) (mx_handled (matrix_run l s ops b))"
| "handed_over (NostrBackend c b) (NostrLife l own ops) =
     drop (length (nb_handled b)) (nb_handled (fold (nostr_next l c own) ops b))"
| "handed_over (SignalBackend s) (SignalLife b evs) =
     drop (length (sg_handled b)) (sg_handled (snd (receive_loop s evs b)))"
| "handed_over (SocketBackend s) (SocketLife b ops) =
     drop (length (sk_handled b)) (sk_handled (socket_run s ops b))"
| "handed_over _ _ = []"

lemma receive_loop_fold: "\<exists>ns. snd (receive_loop s evs b) = fold (handle_note s) ns b"
proof (induction s evs b rule: receive_loop.induct)
  case (1 s b)
  then show ?case by (intro exI [of _ "[]"]) simp
next
  case (2 s ev evs b)
  have stop: ?case if "snd (receive_loop s (ev # evs) b) = b" using that by (intro exI [of _ "[]"]) simp
  show ?case
  proof (cases ev)
    case (RxError e ctx)
    with stop 2(1) show ?thesis by (cases e; cases ctx) auto
  next
    case (RxNote n)
    from 2(2) [OF this] obtain ns where "snd (receive_loop s evs (handle_note s n b)) = fold (handle_note s) ns (handle_note s n b)"
      by blast
    with RxNote show ?thesis by (intro exI [of _ "n # ns"]) simp
  qed (use stop in simp)
qed

lemma handed_over_accepted:
  assumes "create_backend l client mx lib oe ok nb q c = Inr b" "m \<in> set (handed_over b life)"
  shows "may_speak c m"
proof (cases b)
  case (MatrixBackend s mx')
  then obtain ml ops where life: "life = MatrixLife ml ops" using assms(2) by (cases life) auto
  have c: "c_backend c = ''matrix''" "ms_allowed s = mc_allowed (c_matrix c)"
    using assms(1) MatrixBackend
    by (auto simp: create_backend_def create_matrix_settings_def split: if_splits prod.splits sum.splits option.splits)
  have "from_allowed (ms_user s) (ms_allowed s) m"
    using matrix_gate.since_accepted [of m mx' ml s ops] assms(2)
    by (simp add: MatrixBackend life matrix_run_fold)
  with c show ?thesis by (simp add: may_speak_def allowed_users_def from_allowed_def)
next
  case (NostrBackend nc nb')
  then obtain ml own ops where life: "life = NostrLife ml own ops" using assms(2) by (cases life) auto
  have c: "c_backend c = ''nostr''" "nc_allowed nc = ns_allowed (c_nostr c)"
    using assms(1) NostrBackend
    by (auto simp: create_backend_def create_nostr_config_def new_nostr_backend_def Let_def
        split: if_splits prod.splits sum.splits option.splits)
  have "from_allowed own (nc_allowed nc) m"
    using nostr_gate.since_accepted [of m nb' ml nc own ops] assms(2)
    by (simp add: NostrBackend life)
  with c show ?thesis by (simp add: may_speak_def allowed_users_def from_allowed_def)
next
  case (SignalBackend s)
  then obtain sg evs where life: "life = SignalLife sg evs" using assms(2) by (cases life) auto
  have c: "c_backend c = ''signal''" "ss_allowed s = sc_allowed (c_signal c)"
    using assms(1) SignalBackend
    by (auto simp: create_backend_def create_signal_settings_def new_signal_def Let_def
        split: if_splits prod.splits sum.splits option.splits)
  obtain ns where "snd (receive_loop s evs sg) = fold (handle_note s) ns sg" using receive_loop_fold by blast
  then have "from_allowed (ss_account s) (ss_allowed s) m"
    using signal_gate.since_accepted [of m sg s ns] assms(2) by (simp add: SignalBackend life)
  with c show ?thesis by (simp add: may_speak_def allowed_users_def from_allowed_def)
next
  case (SocketBackend s)
  then obtain so ops where life: "life = SocketLife so ops" using assms(2) by (cases life) auto
  have c: "c_backend c = ''socket''"
    using assms(1) SocketBackend
    by (auto simp: create_backend_def split: if_splits prod.splits sum.splits option.splits)
  have "from_local m"
    using socket_gate.since_accepted [of m so s ops] assms(2)
    by (simp add: SocketBackend life socket_run_fold)
  with c show ?thesis by (simp add: may_speak_def allowed_users_def from_local_def is_allowed_def)
qed

section \<open>The start\<close>

lemma migrate_inbox: "inbox (snd (migrate_legacy_outbox legacy fs d)) = inbox d"
  by (simp add: migrate_legacy_outbox_def Let_def split: legacy_file.splits prod.splits option.splits)

lemma open_db_inbox: "open_db fs legacy ms d = Inr d' \<Longrightarrow> inbox d' = inbox d"
  by (auto simp: open_db_def migrate_inbox split: prod.splits option.splits)

lemma new_store_inbox: "new_inbox_store d = (r, d') \<Longrightarrow> set (inbox d') \<subseteq> set (inbox d)"
  by (cases "next_fault (faults d)"; cases "fst (next_fault (faults d))") (auto simp: inbox_sql_defs)

lemma fifo_inbox: "inbox (wdb (snd (ensure_fifo p w))) = inbox (wdb w)"
  by (rule core_inbox) (use ensure_fifo_fields [of p w] in \<open>cases "ensure_fifo p w"; simp\<close>)

lemma fifo_outlet: "outlet (snd (ensure_fifo p w)) = outlet w"
  using outlet_fifo [of p w] by (cases "ensure_fifo p w") auto

lemma wire_services_facts:
  assumes "wire_services u c d = Inr (b, w)"
  shows "inbox (wdb w) = inbox d" "outlet w = ([], hc_prompt (c_heartbeat c), default_trigger_prompt)"
    "create_backend (su_mlib u) (su_client_error u) (su_matrix u) (su_nlib u) (nostr_open_error (session_dir (config.c_pi c)) (su_nostr_open u))
       (su_event_ok u) (su_nostr u) (su_quoted u) c = Inr b"
  using assms
  by (auto simp: wire_services_def Let_def fifo_inbox fifo_outlet split: sum.splits)
     (simp_all add: wire_worker_def new_worker_def outlet_def writes_def)

lemma launch_facts:
  assumes "launch u (Inr c) = Inr (b, w)"
  shows "set (inbox (wdb w)) \<subseteq> set (inbox (su_db u))"
    "outlet w = ([], hc_prompt (c_heartbeat c), default_trigger_prompt)"
    "create_backend (su_mlib u) (su_client_error u) (su_matrix u) (su_nlib u) (nostr_open_error (session_dir (config.c_pi c)) (su_nostr_open u))
       (su_event_ok u) (su_nostr u) (su_quoted u) c = Inr b"
proof -
  obtain d d' x where d: "open_db (su_open u) (su_legacy u) (su_migration u) (su_db u) = Inr d"
      "new_inbox_store d = (x, d')" "wire_services u c d' = Inr (b, w)"
    using assms by (auto simp: launch_def split: option.splits sum.splits prod.splits)
  note f = wire_services_facts [OF d(3)]
  show "set (inbox (wdb w)) \<subseteq> set (inbox (su_db u))"
    using f(1) open_db_inbox [OF d(1)] new_store_inbox [OF d(2)] by simp
  show "outlet w = ([], hc_prompt (c_heartbeat c), default_trigger_prompt)" by (rule f(2))
  show "create_backend (su_mlib u) (su_client_error u) (su_matrix u) (su_nlib u) (nostr_open_error (session_dir (config.c_pi c)) (su_nostr_open u))
      (su_event_ok u) (su_nostr u) (su_quoted u) c = Inr b" by (rule f(3))
qed

section \<open>Properties\<close>


definition local_config :: config where
  "local_config = \<lparr>c_backend = ''socket'',
     c_matrix = \<lparr>mc_homeserver = [], mc_user_id = [], mc_access_token = [], mc_password = [], mc_device_id = [],
       mc_allowed = [], mc_pickle_key = [], mc_crypto_db = []\<rparr>,
     c_nostr = empty_nostr_settings,
     c_signal = \<lparr>sc_account = [], sc_binary = [], sc_config_dir = [], sc_socket = [], sc_allowed = []\<rparr>,
     c_socket = \<lparr>kc_socket = ''s'', kc_name = ''OpenCrow''\<rparr>,
     c_pi = sample_config, c_heartbeat = \<lparr>hc_interval = 0, hc_prompt = ''check''\<rparr>\<rparr>"

definition local_start :: surroundings where
  "local_start = \<lparr>su_mlib = sample_mlib, su_client_error = None, su_matrix = sample_room, su_nlib = sample_nlib,
     su_nostr_open = [], su_event_ok = (\<lambda>_. True), su_nostr = sample_nostr, su_quoted = id,
     su_lib = sample_lib, su_time = 0, su_world = sample_world, su_mkdir = None, su_db = empty_db,
     su_open = [], su_legacy = NoLegacyFile, su_migration = []\<rparr>"

definition local_acts :: "act list" where
  "local_acts = [PSync, AMessage (local_message ''hello'' ''local-1'' []), PWake, PSync, PSync, AShutdown, PDone, PEof, PSync, PCtx]"

definition local_life :: transport_life where
  "local_life = SocketLife fresh_socket
     [Accept 3, Command 3 (Some (JObj [(''cmd'', JStr ''send''), (''text'', JStr ''hello'')]))]"

lemma local_run:
  "case launch local_start (Inr local_config) of
     Inl e \<Rightarrow> False
   | Inr (b, w) \<Rightarrow> writes (io_world (run_worker local_acts w)) = [(0, prompt_command ''hello'')]"
  by code_simp

lemma local_handed:
  "case launch local_start (Inr local_config) of
     Inl e \<Rightarrow> False
   | Inr (b, w) \<Rightarrow> handed_over b local_life = [local_message ''hello'' ''local-1'' []]"
  by code_simp


end
