(* ===== verification/No_Loss.thy ===== *)
theory No_Loss
  imports Provenance "HOL-Library.Sublist"
begin

text \<open>
  What becomes of a user's message: whatever the run, the text of a user item is pending, was written to an agent
  as part of a prompt, or the user was told of an error, as long as the statements of the inbox do not fail
  and the worker knows a room to answer in. The turn of an item keeps what holds already because it is an
  interpretation of the locale \<open>turn_invariant\<close>.
\<close>

section \<open>Steady steps\<close>

definition faultless :: "world \<Rightarrow> bool" where
  "faultless w \<longleftrightarrow> faults (wdb w) = []"

definition steady :: "world \<Rightarrow> world \<Rightarrow> bool" where
  "steady w w' \<longleftrightarrow> (faultless w \<longrightarrow> faultless w') \<and> (\<exists>es. out w' = out w @ es) \<and>
     (room_known w \<longrightarrow> room_known w')"

lemma steady_refl [simp]: "steady w w"
  by (simp add: steady_def)

lemma steady_trans [trans]: "steady w w1 \<Longrightarrow> steady w1 w2 \<Longrightarrow> steady w w2"
  by (auto simp: steady_def)

lemma steady_quiet: "still w w' \<Longrightarrow> steady w w'"
  by (auto simp: still_def steady_def faultless_def)

lemma steady_fields:
  "wdb w' = wdb w \<Longrightarrow> out w' = out w \<Longrightarrow> room_id w' = room_id w \<Longrightarrow> room_file w' = room_file w \<Longrightarrow> steady w w'"
  by (simp add: steady_def faultless_def room_known_iff)

lemma steady_db: "(\<And>d. faults d = [] \<Longrightarrow> faults (snd (f d)) = []) \<Longrightarrow> steady w (snd (with_db f w))"
  by (simp add: steady_def faultless_def with_db_def room_known_iff split: prod.splits) (metis snd_conv)

lemma steady_enqueue: "with_db (enqueue p src c rto) w = (r, w') \<Longrightarrow> steady w w'"
  using steady_db [of "enqueue p src c rto" w] by (simp add: inbox_sql_defs)

lemma steady_notify: "steady w (notify p w)"
  by (rule steady_fields) (simp_all add: notify_def Let_def)

lemma steady_outbox: "steady w (put_outbox c m t w)"
  using outbox_put_faultless [of "wdb w" m c t]
  by (cases "m = []") (auto simp: steady_def faultless_def put_outbox_def room_known_iff outbox_put_def)

lemma steady_say: "steady w (say c t w)"
  by (rule steady_quiet [OF quiet_say])

lemma steady_build_prompt: "steady w (snd (build_prompt_text m w))"
proof -
  have "steady w (snd (get_outbox c i w))" for c i
    unfolding get_outbox_def
    by (rule steady_db) (simp add: outbox_get_def q_get_outbox_def sql_def Let_def split: option.splits)
  then show ?thesis
    by (cases "get_outbox (conversation_id m) (reply_to_id m) w") (simp add: build_prompt_text_def, metis snd_conv)
qed

lemma steady_prompt:
  assumes "conversation_id m \<noteq> []"
  shows "steady w (handle_prompt m w)"
proof -
  let ?w = "set_room_id (conversation_id m) w"
  obtain p w1 where bp: "build_prompt_text m ?w = (p, w1)" by (cases "build_prompt_text m ?w")
  obtain r w2 where en: "with_db (enqueue priority_user source_user p (reply_to_id m)) w1 = (r, w2)"
    by (cases "with_db (enqueue priority_user source_user p (reply_to_id m)) w1")
  have "steady w ?w" using assms by (simp add: steady_def faultless_def set_room_id_def room_known_iff)
  also have "steady ?w w1" using steady_build_prompt [of ?w m] bp by simp
  also have "steady w1 w2" by (rule steady_enqueue [OF en])
  finally have "steady w w2" .
  moreover have "handle_prompt m w = (case r of Inl e \<Rightarrow> say (conversation_id m) (''Error: '' @ e) w2
      | Inr _ \<Rightarrow> notify priority_user w2)" by (simp add: handle_prompt_def bp en Let_def)
  ultimately show ?thesis by (cases r) (simp_all add: steady_trans [OF _ steady_say] steady_trans [OF _ steady_notify])
qed

lemma steady_compact_request: "compact_request w = (r, w') \<Longrightarrow> steady w w'"
proof (cases "\<not> is_active w \<or> compact_chan w \<noteq> None")
  case False
  assume c: "compact_request w = (r, w')"
  let ?w = "w\<lparr>next_chan := Suc (next_chan w), compact_chan := Some (next_chan w)\<rparr>"
  obtain x w2 where en: "with_db (enqueue priority_user source_compact [] []) ?w = (x, w2)"
    by (cases "with_db (enqueue priority_user source_compact [] []) ?w")
  have "steady w ?w" by (rule steady_fields) simp_all
  also have "steady ?w w2" by (rule steady_enqueue [OF en])
  finally have "steady w w2" .
  moreover have "steady w2 w'"
    using c False en steady_notify by (cases x) (auto simp: compact_request_def Let_def intro: steady_fields)
  ultimately show ?thesis by (rule steady_trans)
qed (auto simp: compact_request_def split: if_splits)

lemma steady_compact_reply: "steady w (compact_reply c res w)"
  by (simp add: compact_reply_def steady_say split: sum.splits option.splits)

lemma steady_handle_compact: "steady w (handle_compact m w)"
proof -
  obtain r w1 where c: "compact_request w = (r, w1)" by (cases "compact_request w")
  note 1 = steady_compact_request [OF c]
  have "steady w1 (w1\<lparr>waiters := x\<rparr>)" for x by (rule steady_fields) simp_all
  with 1 c show ?thesis
    by (auto simp: handle_compact_def steady_say split: sum.splits intro: steady_trans steady_compact_reply)
qed

lemma steady_message:
  assumes "conversation_id m \<noteq> []"
  shows "steady w (handle_message m w)"
proof -
  let ?w = "put_outbox (conversation_id m) (message_id m) (msg_text m) w"
  have "steady v (restart v)" for v
    unfolding restart_def
    by (rule steady_trans [OF steady_fields steady_quiet [OF quiet_stop]]) simp_all
  then have "steady ?w (handle_restart m ?w)"
    unfolding handle_restart_def
    using steady_trans [OF steady_trans [OF steady_quiet [OF quiet_emit]] steady_say, of "ResetConv (conversation_id m)"]
    by simp
  moreover have "steady v (snd (abort v))" for v
    by (rule steady_fields) (simp_all add: abort_def)
  then have "steady ?w (handle_stop m ?w)"
    by (auto simp: handle_stop_def steady_say abort_def intro!: steady_trans [OF _ steady_say] steady_fields)
  ultimately have "steady ?w (handle_message m w)"
    using steady_prompt [OF assms] steady_handle_compact
    by (simp add: handle_message_def Let_def handle_help_def handle_skills_def steady_say)
  with steady_outbox show ?thesis by (rule steady_trans)
qed

lemma steady_fire: "steady w (fire_reminders rs w)"
proof (induction rs w rule: fire_reminders.induct)
  case (2 r rs w)
  obtain x w' where e: "with_db (enqueue priority_trigger source_trigger (reminder_content r) []) w = (x, w')"
    by (cases "with_db (enqueue priority_trigger source_trigger (reminder_content r) []) w")
  note 1 = steady_enqueue [OF e]
  have 2: "steady w' (snd (with_db (q_insert_reminder t p) w'))" for t p
    by (rule steady_db) (simp add: q_insert_reminder_def sql_def)
  show ?case
  proof (cases x)
    case (Inl err)
    with "2.IH"(1) [OF e [symmetric] Inl] e show ?thesis using steady_trans [OF steady_trans [OF 1 2]] by simp
  next
    case (Inr u)
    with "2.IH"(2) [OF e [symmetric] Inr] e show ?thesis using steady_trans [OF steady_trans [OF 1 steady_notify]] by simp
  qed
qed simp

text \<open>Every message comes from a conversation.\<close>

definition from_conversation :: "act \<Rightarrow> bool" where
  "from_conversation a \<longleftrightarrow> (case a of AMessage m \<Rightarrow> conversation_id m \<noteq> [] | _ \<Rightarrow> True)"

lemma steady_env: "from_conversation a \<Longrightarrow> steady w (env a w)"
proof (cases a)
  case (AMessage m)
  then show "from_conversation a \<Longrightarrow> ?thesis" by (simp add: from_conversation_def env.simps steady_message)
next
  case (AResume ch)
  have "steady w (compact_reply c res (w\<lparr>waiters := x\<rparr>))" for c res x
    by (rule steady_trans [OF steady_fields steady_compact_reply]) simp_all
  with AResume show ?thesis by (simp add: env.simps compact_resume_def split: option.splits)
next
  case (ATrigger l)
  then show ?thesis
    by (auto simp: env.simps trigger_line_def Let_def split: prod.splits sum.splits
        dest: steady_enqueue intro: steady_trans [OF _ steady_notify])
next
  case AHeartbeat
  have "steady w (snd (with_db enqueue_heartbeat w))"
    by (rule steady_db) (simp add: enqueue_heartbeat_def inbox_sql_defs split: prod.splits)
  with AHeartbeat show ?thesis
    by (auto simp: env.simps heartbeat_tick_def split: prod.splits sum.splits intro: steady_trans [OF _ steady_notify])
next
  case AReminders
  let ?q = "with_db (q_due_reminders (datetime (wlib w)) (rfc3339 (now_ns w div 1000000000))) w"
  obtain x w' where q: "?q = (x, w')" by (cases ?q)
  have "steady w (snd ?q)" by (rule steady_db) (simp add: q_due_reminders_def sql_def)
  with q have 1: "steady w w'" by simp
  with AReminders q show ?thesis
    by (cases x) (simp_all add: env.simps dispatch_due_reminders_def steady_trans [OF 1 steady_fire])
next
  case AReapLook
  then show ?thesis by (simp add: env.simps reap_look_def steady_fields)
next
  case AReapStop
  have "steady w (w\<lparr>reap_due := False\<rparr>)" by (rule steady_fields) simp_all
  with AReapStop show ?thesis by (simp add: env.simps reap_stop_def steady_trans [OF _ steady_quiet [OF quiet_stop]])
qed (auto simp: env.simps intro: steady_fields)

section \<open>The turn of an item\<close>

text \<open>
  A text is pending, has been written to an agent, or the user has been told of an error; \<open>later n\<close> are the
  effects after the first \<open>n\<close>.
\<close>

definition later :: "nat \<Rightarrow> world \<Rightarrow> effect set" where
  "later n w = set (drop n (out w))"

definition pending :: "string \<Rightarrow> world \<Rightarrow> bool" where
  "pending txt w \<longleftrightarrow> (\<exists>r \<in> set (inbox (wdb w)). source r = source_user \<and> sublist txt (content r))"

definition prompted :: "nat \<Rightarrow> string \<Rightarrow> world \<Rightarrow> bool" where
  "prompted n txt w \<longleftrightarrow> (\<exists>p s. Stdin p (prompt_command s) \<in> later n w \<and> sublist txt s)"

definition error_reported :: "nat \<Rightarrow> world \<Rightarrow> bool" where
  "error_reported n w \<longleftrightarrow> (\<exists>conv e. SendMsg conv (''Error: '' @ e) [] \<in> later n w)"

definition accounted :: "nat \<Rightarrow> string \<Rightarrow> world \<Rightarrow> bool" where
  "accounted n txt w \<longleftrightarrow> pending txt w \<or> prompted n txt w \<or> error_reported n w"

lemma later_grows: "(\<exists>es. out w' = out w @ es) \<Longrightarrow> later n w \<subseteq> later n w'"
  by (auto simp: later_def)

lemma later_new: "out w' = out w @ es \<Longrightarrow> n \<le> length (out w) \<Longrightarrow> e \<in> set es \<Longrightarrow> e \<in> later n w'"
  by (simp add: later_def)

lemma accounted_steady:
  "accounted n txt w \<Longrightarrow> set (inbox (wdb w)) \<subseteq> set (inbox (wdb w')) \<Longrightarrow> \<exists>es. out w' = out w @ es \<Longrightarrow> accounted n txt w'"
  using later_grows [of w' w n] by (auto simp: accounted_def pending_def prompted_def error_reported_def)

lemma accounted_quiet: "accounted n txt w \<Longrightarrow> still w w' \<Longrightarrow> accounted n txt w'"
  by (rule accounted_steady) (auto simp: still_def)

lemma accounted_part: "accounted n s w \<Longrightarrow> sublist txt s \<Longrightarrow> accounted n txt w"
  by (auto simp: accounted_def pending_def prompted_def intro: sublist_order.order.trans)

text \<open>A message that is no command and is still to be handed over.\<close>

definition prompts_agent :: "message \<Rightarrow> bool" where
  "prompts_agent m \<longleftrightarrow> trim_space (msg_text m) \<notin> {''!help'', ''!restart'', ''!stop'', ''!compact'', ''!skills''}"

definition coming :: "string \<Rightarrow> act list \<Rightarrow> bool" where
  "coming txt as \<longleftrightarrow> (\<exists>m. AMessage m \<in> set as \<and> prompts_agent m \<and> msg_text m = txt)"

text \<open>What the turn of an item needs and keeps, with the effects \<open>E\<close> that are there.\<close>

definition holding :: "nat \<Rightarrow> effect set \<Rightarrow> run_property" where
  "holding n E as w \<longleftrightarrow> list_all from_conversation as \<and> faultless w \<and> room_known w \<and> n \<le> length (out w) \<and> E \<subseteq> later n w"

lemma holding_steady: "holding n E as w \<Longrightarrow> steady w w' \<Longrightarrow> holding n E as w'"
  using later_grows [of w' w n] by (auto simp: holding_def steady_def)

lemma estep_rows: "estep c c' \<Longrightarrow> set (c_rows c) \<subseteq> set (c_rows c')"
  by (induction rule: estep.induct) auto

lemma env_rows: "set (inbox (wdb w)) \<subseteq> set (inbox (wdb (env a w)))"
proof -
  have "set (c_rows c) \<subseteq> set (c_rows c')" if "esteps c c'" for c c'
    using that by (induction rule: rtranclp_induct) (auto dest: estep_rows)
  from this [OF env_esteps [of w a]] show ?thesis by (simp add: core_of_def)
qed

lemma requeue_steady: "steady w (snd (with_db (requeue item) w))"
  by (rule steady_db) (simp add: inbox_sql_defs)

lemma requeue_rows:
  "faultless w \<Longrightarrow> source item \<noteq> source_heartbeat \<Longrightarrow> \<exists>r. inbox (wdb (snd (with_db (requeue item) w))) = inbox (wdb w) @ [r] \<and>
     source r = source item \<and> content r = content item"
  by (simp add: with_db_def inbox_sql_defs faultless_def)

lemma requeue_grows: "faultless w \<Longrightarrow> set (inbox (wdb w)) \<subseteq> set (inbox (wdb (snd (with_db (requeue item) w))))"
proof (cases "source item = source_heartbeat")
  case False
  assume "faultless w"
  with False requeue_rows [of w item] show ?thesis by auto
qed (simp add: with_db_def requeue_def)

lemma command_steady: "steady w (snd (send_command p j w))"
  by (auto simp: steady_def faultless_def room_known_iff send_command_def emit_def split: prod.splits option.splits)

interpretation holding_turn: turn_invariant "holding n E" "\<lambda>_. True" "\<lambda>_. True" for n E
proof
  show "holding n E as (env a w)" if "holding n E (a # as) w" for a as w
  proof -
    have "holding n E as w" "from_conversation a" using that by (simp_all add: holding_def)
    then show ?thesis using steady_env holding_steady by blast
  qed
qed (simp_all add: holding_steady steady_quiet command_steady steady_outbox requeue_steady)

lemma keeps_prompted: "keeps (holding n {Stdin p (prompt_command s)}) m \<Longrightarrow> prompted n s (io_world m)"
  by (cases m) (auto simp: holding_def prompted_def)

text \<open>The prompt has been written at every point where the turn blocks, and when it ends without an error.\<close>

fun settles :: "nat \<Rightarrow> ('a \<Rightarrow> bool) \<Rightarrow> string \<Rightarrow> 'a io \<Rightarrow> bool" where
  "settles n Q s (Blocked w) \<longleftrightarrow> prompted n s w"
| "settles n Q s (Done r as w) \<longleftrightarrow> prompted n s w \<or> Q r"

lemma settles_prompted: "prompted n s (io_world m) \<Longrightarrow> settles n Q s m"
  by (cases m) simp_all

lemma send_and_wait_settles:
  assumes "holding n E as w"
  shows "settles n (\<lambda>res. \<exists>e. res = Inl e) s (send_and_wait p s od as w)"
proof -
  obtain e w1 where run: "send_prompt_command p s w = (e, w1)" by (cases "send_prompt_command p s w")
  show ?thesis
  proof (cases e)
    case None
    with run have "out w1 = out w @ [Stdin p (prompt_command s)]"
      by (auto simp: send_prompt_command_def send_command_def emit_def split: prod.splits option.splits if_splits)
    then have "Stdin p (prompt_command s) \<in> later n w1"
      by (rule later_new) (use assms in \<open>simp_all add: holding_def\<close>)
    moreover have "holding n E as w1"
      using holding_turn.write_law [OF assms, of "prompt_command s" p] run by (simp add: send_prompt_command_def)
    ultimately have "holding n {Stdin p (prompt_command s)} as w1" by (simp add: holding_def)
    from keeps_prompted [OF holding_turn.wait_keeps [OF this]] run None show ?thesis
      by (auto simp: send_and_wait_def intro: settles_prompted)
  qed (use run in \<open>auto simp: send_and_wait_def split: if_splits\<close>)
qed

lemma send_with_retry_settles:
  assumes "holding n E as w"
  shows "settles n (\<lambda>(p, res). \<exists>e. res = Inl e) s (send_with_retry s od as w)"
proof -
  have turn: "settles n (\<lambda>(p, res). \<exists>e. res = Inl e) s (case ensure_pi v of
        (Inl e, w) \<Rightarrow> Done (None, Inl e) bs w
      | (Inr p, w) \<Rightarrow> and_io (send_and_wait p s od bs w) (f p))"
    if "holding n E bs v"
      "\<And>p r as w. holding n E as w \<Longrightarrow> prompted n s w \<or> (\<exists>e. r = Inl e) \<Longrightarrow> settles n (\<lambda>(p, res). \<exists>e. res = Inl e) s (f p r as w)"
    for v bs and f :: "nat \<Rightarrow> pi_error + string \<Rightarrow> act list \<Rightarrow> world \<Rightarrow> (nat option \<times> (pi_error + string)) io"
  proof (cases "ensure_pi v")
    case (Pair r v1)
    have v1: "holding n E bs v1" by (rule holding_turn.ensure_keeps [OF that(1) Pair])
    show ?thesis
    proof (cases r)
      case (Inr p)
      note k = holding_turn.send_and_wait_keeps [where p = p and s = s and od = od, OF v1 TrueI]
        send_and_wait_settles [OF v1, of s p od]
      show ?thesis
      proof (cases "send_and_wait p s od bs v1")
        case (Blocked w1)
        with k Pair Inr show ?thesis by simp
      next
        case (Done x as1 w1)
        with k that(2) [of as1 w1 x p] Pair Inr show ?thesis by simp
      qed
    qed (use Pair in simp)
  qed
  show ?thesis
    unfolding send_with_retry_def
    by (rule turn [OF assms]) (auto intro!: turn holding_turn.same_law [OF _ quiet_stop] split: sum.splits)
qed

text \<open>A user item whose turn ends, or blocks, is accounted for.\<close>

lemma pi_error_accounts:
  assumes "holding n E as w" "source item = source_user"
  shows "accounted n (content item) (snd (handle_pi_error item conv e kill w))"
proof (cases "was_preempted e w")
  case True
  with requeue_rows [of w item] assms show ?thesis
    by (auto simp: handle_pi_error_def requeue_preempted_def accounted_def pending_def holding_def)
next
  case False
  let ?w = "if kill then stop_pi w else w"
  have w: "holding n E as ?w" using assms(1) holding_turn.same_law [OF assms(1) quiet_stop] by simp
  have "out (snd (handle_pi_error item conv e kill w)) = out ?w @ [SendMsg conv (''Error: '' @ pi_error_text (wlib ?w) e) []]"
    using False assms(2) by (simp add: handle_pi_error_def Let_def say_def send_message_def emit_def split: list.splits)
  then have "SendMsg conv (''Error: '' @ pi_error_text (wlib ?w) e) [] \<in> later n (snd (handle_pi_error item conv e kill w))"
    by (rule later_new) (use w in \<open>simp_all add: holding_def\<close>)
  then show ?thesis by (auto simp: accounted_def error_reported_def)
qed

lemma prompt_turn_accounts:
  assumes "holding n E as w" "source item = source_user"
  shows "accounted n (content item) (io_world (prompt_turn item conv (content item) as w))"
proof (cases "send_with_retry (content item) (stream_of conv w) as w")
  case (Blocked w1)
  with send_with_retry_settles [OF assms(1), of "content item" "stream_of conv w"] show ?thesis
    by (simp add: prompt_turn_def Let_def accounted_def)
next
  case (Done r as1 w1)
  obtain p res where r: "r = (p, res)" by (cases r)
  note k = holding_turn.send_with_retry_keeps [where s = "content item" and od = "stream_of conv w", OF assms(1) TrueI]
    send_with_retry_settles [OF assms(1), of "content item" "stream_of conv w"]
  have 1: "holding n E as1 w1" using k(1) Done by simp
  show ?thesis
  proof (cases "prompted n (content item) w1")
    case True
    then obtain q s where e: "Stdin q (prompt_command s) \<in> later n w1" "sublist (content item) s"
      by (auto simp: prompted_def)
    with 1 have "holding n {Stdin q (prompt_command s)} as1 w1" by (simp add: holding_def)
    from keeps_prompted [OF holding_turn.turn_end_keeps [where item = item and res = res and p = p and conv = conv
          and start = "now_ns w", OF this TrueI]] Done r e(2)
    have "prompted n (content item) (io_world (prompt_turn item conv (content item) as w))"
      by (auto simp: prompt_turn_def Let_def prompted_def intro: sublist_order.order.trans)
    then show ?thesis by (simp add: accounted_def)
  next
    case False
    with k(2) Done r obtain e where "res = Inl e" by auto
    with Done r pi_error_accounts [OF 1 assms(2), of conv e "p \<noteq> None"] show ?thesis
      by (cases "handle_pi_error item conv e (p \<noteq> None) w1") (simp add: prompt_turn_def Let_def)
  qed
qed

lemma process_item_accounts:
  assumes "holding n E as w" "source item = source_user"
  shows "accounted n (content item) (io_world (process_item item as w))"
proof -
  obtain conv w1 where rr: "resolve_room_id (begin_item item w) = (conv, w1)"
    by (cases "resolve_room_id (begin_item item w)")
  have 0: "holding n E as (begin_item item w)" using assms(1) quiet_item(2) by (rule holding_turn.same_law)
  then have 1: "holding n E as w1" using rr by (rule holding_turn.resolve_keeps)
  have "conv \<noteq> []" using 0 resolve_known [OF rr] by (simp add: holding_def)
  moreover have "build_prompt item (begin_item item w) = Some (content item)" by (simp add: build_prompt_def assms(2))
  moreover have "source item \<noteq> source_compact" using assms(2) by (simp add: source_defs)
  ultimately have p: "process_item item as w =
      and_io (and_io (prompt_turn item conv (content item) as (set_typing conv True w1))
        (\<lambda>stop as w. Done stop as (set_typing conv False w))) (\<lambda>stop as w. Done stop as (end_item w))"
    by (simp add: process_item_def process_prompt_def rr)
  have "holding n E as (set_typing conv True w1)" using 1 quiet_item(1) by (rule holding_turn.same_law)
  from prompt_turn_accounts [OF this assms(2), of conv] show ?thesis
    unfolding p by (cases "prompt_turn item conv (content item) as (set_typing conv True w1)")
      (auto intro: accounted_quiet [OF accounted_quiet [OF _ quiet_item(1)] quiet_item(3)])
qed

section \<open>Messages on their way\<close>

text \<open>A message that is handed over becomes pending.\<close>

lemma message_pending:
  assumes "faultless w" "conversation_id m \<noteq> []" "prompts_agent m"
  shows "pending (msg_text m) (handle_message m w)"
proof -
  let ?w = "set_room_id (conversation_id m) (put_outbox (conversation_id m) (message_id m) (msg_text m) w)"
  obtain p w1 where bp: "build_prompt_text m ?w = (p, w1)" by (cases "build_prompt_text m ?w")
  obtain r w2 where en: "with_db (enqueue priority_user source_user p (reply_to_id m)) w1 = (r, w2)"
    by (cases "with_db (enqueue priority_user source_user p (reply_to_id m)) w1")
  have "faultless ?w" using assms(1) steady_outbox [of w] by (simp add: steady_def faultless_def set_room_id_def)
  then have "faultless w1" using steady_build_prompt [of ?w m] bp by (simp add: steady_def)
  then have r: "r = Inr ()" "\<exists>x. inbox (wdb w2) = inbox (wdb w1) @ [x] \<and> source x = source_user \<and> content x = p"
    using en by (auto simp: with_db_def inbox_sql_defs faultless_def)
  have "handle_message m w = notify priority_user w2"
    using assms(3) bp en r(1) by (simp add: handle_message_def handle_prompt_def prompts_agent_def Let_def)
  moreover have "inbox (wdb (notify priority_user w2)) = inbox (wdb w2)" by (simp add: notify_def Let_def)
  moreover have "prompt_of m p" using bp by (metis fst_conv prompt_of_def)
  then obtain u where "p = u @ msg_text m" using prompt_of_suffix by blast
  then have "sublist (msg_text m) p" by (metis append_Nil2 sublist_def)
  ultimately show ?thesis using r(2) by (auto simp: pending_def)
qed

definition account_with :: "nat \<Rightarrow> string \<Rightarrow> run_property" where
  "account_with n txt as w \<longleftrightarrow> holding n {} as w \<and> (accounted n txt w \<or> coming txt as)"

lemma account_steady:
  "account_with n txt as w \<Longrightarrow> steady w w' \<Longrightarrow> set (inbox (wdb w)) \<subseteq> set (inbox (wdb w')) \<Longrightarrow> account_with n txt as w'"
  using accounted_steady [of n "txt" w w'] holding_steady [of n "{}" as w w'] by (auto simp: account_with_def steady_def)

lemma account_env: "account_with n txt (a # as) w \<Longrightarrow> account_with n txt as (env a w)"
proof -
  assume a: "account_with n txt (a # as) w"
  then have h: "holding n {} as w" "from_conversation a" by (simp_all add: account_with_def holding_def)
  then have s: "steady w (env a w)" by (simp add: steady_env)
  then have "accounted n txt (env a w) \<or> coming txt as"
  proof (cases "accounted n txt w \<or> coming txt as")
    case True
    with accounted_steady [OF _ env_rows, of n "txt" w a] s show ?thesis by (auto simp: steady_def)
  next
    case False
    with a obtain m where m: "a = AMessage m" "prompts_agent m" "msg_text m = txt"
      by (auto simp: account_with_def coming_def)
    with h have "pending txt (env a w)"
      using message_pending [of w m] by (simp add: holding_def from_conversation_def env.simps)
    then show ?thesis by (simp add: accounted_def)
  qed
  with holding_steady [OF h(1) s] show ?thesis by (simp add: account_with_def)
qed

interpretation account_turn: turn_invariant "account_with n s" "\<lambda>_. True" "\<lambda>_. True" for n s
proof
  fix as w
  assume a: "account_with n s as w"
  show "account_with n s as w'" if "still w w'" for w'
    using a steady_quiet [OF that] by (rule account_steady) (use that in \<open>simp add: still_def\<close>)
  show "account_with n s as (snd (send_command p j w))" for p j
    using a command_steady by (rule account_steady) (simp add: core_inbox [OF core_of_send_command])
  show "account_with n s as (put_outbox c m t w)" for c m t
    using a steady_outbox by (rule account_steady) (simp add: core_inbox [OF core_of_put_outbox])
  have "faultless w" using a by (simp add: account_with_def holding_def)
  then show "account_with n s as (snd (with_db (requeue item) w))" for item
    by (intro account_steady [OF a requeue_steady] requeue_grows)
qed (simp_all add: account_env)

section \<open>The runs\<close>

text \<open>The rows that a dequeue and a batch leave; the row ids are distinct.\<close>

lemma dequeue_accounts:
  assumes "box_ok (core_of w)" "accounted n txt w" "with_db dequeue w = (r, w')"
  shows "accounted n txt w' \<or> (\<exists>item. r = Inr item \<and> source item = source_user \<and> sublist txt (content item))"
proof -
  obtain d where d: "dequeue (wdb w) = (r, d)" "w' = w\<lparr>wdb := d\<rparr>"
    using assms(3) by (auto simp: with_db_def split: prod.splits)
  have inj: "x = y" if "x \<in> set (inbox (wdb w))" "y \<in> set (inbox (wdb w))" "row_id x = row_id y" for x y
    using assms(1) that strict_sorted_iff [of "map row_id (inbox (wdb w))"]
    by (auto simp: box_ok_def core_of_def rows_ok_def distinct_map inj_on_def)
  show ?thesis
  proof (cases "wdb w" rule: dequeue_cases)
    case (row x fs)
    have x: "x \<in> set (inbox (wdb w))" using inbox_min_in row(1) by metis
    show ?thesis
    proof (cases "pending txt w")
      case True
      then obtain y where y: "y \<in> set (inbox (wdb w))" "source y = source_user" "sublist txt (content y)"
        by (auto simp: pending_def)
      show ?thesis
      proof (cases "row_id y = row_id x")
        case True
        with inj [OF y(1) x] y(2,3) d row(2) show ?thesis by auto
      next
        case False
        with y d row(2) have "pending txt w'" by (auto simp: pending_def delete_row_def)
        then show ?thesis by (simp add: accounted_def)
      qed
    next
      case False
      with assms(2) d(2) show ?thesis by (simp add: accounted_def prompted_def error_reported_def later_def)
    qed
  qed (use d assms(2) in \<open>auto simp: accounted_def pending_def prompted_def error_reported_def later_def\<close>)
qed

lemma merge_accounts:
  assumes "faultless w" "merge_user_items item w = (item', w')" "source item = source_user"
    "accounted n txt w \<or> sublist txt (content item)"
  shows "source item' = source_user" "accounted n txt w' \<or> sublist txt (content item')"
proof -
  obtain rs d where b: "dequeue_user_batch (wdb w) = (rs, d)" by (cases "dequeue_user_batch (wdb w)")
  let ?users = "filter (\<lambda>r. source r = ''user'') (inbox (wdb w))"
  have d: "d = wdb w\<lparr>inbox := filter (\<lambda>r. source r \<noteq> ''user'') (inbox (wdb w))\<rparr>" "rs = Inr (sort_key row_id ?users)"
    using assms(1) b by (auto simp: inbox_sql_defs faultless_def)
  let ?m = "item\<lparr>content := content item @ concat (map (\<lambda>e. [CHR 0x0A] @ content e) (sort_key row_id ?users)),
     reply_to := reply_to (last (sort_key row_id ?users))\<rparr>"
  have w': "w' = w\<lparr>wdb := d\<rparr>" "item' = (if ?users = [] then item else ?m)"
    using assms(2) b d(2) by (auto simp: merge_user_items_def with_db_def split: if_splits)
  show "source item' = source_user" using w' assms(3) by simp
  have part: "sublist (content e) (content ?m)" if "e \<in> set ?users" for e
  proof -
    have "e \<in> set (sort_key row_id ?users)" using that by simp
    then obtain xs ys where "sort_key row_id ?users = xs @ e # ys" by (meson split_list)
    then have "content ?m = (content item @ concat (map (\<lambda>e. [CHR 0x0A] @ content e) xs) @ [CHR 0x0A]) @ content e @
        concat (map (\<lambda>e. [CHR 0x0A] @ content e) ys)" by simp
    then show ?thesis unfolding sublist_def by blast
  qed
  have "content ?m = [] @ content item @ concat (map (\<lambda>e. [CHR 0x0A] @ content e) (sort_key row_id ?users))" by simp
  then have head: "sublist (content item) (content ?m)" unfolding sublist_def by blast
  show "accounted n txt w' \<or> sublist txt (content item')"
  proof (cases "?users = []")
    case True
    with w' d assms(4) show ?thesis by (auto simp: accounted_def pending_def prompted_def error_reported_def later_def filter_empty_conv)
  next
    case False
    with w' d assms(4) part head show ?thesis
      by (auto simp: accounted_def pending_def prompted_def error_reported_def later_def source_defs intro: sublist_order.order.trans)
  qed
qed

lemma dequeue_holding: "holding n E as w \<Longrightarrow> with_db dequeue w = (r, w') \<Longrightarrow> holding n E as w'"
proof -
  assume h: "holding n E as w" "with_db dequeue w = (r, w')"
  then obtain d where d: "dequeue (wdb w) = (r, d)" "w' = w\<lparr>wdb := d\<rparr>"
    by (auto simp: with_db_def split: prod.splits)
  have "faults d = []"
    using h(1) d(1) by (auto simp: holding_def faultless_def dequeue_def inbox_sql_defs split: option.splits)
  with h(1) d(2) show ?thesis by (simp add: holding_def faultless_def room_known_iff later_def)
qed

lemma merge_holding: "holding n E as w \<Longrightarrow> merge_user_items item w = (item', w') \<Longrightarrow> holding n E as w'"
proof -
  assume h: "holding n E as w" "merge_user_items item w = (item', w')"
  obtain rs d where b: "dequeue_user_batch (wdb w) = (rs, d)" by (cases "dequeue_user_batch (wdb w)")
  have "faults d = []" using h(1) b by (auto simp: inbox_sql_defs holding_def faultless_def)
  moreover have "w' = w\<lparr>wdb := d\<rparr>"
    using h(2) b by (auto simp: merge_user_items_def with_db_def split: sum.splits if_splits)
  ultimately show ?thesis using h(1) by (simp add: holding_def faultless_def room_known_iff later_def)
qed

definition core_ok :: "world \<Rightarrow> bool" where
  "core_ok w \<longleftrightarrow> box_ok (core_of w) \<and> chan_ok (core_of w)"

lemma core_ok_steps: "core_ok w \<Longrightarrow> csteps (core_of w) (core_of w') \<Longrightarrow> core_ok w'"
  using core_ok_csteps(2,3) by (auto simp: core_ok_def)

definition kept_account :: "nat \<Rightarrow> string \<Rightarrow> run_property" where
  "kept_account n txt as w \<longleftrightarrow> account_with n txt as w \<and> core_ok w"

text \<open>While an item is in hand, it may be the one that carries the text.\<close>

definition in_hand :: "nat \<Rightarrow> string \<Rightarrow> inbox_row \<Rightarrow> run_property" where
  "in_hand n txt item as w \<longleftrightarrow> holding n {} as w \<and> core_ok w \<and>
     (account_with n txt as w \<or> source item = source_user \<and> sublist txt (content item))"

lemma take_item_account:
  assumes "kept_account n txt as w" "take_item as w = (r, as', w')"
  shows "case r of None \<Rightarrow> kept_account n txt as' w' | Some item \<Rightarrow> in_hand n txt item as' w'"
proof -
  obtain as1 w1 where p1: "pause as w = (as1, w1)" by (cases "pause as w")
  obtain x w2 where dq: "with_db dequeue w1 = (x, w2)" by (cases "with_db dequeue w1")
  have a: "account_with n txt as w" "core_ok w" using assms(1) by (simp_all add: kept_account_def)
  have a1: "account_with n txt as1 w1" by (rule account_turn.pause_keeps [OF a(1) p1])
  have "csteps (core_of w) (core_of w1)" using esteps_csteps [OF pause_esteps [of w as]] p1 by simp
  then have box1: "box_ok (core_of w1)" using core_ok_steps [OF a(2)] by (simp add: core_ok_def)
  have core: "core_ok w'" by (rule core_ok_steps [OF a(2) take_item_facts(1) [OF assms(2)]])
  have h2: "holding n {} as1 w2" using a1 dequeue_holding [OF _ dq] by (simp add: account_with_def)
  have s2: "account_with n txt as1 w2 \<or> (\<exists>item. x = Inr item \<and> source item = source_user \<and> sublist txt (content item))"
    using a1 h2 dequeue_accounts [OF box1 _ dq] by (auto simp: account_with_def)
  consider "r = None" "as' = as1" "w' = w1 \<or> w' = w2 \<and> (\<exists>e. x = Inl e)"
    | item item2 w3 where "x = Inr item"
      "(if source item = source_user then merge_user_items item w2 else (item, w2)) = (item2, w3)"
      "r = Some item2" "pause as1 w3 = (as', w')"
    using assms(2) p1 dq by (auto simp: take_item_def split: if_splits sum.splits prod.splits)
  then show ?thesis
  proof cases
    case 1
    with a1 s2 core show ?thesis by (auto simp: kept_account_def)
  next
    case (2 item item2 w3)
    have s3: "holding n {} as1 w3 \<and> (account_with n txt as1 w3 \<or> source item2 = source_user \<and> sublist txt (content item2))"
    proof (cases "source item = source_user")
      case True
      then have m: "merge_user_items item w2 = (item2, w3)" using 2(2) by simp
      have h3: "holding n {} as1 w3" by (rule merge_holding [OF h2 m])
      have "faultless w2" using h2 by (simp add: holding_def)
      from merge_accounts [OF this m True, of n "txt"] h3 s2 2(1) show ?thesis by (auto simp: account_with_def)
    qed (use 2(1,2) h2 s2 in auto)
    have "holding n {} as' w'" using s3 by (intro holding_turn.pause_keeps [OF _ 2(4)]) simp
    moreover have "account_with n txt as' w'" if "account_with n txt as1 w3"
      by (rule account_turn.pause_keeps [OF that 2(4)])
    ultimately show ?thesis using s3 core 2(3) by (auto simp: in_hand_def)
  qed
qed

lemma process_item_account:
  assumes "in_hand n txt item as w"
  shows "keeps (kept_account n txt) (process_item item as w)"
proof -
  let ?m = "process_item item as w"
  have h: "holding n {} as w" "core_ok w" using assms by (simp_all add: in_hand_def)
  have "keeps (account_with n txt) ?m"
  proof (cases "account_with n txt as w")
    case True
    then show ?thesis by (rule account_turn.process_item_keeps [OF _ TrueI])
  next
    case False
    with assms have i: "source item = source_user" "sublist txt (content item)" by (simp_all add: in_hand_def)
    have "accounted n txt (io_world ?m)" by (rule accounted_part [OF process_item_accounts [OF h(1) i(1)] i(2)])
    with holding_turn.process_item_keeps [OF h(1) TrueI, of item] show ?thesis
      by (cases ?m) (simp_all add: account_with_def)
  qed
  moreover have "csteps (core_of w) (core_of (io_world ?m))"
    using process_item_tame [of w item as] h(2) by (simp add: tame_def core_ok_def)
  then have "core_ok (io_world ?m)" by (rule core_ok_steps [OF h(2)])
  ultimately show ?thesis by (cases ?m) (simp_all add: kept_account_def)
qed

interpretation account_loop: loop_invariant "kept_account n s" "in_hand n s" for n s
proof
  show "kept_account n s as (env a w)" if "kept_account n s (a # as) w" for a as w
    using that account_env core_ok_steps [OF _ esteps_csteps [OF env_esteps]] by (auto simp: kept_account_def)
  show "kept_account n s as (stop_pi w)" if "kept_account n s as w" for as w
    using that account_turn.same_law [OF _ quiet_stop] core_ok_steps [OF _ esteps_csteps [OF stop_pi_esteps]]
    by (auto simp: kept_account_def)
  show "kept_account n s as (w\<lparr>wake := x\<rparr>)" if "kept_account n s as w" for as w x
    using that account_turn.same_law [OF _ quiet_item(5)] by (auto simp: kept_account_def core_ok_def core_of_def)
qed (auto dest: take_item_account process_item_account)

section \<open>Properties\<close>


definition waiting_row :: inbox_row where
  "waiting_row = \<lparr>row_id = 1, priority = priority_user, source = source_user, content = ''first'', reply_to = []\<rparr>"

definition waiting_world :: world where
  "waiting_world = sample_world\<lparr>wdb := empty_db\<lparr>inbox := [waiting_row], inbox_seq := 1\<rparr>, room_file := Some ''room''\<rparr>"

definition busy_acts :: "act list" where
  "busy_acts = [PSync, PSync, AMessage sample_msg, PEof, AShutdown, PDone]"

lemma busy_run_ends: "case run_worker busy_acts waiting_world of Blocked w \<Rightarrow> True | Done u rest w \<Rightarrow> False"
  by code_simp


text \<open>Without a room the item is taken out of the inbox, nothing is written and nobody is told.\<close>

lemma dropped_without_room:
  assumes "source item = source_user" "\<not> room_known w"
  shows "\<exists>w'. process_item item as w = Done False as w' \<and> wdb w' = wdb w \<and> out w' = out w"
proof -
  obtain conv w1 where rr: "resolve_room_id (begin_item item w) = (conv, w1)"
    by (cases "resolve_room_id (begin_item item w)")
  have "conv = []" using resolve_known [OF rr] assms(2) by (auto simp: room_known_iff begin_item_def)
  then show ?thesis
    using assms(1) rr resolve_world [OF rr]
    by (simp add: process_item_def process_prompt_def build_prompt_def handle_no_room_id_def source_defs
        end_item_def begin_item_def)
qed

end
