(* ===== verification/Process_Tree.thy ===== *)
theory Process_Tree
  imports Prelude
begin

text \<open>
  Ending the agent with everything it started (\<open>Kill\<close> in \<open>pi.go\<close>, \<open>pi_proc_linux.go\<close>,
  \<open>pi_proc_other.go\<close>): the processes of the operating system with their groups, the steps of \<open>Kill\<close>, and what
  the processes do meanwhile. The worker's model (\<open>kill_pi\<close>) takes from here that \<open>Kill\<close> returns and that the
  agent is gone then.
\<close>

section \<open>Processes and signals\<close>

datatype os_signal = SigTerm | SigKill

text \<open>A living process: its number, its group, and whether it ends when it is asked to.\<close>

record os_proc =
  pr_pid :: nat
  pr_group :: nat
  pr_obeys :: bool

record proc_attr =
  set_pgid :: bool
  pdeath_sig :: "os_signal option"

definition configure_pi_attr :: "bool \<Rightarrow> proc_attr" where
  "configure_pi_attr linux = \<lparr>set_pgid = True, pdeath_sig = (if linux then Some SigTerm else None)\<rparr>"

definition ends_on :: "os_signal \<Rightarrow> os_proc \<Rightarrow> bool" where
  "ends_on s p \<longleftrightarrow> s = SigKill \<or> pr_obeys p"

text \<open>\<open>syscall.Kill(-pid, sig)\<close>: the signal reaches the group; that there is none any more is no error.\<close>

definition kill_process_tree :: "nat \<Rightarrow> os_signal \<Rightarrow> os_proc list \<Rightarrow> os_proc list" where
  "kill_process_tree pid s ps = filter (\<lambda>p. \<not> (pr_group p = pid \<and> ends_on s p)) ps"

section \<open>The steps\<close>

text \<open>Where \<open>Kill\<close> is: before it, waiting for \<open>done\<close> or the timer, after the escalation, before the last signal, back.\<close>

datatype kill_pc = NotKilled | AwaitDone | Escalated | LastSignal | KillReturned

record proc_sys =
  ps_attr :: proc_attr
  ps_parent :: bool
  ps_procs :: "os_proc list"
  ps_next :: nat
  ps_stdin_closed :: bool
  ps_done :: bool
  ps_pc :: kill_pc

text \<open>
  What can happen: the steps of \<open>Kill\<close>, the goroutine that waits for the agent, and the processes: they fork into
  their group, leave it for one of their own (\<open>setsid\<close>, refused to the leader of a group), or end. When
  OpenCrow itself dies, the system sends the agent, and only the agent, the signal of \<open>Pdeathsig\<close>.
\<close>

datatype proc_event =
    KillStarts
  | DoneSeen
  | TimerFires
  | FinalKill
  | WaitReturns
  | ParentDies
  | Fork nat bool
  | Leave nat
  | Exit nat

definition leader_alive :: "nat \<Rightarrow> proc_sys \<Rightarrow> bool" where
  "leader_alive l s \<longleftrightarrow> (\<exists>p \<in> set (ps_procs s). pr_pid p = l)"

fun proc_next :: "nat \<Rightarrow> proc_event \<Rightarrow> proc_sys \<Rightarrow> proc_sys option" where
  "proc_next l KillStarts s =
     (if ps_parent s \<and> ps_pc s = NotKilled
      then Some (s\<lparr>ps_stdin_closed := True, ps_procs := kill_process_tree l SigTerm (ps_procs s), ps_pc := AwaitDone\<rparr>)
      else None)"
| "proc_next l DoneSeen s =
     (if ps_parent s \<and> ps_done s \<and> (ps_pc s = AwaitDone \<or> ps_pc s = Escalated) then Some (s\<lparr>ps_pc := LastSignal\<rparr>) else None)"
| "proc_next l TimerFires s =
     (if ps_parent s \<and> ps_pc s = AwaitDone
      then Some (s\<lparr>ps_procs := kill_process_tree l SigKill (ps_procs s), ps_pc := Escalated\<rparr>) else None)"
| "proc_next l FinalKill s =
     (if ps_parent s \<and> ps_pc s = LastSignal
      then Some (s\<lparr>ps_procs := kill_process_tree l SigKill (ps_procs s), ps_pc := KillReturned\<rparr>) else None)"
| "proc_next l WaitReturns s =
     (if ps_parent s \<and> \<not> leader_alive l s \<and> \<not> ps_done s then Some (s\<lparr>ps_done := True\<rparr>) else None)"
| "proc_next l ParentDies s =
     (if ps_parent s
      then Some (s\<lparr>ps_parent := False, ps_procs := (case pdeath_sig (ps_attr s) of
             None \<Rightarrow> ps_procs s
           | Some sig \<Rightarrow> filter (\<lambda>p. \<not> (pr_pid p = l \<and> ends_on sig p)) (ps_procs s))\<rparr>) else None)"
| "proc_next l (Fork i obeys) s =
     (case filter (\<lambda>p. pr_pid p = i) (ps_procs s) of
        [] \<Rightarrow> None
      | p # _ \<Rightarrow> Some (s\<lparr>ps_next := Suc (ps_next s),
          ps_procs := ps_procs s @ [\<lparr>pr_pid = ps_next s, pr_group = pr_group p, pr_obeys = obeys\<rparr>]\<rparr>))"
| "proc_next l (Leave i) s =
     (if \<exists>p \<in> set (ps_procs s). pr_pid p = i \<and> pr_group p \<noteq> i
      then Some (s\<lparr>ps_procs := map (\<lambda>p. if pr_pid p = i then p\<lparr>pr_group := i\<rparr> else p) (ps_procs s)\<rparr>) else None)"
| "proc_next l (Exit i) s =
     (if \<exists>p \<in> set (ps_procs s). pr_pid p = i
      then Some (s\<lparr>ps_procs := filter (\<lambda>p. pr_pid p \<noteq> i) (ps_procs s)\<rparr>) else None)"

fun proc_run :: "nat \<Rightarrow> proc_event list \<Rightarrow> proc_sys \<Rightarrow> proc_sys option" where
  "proc_run l [] s = Some s"
| "proc_run l (e # es) s = (case proc_next l e s of None \<Rightarrow> None | Some s \<Rightarrow> proc_run l es s)"

text \<open>The start: \<open>Setpgid\<close> makes the agent the leader of a group of its own; \<open>g\<close> is the group of OpenCrow.\<close>

definition agent_started :: "nat \<Rightarrow> nat \<Rightarrow> bool \<Rightarrow> bool \<Rightarrow> os_proc list \<Rightarrow> proc_sys" where
  "agent_started g l linux obeys others =
     (let a = configure_pi_attr linux
      in \<lparr>ps_attr = a, ps_parent = True,
          ps_procs = others @ [\<lparr>pr_pid = l, pr_group = (if set_pgid a then l else g), pr_obeys = obeys\<rparr>],
          ps_next = Suc l, ps_stdin_closed = False, ps_done = False, ps_pc = NotKilled\<rparr>)"

inductive tree_state :: "nat \<Rightarrow> proc_sys \<Rightarrow> bool" for l where
  tree_init: "\<forall>p \<in> set others. pr_pid p < l \<Longrightarrow> tree_state l (agent_started g l linux obeys others)"
| tree_step: "tree_state l s \<Longrightarrow> proc_next l e s = Some s' \<Longrightarrow> tree_state l s'"

section \<open>The invariant\<close>

text \<open>
  Numbers are fresh, only the leader has its number, the leader stays in its group, \<open>done\<close> means that it is gone,
  after the escalation it is gone, and after the last signal the group is empty.
\<close>

definition tree_ok :: "nat \<Rightarrow> proc_sys \<Rightarrow> bool" where
  "tree_ok l s \<longleftrightarrow> l < ps_next s \<and> (\<forall>p \<in> set (ps_procs s). pr_pid p < ps_next s \<and> (pr_pid p = l \<longrightarrow> pr_group p = l)) \<and>
     (ps_done s \<longrightarrow> \<not> leader_alive l s) \<and>
     (ps_pc s = Escalated \<longrightarrow> \<not> leader_alive l s) \<and>
     (ps_pc s = LastSignal \<longrightarrow> ps_done s) \<and>
     (ps_pc s = KillReturned \<longrightarrow> ps_done s \<and> (\<forall>p \<in> set (ps_procs s). pr_group p \<noteq> l))"

lemma tree_ok_init: "\<forall>p \<in> set others. pr_pid p < l \<Longrightarrow> tree_ok l (agent_started g l linux obeys others)"
  by (auto simp: tree_ok_def agent_started_def configure_pi_attr_def Let_def)

text \<open>Processes that end change nothing of it.\<close>

lemma tree_ok_fewer: "tree_ok l s \<Longrightarrow> tree_ok l (s\<lparr>ps_procs := filter P (ps_procs s)\<rparr>)"
  by (auto simp: tree_ok_def leader_alive_def)

lemma tree_ok_other:
  "tree_ok l s \<Longrightarrow> tree_ok l (s\<lparr>ps_parent := x\<rparr>)" "tree_ok l s \<Longrightarrow> tree_ok l (s\<lparr>ps_stdin_closed := x\<rparr>)"
  by (simp_all add: tree_ok_def leader_alive_def)

lemma tree_ok_signal: "tree_ok l s \<Longrightarrow> tree_ok l (s\<lparr>ps_procs := kill_process_tree l sig (ps_procs s)\<rparr>)"
  unfolding kill_process_tree_def by (rule tree_ok_fewer)

lemma tree_ok_fork:
  assumes "tree_ok l s" "p \<in> set (ps_procs s)"
  shows "tree_ok l (s\<lparr>ps_next := Suc (ps_next s),
    ps_procs := ps_procs s @ [\<lparr>pr_pid = ps_next s, pr_group = pr_group p, pr_obeys = obeys\<rparr>]\<rparr>)" (is "tree_ok l ?s")
proof -
  have n: "l < ps_next s" using assms(1) by (simp add: tree_ok_def)
  then have a: "leader_alive l ?s \<longleftrightarrow> leader_alive l s" by (auto simp: leader_alive_def)
  have "\<forall>q \<in> set (ps_procs s). pr_pid q < Suc (ps_next s)" using assms(1) by (auto simp: tree_ok_def)
  with n assms show ?thesis unfolding tree_ok_def a by simp
qed

lemma killed_leader: "tree_ok l s \<Longrightarrow> p \<in> set (kill_process_tree l SigKill (ps_procs s)) \<Longrightarrow> pr_pid p \<noteq> l \<and> pr_group p \<noteq> l"
  by (auto simp: tree_ok_def kill_process_tree_def ends_on_def)

lemma tree_ok_pc:
  "tree_ok l s \<Longrightarrow> pc = AwaitDone \<Longrightarrow> tree_ok l (s\<lparr>ps_pc := pc\<rparr>)"
  "tree_ok l s \<Longrightarrow> ps_done s \<Longrightarrow> tree_ok l (s\<lparr>ps_pc := LastSignal\<rparr>)"
  "tree_ok l s \<Longrightarrow> \<not> leader_alive l s \<Longrightarrow> tree_ok l (s\<lparr>ps_pc := Escalated\<rparr>)"
  "tree_ok l s \<Longrightarrow> ps_done s \<Longrightarrow> \<forall>p \<in> set (ps_procs s). pr_group p \<noteq> l \<Longrightarrow> tree_ok l (s\<lparr>ps_pc := KillReturned\<rparr>)"
  by (simp_all add: tree_ok_def leader_alive_def)

lemma tree_ok_next:
  assumes "proc_next l e s = Some s'" "tree_ok l s"
  shows "tree_ok l s'"
proof (cases e)
  case KillStarts
  with assms(1) have "s' = s\<lparr>ps_procs := kill_process_tree l SigTerm (ps_procs s)\<rparr>\<lparr>ps_stdin_closed := True\<rparr>\<lparr>ps_pc := AwaitDone\<rparr>"
    by (auto split: if_splits)
  then show ?thesis using tree_ok_pc(1) [OF tree_ok_other(2) [OF tree_ok_signal [OF assms(2)]]] by simp
next
  case DoneSeen
  with assms show ?thesis by (auto split: if_splits intro: tree_ok_pc)
next
  case TimerFires
  with assms(1) have s': "s' = s\<lparr>ps_procs := kill_process_tree l SigKill (ps_procs s)\<rparr>\<lparr>ps_pc := Escalated\<rparr>"
    by (simp split: if_splits)
  show ?thesis unfolding s' using tree_ok_signal [OF assms(2)]
    by (rule tree_ok_pc(3)) (use killed_leader [OF assms(2)] in \<open>auto simp: leader_alive_def\<close>)
next
  case FinalKill
  with assms(1) have s': "s' = s\<lparr>ps_procs := kill_process_tree l SigKill (ps_procs s)\<rparr>\<lparr>ps_pc := KillReturned\<rparr>"
    and d: "ps_done s" using assms(2) by (auto simp: tree_ok_def split: if_splits)
  show ?thesis unfolding s' using tree_ok_signal [OF assms(2)]
    by (rule tree_ok_pc(4)) (use d killed_leader [OF assms(2)] in auto)
next
  case WaitReturns
  with assms show ?thesis by (auto simp: tree_ok_def leader_alive_def split: if_splits)
next
  case ParentDies
  with assms show ?thesis
    using tree_ok_fewer [OF tree_ok_other(1) [OF assms(2)]] tree_ok_other(1) [OF assms(2)]
    by (auto split: if_splits option.splits)
next
  case (Fork i obeys)
  obtain p ps where f: "filter (\<lambda>p. pr_pid p = i) (ps_procs s) = p # ps"
    using assms(1) Fork by (auto split: list.splits)
  then have "p \<in> set (filter (\<lambda>p. pr_pid p = i) (ps_procs s))" by simp
  then have "p \<in> set (ps_procs s)" by simp
  moreover have "s' = s\<lparr>ps_next := Suc (ps_next s),
      ps_procs := ps_procs s @ [\<lparr>pr_pid = ps_next s, pr_group = pr_group p, pr_obeys = obeys\<rparr>]\<rparr>"
    using assms(1) Fork f by simp
  ultimately show ?thesis using tree_ok_fork [OF assms(2)] by simp
next
  case (Leave i)
  let ?f = "\<lambda>p. if pr_pid p = i then p\<lparr>pr_group := i\<rparr> else p"
  have s': "s' = s\<lparr>ps_procs := map ?f (ps_procs s)\<rparr>" and "\<exists>p \<in> set (ps_procs s). pr_pid p = i \<and> pr_group p \<noteq> i"
    using assms(1) Leave by (simp_all split: if_splits)
  then have "i \<noteq> l" using assms(2) by (auto simp: tree_ok_def)
  have pids: "map pr_pid (map ?f ps) = map pr_pid ps" for ps by (induction ps) simp_all
  have alive: "leader_alive l v \<longleftrightarrow> l \<in> set (map pr_pid (ps_procs v))" for v by (auto simp: leader_alive_def)
  have "ps_procs s' = map ?f (ps_procs s)" by (simp add: s')
  then have "leader_alive l s' \<longleftrightarrow> leader_alive l s" unfolding alive by (simp only: pids)
  then show ?thesis using assms(2) \<open>i \<noteq> l\<close> by (auto simp: tree_ok_def s')
next
  case (Exit i)
  with assms(1) have "s' = s\<lparr>ps_procs := filter (\<lambda>p. pr_pid p \<noteq> i) (ps_procs s)\<rparr>" by (simp split: if_splits)
  then show ?thesis using tree_ok_fewer [OF assms(2)] by simp
qed

lemma tree_ok_reachable: "tree_state l s \<Longrightarrow> tree_ok l s"
  by (induction rule: tree_state.induct) (auto intro: tree_ok_init tree_ok_next)

lemma tree_run: "tree_state l s \<Longrightarrow> proc_run l es s = Some s' \<Longrightarrow> tree_state l s'"
  by (induction es arbitrary: s) (auto split: option.splits intro: tree_step)

section \<open>Properties\<close>

text \<open>
  C16. When \<open>Kill\<close> has returned, no process of the agent's group is left and none ever appears again, whatever the
  processes did meanwhile: forks between the signals, children that ignore \<open>SIGTERM\<close>, an agent that ended before.
\<close>

theorem kill_leaves_group_empty:
  assumes "tree_state l s" "ps_pc s = KillReturned" "proc_run l es s = Some s'"
  shows "ps_done s' \<and> (\<forall>p \<in> set (ps_procs s'). pr_pid p \<noteq> l \<and> pr_group p \<noteq> l)"
proof -
  have pc: "ps_pc s' = KillReturned" if "proc_next l e s = Some s'" "ps_pc s = KillReturned" for e s s'
    using that by (cases e) (auto split: if_splits list.splits)
  have "ps_pc s' = KillReturned"
    using assms(2,3) by (induction es arbitrary: s) (auto split: option.splits dest: pc)
  moreover have "tree_ok l s'" by (rule tree_ok_reachable [OF tree_run [OF assms(1,3)]])
  ultimately show ?thesis by (auto simp: tree_ok_def)
qed

definition stubborn_tree :: proc_sys where
  "stubborn_tree = agent_started 1 7 True False [\<lparr>pr_pid = 1, pr_group = 1, pr_obeys = True\<rparr>]"

lemma stubborn_run:
  "map_option ps_procs (proc_run 7 [Fork 7 False, KillStarts, Fork 8 False, TimerFires, WaitReturns, DoneSeen, FinalKill]
     stubborn_tree) = Some [\<lparr>pr_pid = 1, pr_group = 1, pr_obeys = True\<rparr>]"
  by code_simp

theorem kill_leaves_group_empty_witness:
  "\<exists>s. proc_run 7 [Fork 7 False, KillStarts, Fork 8 False, TimerFires, WaitReturns, DoneSeen, FinalKill] stubborn_tree = Some s \<and>
     ps_done s \<and> 7 \<notin> pr_group ` set (ps_procs s)"
proof -
  let ?es = "[Fork 7 False, KillStarts, Fork 8 False, TimerFires, WaitReturns, DoneSeen, FinalKill]"
  have "tree_state 7 stubborn_tree" unfolding stubborn_tree_def by (rule tree_init) simp
  moreover obtain s where s: "proc_run 7 ?es stubborn_tree = Some s" using stubborn_run by blast
  ultimately have "tree_state 7 s" by (rule tree_run)
  moreover have "map_option ps_pc (proc_run 7 ?es stubborn_tree) = Some KillReturned" by code_simp
  then have "ps_pc s = KillReturned" using s by simp
  ultimately show ?thesis using kill_leaves_group_empty [of 7 s "[]" s] s by auto
qed

text \<open>\<open>Kill\<close> can return within \<open>k\<close> steps of its own.\<close>

definition kill_steps :: "proc_event set" where
  "kill_steps = {KillStarts, TimerFires, WaitReturns, DoneSeen, FinalKill}"

definition returns_within :: "nat \<Rightarrow> nat \<Rightarrow> proc_sys \<Rightarrow> bool" where
  "returns_within k l s \<longleftrightarrow> (\<exists>es s'. set es \<subseteq> kill_steps \<and> length es \<le> k \<and> proc_run l es s = Some s' \<and> ps_pc s' = KillReturned)"

lemma returns_step:
  assumes "proc_next l e s = Some s'" "e \<in> kill_steps" "returns_within k l s'"
  shows "returns_within (Suc k) l s"
proof -
  obtain es s2 where "set es \<subseteq> kill_steps" "length es \<le> k" "proc_run l es s' = Some s2" "ps_pc s2 = KillReturned"
    using assms(3) unfolding returns_within_def by blast
  then show ?thesis
    unfolding returns_within_def using assms(1,2) by (intro exI [of _ "e # es"] exI [of _ s2]) simp
qed

lemma returns_more: "returns_within k l s \<Longrightarrow> k \<le> k' \<Longrightarrow> returns_within k' l s"
  unfolding returns_within_def by (meson le_trans)

lemma returns_0: "ps_pc s = KillReturned \<Longrightarrow> returns_within 0 l s"
  unfolding returns_within_def by (intro exI [of _ "[]"] exI [of _ s]) simp

lemma returns_last: "ps_parent s \<Longrightarrow> ps_pc s = LastSignal \<Longrightarrow> returns_within 1 l s"
  using returns_step [of l FinalKill s _ 0] returns_0 by (simp add: kill_steps_def)

lemma returns_done:
  "ps_parent s \<Longrightarrow> ps_done s \<Longrightarrow> ps_pc s = AwaitDone \<or> ps_pc s = Escalated \<Longrightarrow> returns_within 2 l s"
  using returns_step [of l DoneSeen s _ 1] returns_last by (simp add: kill_steps_def numeral_2_eq_2)

lemma returns_escalated:
  assumes "tree_ok l s" "ps_parent s" "ps_pc s = Escalated"
  shows "returns_within 3 l s"
proof (cases "ps_done s")
  case True
  with returns_more [OF returns_done [OF assms(2)], of 3 l] assms(3) show ?thesis by simp
next
  case False
  have "\<not> leader_alive l s" using assms(1,3) by (simp add: tree_ok_def)
  with False assms have "proc_next l WaitReturns s = Some (s\<lparr>ps_done := True\<rparr>)" by simp
  from returns_step [OF this, of 2] returns_done [of "s\<lparr>ps_done := True\<rparr>" l] assms show ?thesis
    by (simp add: kill_steps_def numeral_3_eq_3 numeral_2_eq_2)
qed

lemma returns_await:
  assumes "tree_ok l s" "ps_parent s" "ps_pc s = AwaitDone"
  shows "returns_within 4 l s"
proof -
  let ?s = "s\<lparr>ps_procs := kill_process_tree l SigKill (ps_procs s), ps_pc := Escalated\<rparr>"
  have n: "proc_next l TimerFires s = Some ?s" using assms by simp
  have "returns_within 3 l ?s" by (rule returns_escalated [OF tree_ok_next [OF n assms(1)]]) (simp_all add: assms)
  from returns_step [OF n _ this] show ?thesis by (simp add: kill_steps_def eval_nat_numeral)
qed

text \<open>
  C17. \<open>Kill\<close> always returns while OpenCrow runs: from every state it can be in, its own steps, the timer and the
  goroutine that waits for the agent suffice, whatever the agent and its children do.
\<close>

theorem kill_returns:
  assumes "tree_state l s" "ps_parent s"
  shows "returns_within 5 l s"
proof -
  have ok: "tree_ok l s" by (rule tree_ok_reachable [OF assms(1)])
  show ?thesis
  proof (cases "ps_pc s")
    case NotKilled
    let ?s = "s\<lparr>ps_stdin_closed := True, ps_procs := kill_process_tree l SigTerm (ps_procs s), ps_pc := AwaitDone\<rparr>"
    have n: "proc_next l KillStarts s = Some ?s" using assms(2) NotKilled by simp
    have "returns_within 4 l ?s" by (rule returns_await [OF tree_ok_next [OF n ok]]) (simp_all add: assms(2))
    from returns_step [OF n _ this] show ?thesis by (simp add: kill_steps_def eval_nat_numeral)
  next
    case AwaitDone
    show ?thesis by (rule returns_more [OF returns_await [OF ok assms(2) AwaitDone]]) simp
  next
    case Escalated
    show ?thesis by (rule returns_more [OF returns_escalated [OF ok assms(2) Escalated]]) simp
  next
    case LastSignal
    show ?thesis by (rule returns_more [OF returns_last [OF assms(2) LastSignal]]) simp
  next
    case KillReturned
    show ?thesis by (rule returns_more [OF returns_0 [OF KillReturned]]) simp
  qed
qed

theorem kill_returns_witness: "returns_within 5 7 stubborn_tree"
proof -
  have "tree_state 7 stubborn_tree" unfolding stubborn_tree_def by (rule tree_init) simp
  from kill_returns [OF this] show ?thesis by (simp add: stubborn_tree_def agent_started_def Let_def)
qed

text \<open>
  What the group does not reach: a child that went into a session of its own survives \<open>Kill\<close>, and when OpenCrow is
  killed, \<open>Pdeathsig\<close> ends the agent but none of its children.
\<close>

lemma session_leader_survives_kill:
  "map_option ps_procs (proc_run 7 [Fork 7 True, Leave 8, KillStarts, TimerFires, WaitReturns, DoneSeen, FinalKill]
     stubborn_tree) = Some [\<lparr>pr_pid = 1, pr_group = 1, pr_obeys = True\<rparr>, \<lparr>pr_pid = 8, pr_group = 8, pr_obeys = True\<rparr>]"
  by code_simp

lemma children_survive_parent:
  "map_option ps_procs (proc_run 7 [Fork 7 True, ParentDies] (agent_started 1 7 True True [])) =
     Some [\<lparr>pr_pid = 8, pr_group = 7, pr_obeys = True\<rparr>]"
  by code_simp

end
