(* ===== verification/Agent_Stream.thy ===== *)
theory Agent_Stream
  imports Pi_Event Go_Bufio
begin

text \<open>
  The agent's output on its way to the worker: the pipes that \<open>startPiProcess\<close> opens (\<open>pi.go\<close>), the goroutine that
  reads standard output (\<open>readEvents\<close> in \<open>pi_rpc.go\<close>), the one that reads standard error, and the log
  record that every event becomes (\<open>pi_format.go\<close>).
\<close>

section \<open>The log\<close>

datatype record_level = LogDebug | LogInfo | LogWarn | LogError

datatype log_value = LogText string | LogNum int | LogFlag bool

record log_record =
  lr_level :: record_level
  lr_msg :: string
  lr_attrs :: "(string \<times> log_value) list"

definition log_line :: "record_level \<Rightarrow> string \<Rightarrow> (string \<times> log_value) list \<Rightarrow> log_record" where
  "log_line l m as = \<lparr>lr_level = l, lr_msg = m, lr_attrs = as\<rparr>"

definition log_simple_rpc_event :: "rpc_event \<Rightarrow> log_record" where
  "log_simple_rpc_event e =
     (if ev_type e = ''agent_start'' then log_line LogInfo ''pi: agent started'' []
      else if ev_type e = ''agent_end'' then log_line LogInfo ''pi: agent finished'' []
      else if ev_type e = ''auto_compaction_start''
      then log_line LogInfo ''pi: compaction started'' [(''reason'', LogText (ev_reason e))]
      else if ev_type e = ''auto_compaction_end'' then log_line LogInfo ''pi: compaction finished'' []
      else if ev_type e \<in> {''turn_start'', ''turn_end'', ''message_start'', ''message_end'', ''extension_ui_request''}
      then log_line LogDebug (''pi: '' @ ev_type e) []
      else log_line LogDebug ''pi: event'' [(''type'', LogText (ev_type e))])"

definition log_auto_retry_start :: "rpc_event \<Rightarrow> log_record" where
  "log_auto_retry_start e =
     log_line LogWarn ''pi: auto-retry''
       [(''attempt'', LogNum (ev_attempt e)), (''max'', LogNum (ev_max_attempts e)),
        (''delay_ms'', LogNum (ev_delay_ms e)), (''error'', LogText (ev_error_message e))]"

definition log_auto_retry_end :: "rpc_event \<Rightarrow> log_record" where
  "log_auto_retry_end e =
     (if ev_success e = Some True
      then log_line LogInfo ''pi: retry succeeded'' [(''attempt'', LogNum (ev_attempt e))]
      else log_line LogWarn ''pi: retries exhausted''
             [(''attempt'', LogNum (ev_attempt e)), (''error'', LogText (ev_final_error e))])"

definition log_extension_error :: "rpc_event \<Rightarrow> log_record" where
  "log_extension_error e =
     log_line LogError ''pi: extension error''
       [(''extension'', LogText (ev_extension_path e)), (''event'', LogText (ev_event e)),
        (''error'', LogText (ev_error e))]"

definition log_response :: "rpc_event \<Rightarrow> log_record" where
  "log_response e =
     log_line LogDebug ''pi: response''
       [(''command'', LogText (ev_command e)), (''success'', LogFlag (ev_success e = Some True)),
        (''error'', LogText (ev_error e))]"

text \<open>The deltas of a streamed answer are not logged.\<close>

definition log_rpc_event :: "rpc_event \<Rightarrow> log_record option" where
  "log_rpc_event e =
     (if ev_type e \<in> {''message_update'', ''tool_execution_update''} then None
      else if ev_type e = ''tool_execution_start''
      then Some (log_line LogInfo ''pi: tool started'' (map (\<lambda>(k, v). (k, LogText v)) (log_tool_args e)))
      else if ev_type e = ''tool_execution_end''
      then Some (log_line LogInfo ''pi: tool finished'' [(''tool'', LogText (ev_tool_name e))])
      else if ev_type e = ''auto_retry_start'' then Some (log_auto_retry_start e)
      else if ev_type e = ''auto_retry_end'' then Some (log_auto_retry_end e)
      else if ev_type e = ''extension_error'' then Some (log_extension_error e)
      else if ev_type e = ''response'' then Some (log_response e)
      else Some (log_simple_rpc_event e))"

text \<open>A tool call is logged with at most two values, and the argument is cut.\<close>

lemma log_tool_args_bound:
  "length (log_tool_args e) \<le> 2" "\<forall>(k, v) \<in> set (tl (log_tool_args e)). length v \<le> tool_arg_max_len + 3"
  by (simp_all add: log_tool_args_def Let_def ellipsis_def split: option.splits json.splits)

section \<open>The reader\<close>

definition scanner_buf_size :: nat where "scanner_buf_size = 2 ^ 20"

fun scan_error :: "scan_state \<Rightarrow> string option" where
  "scan_error (Waiting _) = None"
| "scan_error (Stopped e) = e"

text \<open>
  The lines of standard output with the values they denote; what \<open>encoding/json\<close> makes of a line is the argument
  \<open>json\<close>.
\<close>

definition parsed_lines :: "(string \<Rightarrow> json option) \<Rightarrow> string list \<Rightarrow> (string \<times> json option) list" where
  "parsed_lines json ls = map (\<lambda>l. (l, json l)) ls"

definition stdout_events :: "(string \<Rightarrow> json option) \<Rightarrow> read_result list \<Rightarrow> (string + rpc_event) list" where
  "stdout_events json rs =
     (case scan_lines scanner_buf_size [] rs of
        (ls, st) \<Rightarrow> read_events (parsed_lines json ls) (scan_error st))"

text \<open>What the reader logs: unreadable lines with a warning, the others by \<open>logRPCEvent\<close>.\<close>

definition log_stdout_line :: "(string \<Rightarrow> json option) \<Rightarrow> string \<Rightarrow> log_record option" where
  "log_stdout_line json l =
     (if l = [] then None
      else case parse_line (l, json l) of
             None \<Rightarrow> Some (log_line LogWarn ''malformed JSON from pi'' [(''line'', LogText l)])
           | Some e \<Rightarrow> log_rpc_event e)"

definition stdout_log :: "(string \<Rightarrow> json option) \<Rightarrow> read_result list \<Rightarrow> log_record list" where
  "stdout_log json rs = List.map_filter (log_stdout_line json) (fst (scan_lines scanner_buf_size [] rs))"

text \<open>Standard error: every line is logged; the goroutine looks at no error of its scanner.\<close>

definition stderr_log :: "read_result list \<Rightarrow> log_record list \<times> scan_state" where
  "stderr_log rs =
     (case scan_lines max_scan_token_size [] rs of
        (ls, st) \<Rightarrow> (map (\<lambda>l. log_line LogDebug ''pi: stderr'' [(''line'', LogText l)]) ls, st))"

section \<open>The pipe\<close>

text \<open>
  A pipe of \<open>cap\<close> bytes between the agent and a reader. The goroutine of \<open>startPiProcess\<close> calls \<open>cmd.Wait\<close> at once:
  when the agent has ended, \<open>Wait\<close> closes the reading end, whether it has been read to the end or not.
  \<open>pp_written\<close> is what the agent ever wrote.
\<close>

record pipe =
  pp_written :: string
  pp_buf :: string
  pp_agent :: bool
  pp_open :: bool
  pp_reads :: "read_result list"

datatype pipe_event = AgentWrites string | AgentExits | WaitCloses | ReaderReads nat

fun read_ended :: "read_result list \<Rightarrow> bool" where
  "read_ended rs = (rs \<noteq> [] \<and> (case last rs of Bytes _ \<Rightarrow> False | _ \<Rightarrow> True))"

definition closed_error :: string where "closed_error = ''read |0: file already closed''"

fun pipe_next :: "nat \<Rightarrow> pipe_event \<Rightarrow> pipe \<Rightarrow> pipe option" where
  "pipe_next cap (AgentWrites s) a =
     (if pp_agent a \<and> pp_open a \<and> length (pp_buf a) + length s \<le> cap
      then Some (a\<lparr>pp_buf := pp_buf a @ s, pp_written := pp_written a @ s\<rparr>) else None)"
| "pipe_next cap AgentExits a = (if pp_agent a then Some (a\<lparr>pp_agent := False\<rparr>) else None)"
| "pipe_next cap WaitCloses a = (if \<not> pp_agent a \<and> pp_open a then Some (a\<lparr>pp_open := False\<rparr>) else None)"
| "pipe_next cap (ReaderReads n) a =
     (if read_ended (pp_reads a) then None
      else if \<not> pp_open a then Some (a\<lparr>pp_reads := pp_reads a @ [ReadFault closed_error]\<rparr>)
      else if pp_buf a \<noteq> []
      then Some (a\<lparr>pp_reads := pp_reads a @ [Bytes (take (Suc n) (pp_buf a))], pp_buf := drop (Suc n) (pp_buf a)\<rparr>)
      else if pp_agent a then None
      else Some (a\<lparr>pp_reads := pp_reads a @ [AtEof]\<rparr>))"

fun pipe_run :: "nat \<Rightarrow> pipe_event list \<Rightarrow> pipe \<Rightarrow> pipe option" where
  "pipe_run cap [] a = Some a"
| "pipe_run cap (e # es) a = (case pipe_next cap e a of None \<Rightarrow> None | Some a \<Rightarrow> pipe_run cap es a)"

definition fresh_pipe :: pipe where
  "fresh_pipe = \<lparr>pp_written = [], pp_buf = [], pp_agent = True, pp_open = True, pp_reads = []\<rparr>"

inductive pipe_state :: "nat \<Rightarrow> pipe \<Rightarrow> bool" for cap where
  pipe_init: "pipe_state cap fresh_pipe"
| pipe_step: "pipe_state cap a \<Longrightarrow> pipe_next cap e a = Some a' \<Longrightarrow> pipe_state cap a'"

lemma pipe_run_state: "pipe_state cap a \<Longrightarrow> pipe_run cap es a = Some a' \<Longrightarrow> pipe_state cap a'"
  by (induction es arbitrary: a) (auto split: option.splits intro: pipe_step)

text \<open>What was read and what is in the pipe is what was written; the reads end with at most one that is no bytes.\<close>

definition pipe_ok :: "pipe \<Rightarrow> bool" where
  "pipe_ok a \<longleftrightarrow> (\<exists>cs tl. pp_reads a = map Bytes cs @ tl \<and> concat cs @ pp_buf a = pp_written a \<and>
     (tl = [] \<or> tl = [AtEof] \<and> pp_buf a = [] \<and> \<not> pp_agent a \<or> tl = [ReadFault closed_error] \<and> \<not> pp_open a))"

lemma pipe_ok_next:
  assumes "pipe_next cap e a = Some a'" "pipe_ok a"
  shows "pipe_ok a'"
proof -
  obtain cs tl where a: "pp_reads a = map Bytes cs @ tl" "concat cs @ pp_buf a = pp_written a"
    "tl = [] \<or> tl = [AtEof] \<and> pp_buf a = [] \<and> \<not> pp_agent a \<or> tl = [ReadFault closed_error] \<and> \<not> pp_open a"
    using assms(2) unfolding pipe_ok_def by blast
  have more: "pipe_ok a'" if "pp_reads a' = map Bytes ds @ t" "concat ds @ pp_buf a' = pp_written a'"
    "t = [] \<or> t = [AtEof] \<and> pp_buf a' = [] \<and> \<not> pp_agent a' \<or> t = [ReadFault closed_error] \<and> \<not> pp_open a'" for ds t
    unfolding pipe_ok_def using that by blast
  show ?thesis
  proof (cases e)
    case (AgentWrites s)
    with assms(1) a show ?thesis by (intro more [of cs tl]) (auto split: if_splits)
  next
    case (ReaderReads n)
    with assms(1) a(3) have tl: "tl = []" by (auto simp: a(1) split: if_splits)
    consider "\<not> pp_open a" "a' = a\<lparr>pp_reads := pp_reads a @ [ReadFault closed_error]\<rparr>"
      | "a' = a\<lparr>pp_reads := pp_reads a @ [Bytes (take (Suc n) (pp_buf a))], pp_buf := drop (Suc n) (pp_buf a)\<rparr>"
      | "pp_buf a = []" "\<not> pp_agent a" "a' = a\<lparr>pp_reads := pp_reads a @ [AtEof]\<rparr>"
      using assms(1) ReaderReads by (auto split: if_splits)
    then show ?thesis
    proof cases
      case 1
      then show ?thesis using a tl by (intro more [of cs "[ReadFault closed_error]"]) simp_all
    next
      case 2
      then show ?thesis using a tl by (intro more [of "cs @ [take (Suc n) (pp_buf a)]" "[]"]) simp_all
    next
      case 3
      then show ?thesis using a tl by (intro more [of cs "[AtEof]"]) simp_all
    qed
  next
    case AgentExits
    with assms(1) a show ?thesis by (intro more [of cs tl]) (auto split: if_splits)
  next
    case WaitCloses
    with assms(1) a show ?thesis by (intro more [of cs tl]) (auto split: if_splits)
  qed
qed

lemma pipe_ok_reachable: "pipe_state cap a \<Longrightarrow> pipe_ok a"
proof (induction rule: pipe_state.induct)
  case pipe_init
  show ?case unfolding pipe_ok_def by (intro exI [of _ "[]"]) (simp add: fresh_pipe_def)
qed (rule pipe_ok_next)

section \<open>Properties\<close>

text \<open>
  C18. Everything the agent wrote arrives as long as the pipe is read to its end: the events are those of its lines, in
  order, however the writes and the reads cut the lines and interleave; only lines that are no event are
  left out.
\<close>

theorem agent_events_arrive:
  assumes "pipe_state cap a" "pp_reads a = rs @ [AtEof]" "pp_written a = terminated ls"
    "\<forall>l \<in> set ls. CHR 0x0A \<notin> set l \<and> length l < scanner_buf_size"
  shows "stdout_events json (pp_reads a) = map Inr (List.map_filter parse_line (parsed_lines json (map drop_cr ls)))"
proof -
  obtain cs tl where cs: "rs @ [AtEof] = map Bytes cs @ tl" "concat cs @ pp_buf a = terminated ls"
    "tl = [] \<or> tl = [AtEof] \<and> pp_buf a = [] \<or> tl = [ReadFault closed_error]"
    using pipe_ok_reachable [OF assms(1)] assms(2,3) unfolding pipe_ok_def by auto
  have "tl = [AtEof] \<and> pp_buf a = []"
    using cs(3)
  proof (elim disjE)
    assume "tl = []"
    with cs(1) have "AtEof \<in> set (map Bytes cs)" by (metis append_Nil2 in_set_conv_decomp)
    then show ?thesis by auto
  qed (use cs(1) in simp_all)
  with cs have r: "pp_reads a = map Bytes cs @ [AtEof]" "concat cs = terminated ls" using assms(2) by simp_all
  have "scan_lines scanner_buf_size [] (pp_reads a) = (map drop_cr ls, Stopped None)"
    using scan_lines_chunks [of scanner_buf_size "[]" cs "[AtEof]"] feed_terminated [OF assms(4)]
    by (simp add: r final_token_def)
  then show ?thesis by (simp add: stdout_events_def read_events_def)
qed

definition sample_json :: "string \<Rightarrow> json option" where
  "sample_json l = (if l = ''start'' then Some (JObj [(''type'', JStr ''agent_start'')])
     else if l = ''end'' then Some (JObj [(''type'', JStr ''agent_end'')]) else None)"

definition sample_writes :: "pipe_event list" where
  "sample_writes = [AgentWrites ''sta'', ReaderReads 0, AgentWrites (''rt'' @ [CHR 0x0A] @ ''oops''),
     ReaderReads 5, AgentWrites ([CHR 0x0A] @ ''end'' @ [CHR 0x0A]), AgentExits, ReaderReads 100, ReaderReads 100]"

lemma sample_pipe_run:
  "case pipe_run 16 sample_writes fresh_pipe of None \<Rightarrow> False
   | Some a \<Rightarrow> pp_written a = terminated [''start'', ''oops'', ''end''] \<and>
       (pp_reads a \<noteq> [] \<and> last (pp_reads a) = AtEof) \<and>
       List.map_filter parse_line (parsed_lines sample_json [''start'', ''oops'', ''end'']) =
         [zero_event\<lparr>ev_type := ''agent_start''\<rparr>, zero_event\<lparr>ev_type := ''agent_end''\<rparr>]"
  by code_simp

theorem agent_events_arrive_witness:
  "\<exists>a. pipe_run 16 sample_writes fresh_pipe = Some a \<and>
     stdout_events sample_json (pp_reads a) =
       [Inr (zero_event\<lparr>ev_type := ''agent_start''\<rparr>), Inr (zero_event\<lparr>ev_type := ''agent_end''\<rparr>)]"
proof -
  obtain a where a: "pipe_run 16 sample_writes fresh_pipe = Some a"
      "pp_written a = terminated [''start'', ''oops'', ''end'']" "pp_reads a \<noteq> []" "last (pp_reads a) = AtEof"
      "List.map_filter parse_line (parsed_lines sample_json [''start'', ''oops'', ''end'']) =
         [zero_event\<lparr>ev_type := ''agent_start''\<rparr>, zero_event\<lparr>ev_type := ''agent_end''\<rparr>]"
    using sample_pipe_run by (auto split: option.splits)
  have "pp_reads a = butlast (pp_reads a) @ [AtEof]" using a(3,4) by (metis append_butlast_last_id)
  moreover have "\<forall>l \<in> set [''start'', ''oops'', ''end'']. CHR 0x0A \<notin> set l \<and> length l < scanner_buf_size"
    by (simp add: scanner_buf_size_def)
  moreover have "pipe_state 16 a" by (rule pipe_run_state [OF pipe_init a(1)])
  ultimately show ?thesis
    using agent_events_arrive [of 16 a "butlast (pp_reads a)" "[''start'', ''oops'', ''end'']" sample_json] a(1,2,5)
    by simp
qed

text \<open>
  The end of the agent takes its last words away: the answer is written, the agent ends, and \<open>Wait\<close> closes the pipe
  before the reader has seen the line.
\<close>

theorem last_events_lost:
  "case pipe_run 16 [AgentWrites (''end'' @ [CHR 0x0A]), AgentExits, WaitCloses, ReaderReads 100] fresh_pipe of
     None \<Rightarrow> False
   | Some a \<Rightarrow> pp_written a = ''end'' @ [CHR 0x0A] \<and>
       stdout_events sample_json (pp_reads a) = [Inl ''reading pi stdout: read |0: file already closed'']"
  by (simp add: fresh_pipe_def stdout_events_def read_events_def parsed_lines_def final_token_def closed_error_def
      List.map_filter_simps)

text \<open>
  A line of 64 KiB on standard error ends its goroutine; from then on nobody reads that pipe, and the agent can
  write no more than what still fits into it before it blocks.
\<close>

theorem long_stderr_line_ends_pump:
  assumes "CHR 0x0A \<notin> set l" "max_scan_token_size \<le> length l" "concat cs = l @ s"
  shows "stderr_log (map Bytes cs @ rs) = ([], Stopped (Some err_too_long))"
proof -
  have "feed max_scan_token_size [] (concat cs) = ([], None)"
    unfolding assms(3) by (rule feed_too_long) (use assms in \<open>simp_all add: max_scan_token_size_def\<close>)
  then show ?thesis by (simp add: stderr_log_def scan_lines_chunks)
qed

fun is_read :: "pipe_event \<Rightarrow> bool" where
  "is_read (ReaderReads _) = True"
| "is_read _ = False"

theorem unread_pipe_blocks_agent:
  "pipe_run cap es a = Some a' \<Longrightarrow> list_all (\<lambda>e. \<not> is_read e) es \<Longrightarrow> length (pp_buf a) \<le> cap \<Longrightarrow>
   length (pp_written a') \<le> length (pp_written a) + (cap - length (pp_buf a))"
proof (induction es arbitrary: a)
  case (Cons e es)
  obtain a1 where n: "pipe_next cap e a = Some a1" "pipe_run cap es a1 = Some a'"
    using Cons.prems(1) by (auto split: option.splits)
  then have "length (pp_buf a1) \<le> cap \<and>
      length (pp_written a1) + (cap - length (pp_buf a1)) = length (pp_written a) + (cap - length (pp_buf a))"
    using Cons.prems(2,3) by (cases e) (auto split: if_splits)
  with Cons.IH [OF n(2)] Cons.prems(2) show ?case by simp
qed simp

end
