(* ===== verification/Tickers.thy ===== *)
theory Tickers
  imports Environment
begin

text \<open>
  The goroutines that wait for a ticker: the reminder loop and the heartbeat (\<open>heartbeat.go\<close>) and the idle reaper
  (\<open>worker.go\<close>). Each of them is shown to do to the worker's state what a list of acts of the theory
  \<open>Environment\<close> does, so that the theorems about all schedules cover it.
\<close>

section \<open>The loops\<close>

text \<open>What the \<open>select\<close> of such a loop sees: a tick after some time, or the end of the context.\<close>

datatype tick = Tick nat | CtxEnded

text \<open>A loop over a ticker: \<open>True\<close> when it has returned.\<close>

fun ticker_loop :: "(world \<Rightarrow> world) \<Rightarrow> tick list \<Rightarrow> world \<Rightarrow> bool \<times> world" where
  "ticker_loop f [] w = (False, w)"
| "ticker_loop f (CtxEnded # ts) w = (True, w)"
| "ticker_loop f (Tick t # ts) w = ticker_loop f ts (f (w\<lparr>now_ns := now_ns w + int t\<rparr>))"

text \<open>Reminders that are due already do not wait for the first tick.\<close>

definition reminder_loop :: "tick list \<Rightarrow> world \<Rightarrow> bool \<times> world" where
  "reminder_loop ts w = ticker_loop dispatch_due_reminders ts (dispatch_due_reminders w)"

definition heartbeat_loop :: "tick list \<Rightarrow> world \<Rightarrow> bool \<times> world" where
  "heartbeat_loop ts w = (if hb_interval w \<le> 0 then (True, w) else ticker_loop heartbeat_tick ts w)"

definition reaper_loop :: "tick list \<Rightarrow> world \<Rightarrow> bool \<times> world" where
  "reaper_loop ts w =
     (if idle_timeout (cfg w) \<le> 0 then (True, w) else ticker_loop (\<lambda>w. reap_stop (reap_look w)) ts w)"

section \<open>Their acts\<close>

fun tick_acts :: "act list \<Rightarrow> tick list \<Rightarrow> act list" where
  "tick_acts as [] = []"
| "tick_acts as (CtxEnded # ts) = []"
| "tick_acts as (Tick t # ts) = AElapse t # as @ tick_acts as ts"

lemma ticker_loop_acts:
  assumes "\<And>w. f w = fold env as w"
  shows "snd (ticker_loop f ts w) = fold env (tick_acts as ts) w"
proof (induction ts arbitrary: w)
  case (Cons t ts)
  then show ?case by (cases t) (simp_all add: assms)
qed simp

lemma ticker_loop_returns: "fst (ticker_loop f ts w) \<longleftrightarrow> CtxEnded \<in> set ts"
proof (induction ts arbitrary: w)
  case (Cons t ts)
  then show ?case by (cases t) simp_all
qed simp

lemma loops_are_schedules:
  "snd (reminder_loop ts w) = fold env (AReminders # tick_acts [AReminders] ts) w"
  "0 < hb_interval w \<Longrightarrow> snd (heartbeat_loop ts w) = fold env (tick_acts [AHeartbeat] ts) w"
  "0 < idle_timeout (cfg w) \<Longrightarrow> snd (reaper_loop ts w) = fold env (tick_acts [AReapLook, AReapStop] ts) w"
  by (simp_all add: reminder_loop_def heartbeat_loop_def reaper_loop_def ticker_loop_acts)

text \<open>None of them outlives the context.\<close>

lemma loops_return:
  "CtxEnded \<in> set ts \<Longrightarrow> fst (reminder_loop ts w) \<and> fst (heartbeat_loop ts w) \<and> fst (reaper_loop ts w)"
  by (simp add: reminder_loop_def heartbeat_loop_def reaper_loop_def ticker_loop_returns)

end
