(* ===== verification/Spec2Isabelle.thy ===== *)
theory Spec2Isabelle
  imports Prelude Go_Path Json Store Inbox Outbox Backend_Util Pi_Args Go_Fmt Pi_Event
    Worker_State App Scheduler Environment Core_Machine Pi_Rpc Pi_Turn Worker Worker_Loop
    Publish_Queue Publish_Store Nostr_File Nostr Nostr_Safety Config
    Signal Socket Matrix Backends Gatekeeper
    Go_Bufio Trigger_Pipe Nostr_Run Transports Socket_Server Worker_Shutdown Main_Run
    Run_Invariant Provenance End_To_End No_Loss Process_Tree Agent_Stream Tickers Nostr_Db
begin

text \<open>
  A verification development for OpenCrow (Go): a bridge between a chat network and a coding agent.
  A transport (Matrix, Nostr, Signal or a local socket) hands inbound messages to the application; the
  application turns a message into a command or into an item of a persistent inbox; one worker
  goroutine takes items in order of priority, drives an agent process over a line protocol and sends its
  answer back through the transport. Reminders, a heartbeat and a trigger pipe feed the same inbox.

  \<^bold>\<open>The library.\<close>
  \<^item> \<open>Prelude\<close>, \<open>Go_Path\<close>, \<open>Go_Fmt\<close>, \<open>Json\<close>: what the sources use of Go's \<open>strings\<close>, \<open>strconv\<close>,
    \<open>path/filepath\<close>, \<open>fmt\<close>, \<open>time\<close> and \<open>encoding/json\<close>, with their laws. A Go string is its list of
    bytes. A JSON text is represented by the value it denotes.
  \<^item> \<open>Store\<close> (\<open>queries.sql_sqlc.go\<close>): the three tables and each SQL statement as a function on them. Every
    statement consumes an entry of the list \<open>faults\<close>, so that it may fail at any point; a failing
    transaction is rolled back.
  \<^item> \<open>Inbox\<close>, \<open>Outbox\<close> (\<open>inbox.go\<close>, \<open>outbox.go\<close>): the priority queue and the log of texts. The locale
    \<open>job_queue\<close> is the contract of the inbox and \<open>inbox_q\<close> its interpretation on the table.
  \<^item> \<open>Backend_Util\<close> (\<open>backend/\<close>): messages, the active conversation, attachment markers, the allow-list.
  \<^item> \<open>Pi_Args\<close>, \<open>Pi_Event\<close> (\<open>pi.go\<close>, \<open>pi_format.go\<close>, \<open>pi_rpc.go\<close>): the command line of the agent and
    the decoding of its events.
  \<^item> \<open>Worker_State\<close>, \<open>App\<close>, \<open>Scheduler\<close>: the record \<open>world\<close> (the worker's fields, the agent processes,
    the database and everything sent to the outside) and the operations on it that do not block:
    \<open>worker.go\<close>'s \<open>Notify\<close>, \<open>Abort\<close>, \<open>Restart\<close> and the like, \<open>app.go\<close>, \<open>heartbeat.go\<close> and
    \<open>trigger_pipe.go\<close>.
  \<^item> \<open>Process_Tree\<close>, \<open>Agent_Stream\<close> (\<open>pi.go\<close>, \<open>pi_proc_linux.go\<close>, \<open>pi_proc_other.go\<close>, \<open>pi_format.go\<close>): below the worker's view
    of an agent. The processes of its group with the steps of \<open>Kill\<close>, and the bytes of its output on their way
    through the pipes to events and log records, as interleaving machines. \<open>Go_Bufio\<close> has the scanner over lines.
  \<^item> \<open>Tickers\<close> (\<open>heartbeat.go\<close>, \<open>worker.go\<close>): the goroutines over a ticker, shown to be schedules.
  \<^item> \<open>Environment\<close>: schedules. A schedule is a list of acts: what other goroutines and the outside do
    while the worker blocks or pauses, and what its \<open>select\<close>s pick. A blocking function consumes the
    schedule and returns \<open>Done\<close> with the rest of it, or \<open>Blocked\<close>. A theorem about all schedules is
    one about all interleavings at these points.
  \<^item> \<open>Core_Machine\<close>: the abstract machine (pending items, agent, compact channel) with its steps as
    inductive relations and the invariants by rule induction.
  \<^item> \<open>Pi_Rpc\<close>, \<open>Pi_Turn\<close> (\<open>pi_rpc.go\<close>): the loops that wait for a turn or a compaction. The locale
    \<open>event_waiter\<close> has the laws of such a loop; the prompt and the compact command are its
    interpretations.
  \<^item> \<open>Worker\<close>, \<open>Worker_Loop\<close> (\<open>worker.go\<close>): the processing of an item with all its error paths, and the
    loop over the inbox, proved to refine the abstract machine. \<open>Worker_Shutdown\<close>: what holds when it returns.
  \<^item> \<open>Trigger_Pipe\<close> (\<open>trigger_pipe.go\<close>): the goroutine that reads the FIFO.
  \<^item> \<open>Run_Invariant\<close>: the locale \<open>turn_invariant\<close> carries an invariant through the turn of an item, \<open>loop_invariant\<close>
    through the loop, and \<open>run_invariant\<close> gives the second from the first (\<open>sublocale\<close>). \<open>Provenance\<close> (where the prompts
    come from) and \<open>No_Loss\<close> (what becomes of a user's message) are the interpretations.
  \<^item> \<open>Publish_Queue\<close>, \<open>Publish_Store\<close> (\<open>nostr/publish_queue.go\<close>): the queue of events with its passes over
    the relays, the circuit breakers, eviction and the rows it keeps in the database.
  \<^item> \<open>Nostr_File\<close>, \<open>Nostr\<close>, \<open>Nostr_Safety\<close> (the rest of \<open>nostr/\<close>): encrypted files, keys, direct messages,
    metadata, gift wraps and their deduplication (locale \<open>seen_store\<close>, interpreted on the table).
    \<open>Nostr_Run\<close>: \<open>Run\<close> with its goroutines and its shutdown as an interleaving machine. \<open>Nostr_Db\<close>: its database.
  \<^item> \<open>Config\<close>, \<open>Backends\<close> (\<open>config.go\<close>, \<open>main.go\<close>, \<open>version.go\<close>): the environment, its validation and the
    transport made from it.
  \<^item> \<open>Signal_Decode\<close>, \<open>Signal_Rpc\<close>, \<open>Signal\<close> (\<open>signal/\<close>): payloads, the JSON-RPC client as a machine of
    concurrent callers and a reader, the daemon and the receive loop.
  \<^item> \<open>Matrix\<close> (\<open>matrix/backend.go\<close>), \<open>Socket\<close> (\<open>socket/backend.go\<close>): the two other transports.
    \<open>Socket_Server\<close>: connections, commands and sends of the bot interleaved. \<open>Transports\<close>: prompts, Markdown,
    typing and the remaining small operations of all of them.
  \<^item> \<open>Gatekeeper\<close>: the locale of the contract all transports keep (only accepted senders are heard), with
    the four transports as interpretations.
  \<^item> \<open>Main_Run\<close> (\<open>main.go\<close>): the start with everything it opens and wires, and the life of the process: main
    goroutine, worker and signal handler. \<open>End_To_End\<close>: start, transport, application and worker together.

  \<^bold>\<open>What the lemmas show.\<close> A user message is answered in order and completely, whatever retries happen; a
  turn returns once the agent ends it; a message is pending, prompted or reported at every point of every
  run; only what allowed users wrote, and the fixed prompts, ever reach an agent, from the network to its
  input; when the process ends it leaves no agent, and \<open>Kill\<close> returns and leaves no process of the
  group; the events are those of the lines of the agent; a failed or preempted item is reported or put back; at most
  one agent runs and at most one heartbeat is pending in every run; the inbox is served by priority and
  then by age; the outbox is a bounded log; reminders survive failing statements; the publish queue
  loses no undelivered event over a restart, probes a broken relay with one event at a time and backs off;
  a Nostr message is handled once; files and texts survive their round trips; remote captions and file
  names cannot break out of a line or a directory; a JSON-RPC response reaches the caller that asked;
  a long Matrix message arrives complete; the ids of the socket are unique over all connections; the Nostr transport returns only with every accepted
  message handed on and acknowledged, and can always return; a configuration that loads is complete.

  \<^bold>\<open>Bounds and fuel.\<close> Loops over a schedule, a list of answers or a text are structural or have the
  length of it as their measure; \<open>drain_once\<close> and \<open>run_loop\<close> use up an act or an item in each round.
  The only fuel is that of \<open>duration_terms\<close>, which is the length of the text; \<open>duration_fuel\<close> shows
  that it does not matter beyond that. The request counter of the Signal client and the id counter of
  the socket are 64-bit words, and their theorems state for how many operations they hold.

  \<^bold>\<open>Parameters.\<close> What is not in the sources is an argument: the records \<open>lib\<close> (Unicode tables, SQLite's
  \<open>datetime\<close>, wording of JSON errors), \<open>flib\<close> (hashes, AES-GCM, URL and MIME tables), \<open>nlib\<close> (Nostr keys,
  events and relays), \<open>mlib\<close> (Matrix client, Markdown, JSON texts) and \<open>host\<close> (files of the configuration).
  A Go run-time panic is the value \<open>None\<close> where one can happen.

  \<^bold>\<open>Not modelled.\<close> How \<open>slog\<close> writes its records, and log output other than that of agent and daemon; opening databases,
  FIFOs and sockets beyond the order of the steps and whether each fails; the syntax of JSON texts; the generated
  \<open>sqlc_db.go\<close> and \<open>nostr/sqlc_db.go\<close> (glue around \<open>database/sql\<close>); interfaces without code; the test relay, the
  TypeScript extensions, the packaging and the tests. A message of a transport other than the socket is handled by
  the application in one step, although handlers of different messages may interleave between their
  statements; the invitation of the Matrix transport and the tick of the idle reaper, where this
  matters, are two steps each.
\<close>

end
